(* ===== verification/JsValue.thy ===== *)
theory JsValue
  imports Prelude "HOL-Library.AList"
begin

text \<open>
  Dynamically typed values (what \<open>JSON.parse\<close> and third-party parsers hand to the code as
  \<open>unknown\<close>) and the conversion of a string to a number.
\<close>

section \<open>Values\<close>

text \<open>
  \<open>JDate\<close> holds the time value of a \<open>Date\<close> object in milliseconds, \<open>None\<close> for an invalid
  date. An object is the list of its own enumerable properties in insertion order.
\<close>

datatype jsval =
    JUndefined
  | JNull
  | JBool bool
  | JNum rat
  | JStr string
  | JDate "int option"
  | JArr "jsval list"
  | JObj "(string \<times> jsval) list"

text \<open>\<open>value[key]\<close>: the own property, \<open>undefined\<close> when there is none.\<close>

fun js_get :: "jsval \<Rightarrow> string \<Rightarrow> jsval" where
  "js_get (JObj ps) k = (case map_of ps k of Some v \<Rightarrow> v | None \<Rightarrow> JUndefined)"
| "js_get _ k = JUndefined"

text \<open>\<open>Boolean(value)\<close>.\<close>

fun truthy :: "jsval \<Rightarrow> bool" where
  "truthy JUndefined = False"
| "truthy JNull = False"
| "truthy (JBool b) = b"
| "truthy (JNum q) = (q \<noteq> 0)"
| "truthy (JStr s) = (s \<noteq> [])"
| "truthy _ = True"

text \<open>\<open>left ?? right\<close>.\<close>

fun nullish :: "jsval \<Rightarrow> bool" where
  "nullish JUndefined = True"
| "nullish JNull = True"
| "nullish _ = False"

definition coalesce :: "jsval \<Rightarrow> jsval \<Rightarrow> jsval" where
  "coalesce a b = (if nullish a then b else a)"

text \<open>\<open>typeof value === "object" && value !== null\<close>: arrays and dates count.\<close>

fun is_object :: "jsval \<Rightarrow> bool" where
  "is_object (JDate _) = True"
| "is_object (JArr _) = True"
| "is_object (JObj _) = True"
| "is_object _ = False"

fun is_array :: "jsval \<Rightarrow> bool" where
  "is_array (JArr _) = True"
| "is_array _ = False"

fun str_of :: "jsval \<Rightarrow> string option" where
  "str_of (JStr s) = Some s"
| "str_of _ = None"

section \<open>Number(s)\<close>

text \<open>
  Decimal literals are read exactly; a magnitude that a double rounds to infinity is not
  finite. \<open>None\<close> stands for \<open>NaN\<close> and the infinities, which every caller treats alike.
\<close>

definition double_overflow :: int where
  "double_overflow = 2 ^ 1024 - 2 ^ 970"

definition finite_nat :: "nat \<Rightarrow> nat option" where
  "finite_nat n = (if int n < double_overflow then Some n else None)"

definition hex_val :: "nat \<Rightarrow> char \<Rightarrow> nat option" where
  "hex_val base c =
     (let n = (of_char c :: nat);
          v = (if is_digit c then n - 48 else if 65 \<le> n \<and> n \<le> 70 then n - 55
               else if 97 \<le> n \<and> n \<le> 102 then n - 87 else 99)
      in if v < base then Some v else None)"

fun radix_nat :: "nat \<Rightarrow> nat \<Rightarrow> string \<Rightarrow> nat option" where
  "radix_nat base acc [] = Some acc"
| "radix_nat base acc (c # s) =
     (case hex_val base c of None \<Rightarrow> None | Some v \<Rightarrow> radix_nat base (base * acc + v) s)"

definition radix_of :: "char \<Rightarrow> nat option" where
  "radix_of c =
     (if c \<in> {CHR ''x'', CHR ''X''} then Some 16
      else if c \<in> {CHR ''o'', CHR ''O''} then Some 8
      else if c \<in> {CHR ''b'', CHR ''B''} then Some 2 else None)"

definition strip_sign :: "string \<Rightarrow> int \<times> string" where
  "strip_sign s =
     (case s of [] \<Rightarrow> (1, s)
      | c # r \<Rightarrow> if c = CHR ''+'' then (1, r) else if c = CHR ''-'' then (-1, r) else (1, s))"

definition exponent_part :: "string \<Rightarrow> int option" where
  "exponent_part s =
     (case s of [] \<Rightarrow> Some 0
      | c # r \<Rightarrow>
          if c \<in> {CHR ''e'', CHR ''E''} then
            (let (sg, d) = strip_sign r
             in if all_digits d then Some (sg * int (nat_of_digits d)) else None)
          else None)"

definition scale10 :: "rat \<Rightarrow> int \<Rightarrow> rat" where
  "scale10 q e = (if e \<ge> 0 then q * 10 ^ nat e else q / 10 ^ nat (- e))"

definition unsigned_decimal :: "string \<Rightarrow> rat option" where
  "unsigned_decimal u =
     (let ip = takeWhile is_digit u; r = dropWhile is_digit u;
          (fp, r2) =
            (case r of c # r' \<Rightarrow>
               if c = CHR ''.'' then (takeWhile is_digit r', dropWhile is_digit r') else ([], r)
             | [] \<Rightarrow> ([], r))
      in if ip = [] \<and> fp = [] then None
         else (case exponent_part r2 of None \<Rightarrow> None
               | Some e \<Rightarrow> Some (scale10 (of_nat (nat_of_digits (ip @ fp))) (e - int (length fp)))))"

definition js_number :: "string \<Rightarrow> rat option" where
  "js_number s =
     (let t = trim s;
          q = (if t = [] then Some 0
               else case t of
                 z # x # r \<Rightarrow>
                   if z = CHR ''0'' \<and> radix_of x \<noteq> None \<and> r \<noteq> []
                   then map_option of_nat (radix_nat (the (radix_of x)) 0 r)
                   else (let (sg, u) = strip_sign t
                         in map_option ((*) (of_int sg)) (unsigned_decimal u))
               | _ \<Rightarrow> (let (sg, u) = strip_sign t
                       in map_option ((*) (of_int sg)) (unsigned_decimal u)))
      in case q of None \<Rightarrow> None
         | Some v \<Rightarrow> if \<bar>v\<bar> < of_int double_overflow then Some v else None)"

text \<open>\<open>Number.parseInt(s, 10)\<close>: the digits at the front, \<open>None\<close> for \<open>NaN\<close>.\<close>

definition parse_int10 :: "string \<Rightarrow> int option" where
  "parse_int10 s =
     (let (sg, u) = strip_sign (dropWhile is_ws s); d = takeWhile is_digit u
      in if d = [] then None else Some (sg * int (nat_of_digits d)))"

text \<open>\<open>Number.isInteger\<close>.\<close>

definition is_integer :: "rat \<Rightarrow> bool" where
  "is_integer q \<longleftrightarrow> of_int \<lfloor>q\<rfloor> = q"

lemma is_integer_of_nat [simp]: "is_integer (of_nat n)"
  by (simp add: is_integer_def)

lemma dropWhile_none: "list_all (\<lambda>c. \<not> p c) s \<Longrightarrow> dropWhile p s = s"
  by (cases s) auto

lemma digit_not_ws: "is_digit c \<Longrightarrow> \<not> is_ws c"
  by (auto simp: is_digit_def is_ws_def)

lemma trim_digits: "list_all is_digit s \<Longrightarrow> trim s = s"
  by (simp add: trim_def dropWhile_none list_all_iff digit_not_ws)

lemma radix_of_digit: "is_digit c \<Longrightarrow> radix_of c = None"
  by (auto simp: radix_of_def is_digit_def)

lemma strip_sign_digits: "list_all is_digit s \<Longrightarrow> strip_sign s = (1, s)"
  by (cases s) (auto simp: strip_sign_def is_digit_def)

lemma takeWhile_digits: "list_all is_digit s \<Longrightarrow> takeWhile is_digit s = s"
  by (simp add: takeWhile_eq_all_conv list_all_iff)

lemma dropWhile_digits: "list_all is_digit s \<Longrightarrow> dropWhile is_digit s = []"
  by (simp add: list_all_iff)

lemma unsigned_decimal_digits:
  "all_digits s \<Longrightarrow> unsigned_decimal s = Some (of_nat (nat_of_digits s))"
  by (simp add: unsigned_decimal_def all_digits_def takeWhile_digits dropWhile_digits
      exponent_part_def scale10_def)

text \<open>A printed count is read back, whatever its size below the double range.\<close>

lemma js_number_nat_str:
  assumes "int n < double_overflow"
  shows "js_number (nat_str n) = Some (of_nat n)"
proof -
  have d: "list_all is_digit (nat_str n)" by simp
  have u: "unsigned_decimal (nat_str n) = Some (of_nat n)"
    by (simp add: unsigned_decimal_digits)
  have "(of_nat n :: rat) < of_int double_overflow"
    using assms by (metis of_int_less_iff of_int_of_nat_eq)
  with u d show ?thesis
    by (cases "nat_str n"; cases "tl (nat_str n)")
      (auto simp: js_number_def trim_digits strip_sign_digits radix_of_digit simp del: nat_str_digits)
qed

lemma finite_nat_small: "n < 2 ^ 53 \<Longrightarrow> finite_nat n = Some n"
proof -
  assume "n < 2 ^ 53"
  then have "int n < 2 ^ 53" by simp
  also have "(2::int) ^ 53 \<le> double_overflow" by (simp add: double_overflow_def)
  finally show ?thesis by (simp add: finite_nat_def)
qed

lemma parse_int10_nat_str: "parse_int10 (nat_str n) = Some (int n)"
proof -
  have "dropWhile is_ws (nat_str n) = nat_str n"
    using nat_str_digits [of n] by (simp add: dropWhile_none list_all_iff digit_not_ws)
  then show ?thesis
    by (simp add: parse_int10_def strip_sign_digits takeWhile_digits)
qed

lemma parse_int10_int_str: "0 \<le> i \<Longrightarrow> parse_int10 (int_str i) = Some i"
  by (simp add: int_str_def parse_int10_nat_str)

end
