(* ===== verification/SecureStore.thy ===== *)
theory SecureStore
  imports JsValue
begin

text \<open>
  The chunked secure storage of the native apps,
  \<open>packages/native-core/src/lib/secure-store-chunked.ts\<close>.

  The platform key store (\<open>expo-secure-store\<close>) is a parameter: a read takes the function
  \<open>getItem\<close> of the current state, which answers a value, \<open>null\<close> or an exception, and a write
  is the sequence of \<open>setItem\<close> and \<open>deleteItemAsync\<close> calls the code issues. The locale
  \<open>key_store\<close> holds what a key store promises; it is interpreted on finite maps, where the
  properties are stated. A crash or an exception in the middle of a write is a prefix of
  its sequence of calls.
\<close>

section \<open>Calls on the platform store\<close>

datatype store_error = StoreError

type_synonym 'a io = "store_error + 'a"

datatype store_op = SetItem string string | DeleteItem string

fun io_bind :: "'a io \<Rightarrow> ('a \<Rightarrow> 'b io) \<Rightarrow> 'b io" where
  "io_bind (Inl e) f = Inl e"
| "io_bind (Inr x) f = f x"

text \<open>Sequential reads that stop at the first exception; \<open>Promise.all\<close> of reads rejects
  when one of them does.\<close>

fun io_all :: "'a io list \<Rightarrow> 'a list io" where
  "io_all [] = Inr []"
| "io_all (x # xs) = io_bind x (\<lambda>v. io_bind (io_all xs) (\<lambda>vs. Inr (v # vs)))"

section \<open>Chunk formats\<close>

definition BA_CHUNK_MARKER :: string where
  "BA_CHUNK_MARKER = CHR 0x01 # ''ba-chunks:''"

definition LEGACY_CHUNK_SIZE :: nat where
  "LEGACY_CHUNK_SIZE = 1800"

definition legacyChunkKey :: "string \<Rightarrow> nat \<Rightarrow> string" where
  "legacyChunkKey baseKey index = baseKey @ ''_'' @ nat_str index"

definition parseLegacyChunkCount :: "string option \<Rightarrow> nat option" where
  "parseLegacyChunkCount raw =
     (case raw of None \<Rightarrow> None
      | Some s \<Rightarrow>
          if \<not> all_digits s then None
          else (case finite_nat (nat_of_digits s) of None \<Rightarrow> None
                | Some cnt \<Rightarrow> if cnt > 0 then Some cnt else None))"

datatype chunk_slot = Slot0 | Slot1

record ba_chunk_group =
  chunk_count :: nat
  chunk_slot :: "chunk_slot option"

record ba_chunk_marker = ba_chunk_group +
  fallbackCount :: "nat option"

text \<open>The limit \<open>Infinity\<close> of the unslotted format is \<open>None\<close>.\<close>

definition parseBaChunkCount :: "string option \<Rightarrow> nat option \<Rightarrow> nat option" where
  "parseBaChunkCount v limit =
     (case v of None \<Rightarrow> None
      | Some s \<Rightarrow>
          (case js_number s of None \<Rightarrow> None
           | Some q \<Rightarrow>
               if is_integer q \<and> q > 0 \<and>
                  (case limit of None \<Rightarrow> True | Some l \<Rightarrow> q \<le> of_nat l)
               then Some (nat \<lfloor>q\<rfloor>) else None))"

fun slot_of :: "string \<Rightarrow> chunk_slot option" where
  "slot_of s = (if s = ''0'' then Some Slot0 else if s = ''1'' then Some Slot1 else None)"

definition nth_opt :: "'a list \<Rightarrow> nat \<Rightarrow> 'a option" where
  "nth_opt xs i = (if i < length xs then Some (xs ! i) else None)"

definition parseBaChunkMarker :: "string option \<Rightarrow> ba_chunk_marker option" where
  "parseBaChunkMarker raw =
     (case raw of None \<Rightarrow> None
      | Some s \<Rightarrow>
          if \<not> starts_with s BA_CHUNK_MARKER then None
          else
            (let parts = split_on (CHR '':'') (drop (length BA_CHUNK_MARKER) s);
                 countValue = nth_opt parts 0; slotValue = nth_opt parts 1;
                 fallbackCountValue = nth_opt parts 2
             in if length parts > 3 then None
                else
                  (case parseBaChunkCount countValue
                          (if slotValue = None then None else Some 100) of
                     None \<Rightarrow> None
                   | Some cnt \<Rightarrow>
                       (case slotValue of
                          None \<Rightarrow> Some \<lparr>chunk_count = cnt, chunk_slot = None, fallbackCount = None\<rparr>
                        | Some sv \<Rightarrow>
                            (case slot_of sv of None \<Rightarrow> None
                             | Some slot \<Rightarrow>
                                 (let fc = parseBaChunkCount fallbackCountValue (Some 100)
                                  in if fallbackCountValue \<noteq> None \<and> fc = None then None
                                     else Some \<lparr>chunk_count = cnt, chunk_slot = Some slot,
                                                fallbackCount = fc\<rparr>))))))"

fun other_slot :: "chunk_slot \<Rightarrow> chunk_slot" where
  "other_slot Slot0 = Slot1"
| "other_slot Slot1 = Slot0"

definition baChunkGroups :: "ba_chunk_marker \<Rightarrow> ba_chunk_group list" where
  "baChunkGroups marker =
     (case (chunk_slot marker, fallbackCount marker) of
        (Some slot, Some fc) \<Rightarrow>
          [ba_chunk_group.truncate marker,
           \<lparr>chunk_count = fc, chunk_slot = Some (other_slot slot)\<rparr>]
      | _ \<Rightarrow> [ba_chunk_group.truncate marker])"

fun slot_str :: "chunk_slot \<Rightarrow> string" where
  "slot_str Slot0 = ''0''"
| "slot_str Slot1 = ''1''"

definition baChunkKey :: "string \<Rightarrow> chunk_slot option \<Rightarrow> nat \<Rightarrow> string" where
  "baChunkKey baseKey slot index =
     (case slot of None \<Rightarrow> baseKey @ ''.'' @ nat_str index
      | Some sl \<Rightarrow> baseKey @ ''.'' @ slot_str sl @ ''.'' @ nat_str index)"

section \<open>Reading\<close>

type_synonym get_item = "string \<Rightarrow> string option io"

text \<open>The inner loop of the synchronous reader: it stops at the first missing or empty chunk.\<close>

fun collect_chunks :: "get_item \<Rightarrow> string \<Rightarrow> chunk_slot option \<Rightarrow> nat \<Rightarrow> nat \<Rightarrow> string list io" where
  "collect_chunks getItem baseKey slot 0 i = Inr []"
| "collect_chunks getItem baseKey slot (Suc n) i =
     io_bind (getItem (baChunkKey baseKey slot i))
       (\<lambda>chunk. case chunk of None \<Rightarrow> Inr []
         | Some c \<Rightarrow> if c = [] then Inr []
             else io_bind (collect_chunks getItem baseKey slot n (Suc i)) (\<lambda>cs. Inr (c # cs)))"

fun read_groups_sync :: "get_item \<Rightarrow> string \<Rightarrow> ba_chunk_group list \<Rightarrow> string option io" where
  "read_groups_sync getItem baseKey [] = Inr None"
| "read_groups_sync getItem baseKey (g # gs) =
     io_bind (collect_chunks getItem baseKey (chunk_slot g) (chunk_count g) 0)
       (\<lambda>chunks. if length chunks = chunk_count g then Inr (Some (concat chunks))
                 else read_groups_sync getItem baseKey gs)"

definition readBetterAuthChunksSync :: "get_item \<Rightarrow> string \<Rightarrow> ba_chunk_marker \<Rightarrow> string option io" where
  "readBetterAuthChunksSync getItem baseKey marker =
     read_groups_sync getItem baseKey (baChunkGroups marker)"

definition chunk_ok :: "string option \<Rightarrow> bool" where
  "chunk_ok c \<longleftrightarrow> (case c of None \<Rightarrow> False | Some s \<Rightarrow> s \<noteq> [])"

definition read_all :: "get_item \<Rightarrow> (nat \<Rightarrow> string) \<Rightarrow> nat \<Rightarrow> string option list io" where
  "read_all getItem key n = io_all (map (\<lambda>i. getItem (key i)) [0..<n])"

fun read_groups_async :: "get_item \<Rightarrow> string \<Rightarrow> ba_chunk_group list \<Rightarrow> string option io" where
  "read_groups_async getItem baseKey [] = Inr None"
| "read_groups_async getItem baseKey (g # gs) =
     io_bind (read_all getItem (baChunkKey baseKey (chunk_slot g)) (chunk_count g))
       (\<lambda>chunks. if list_all chunk_ok chunks then Inr (Some (concat (map the chunks)))
                 else read_groups_async getItem baseKey gs)"

definition readBetterAuthChunksAsync :: "get_item \<Rightarrow> string \<Rightarrow> ba_chunk_marker \<Rightarrow> string option io" where
  "readBetterAuthChunksAsync getItem baseKey marker =
     read_groups_async getItem baseKey (baChunkGroups marker)"

fun collect_legacy :: "get_item \<Rightarrow> string \<Rightarrow> nat \<Rightarrow> nat \<Rightarrow> string option io" where
  "collect_legacy getItem baseKey 0 i = Inr (Some [])"
| "collect_legacy getItem baseKey (Suc n) i =
     io_bind (getItem (legacyChunkKey baseKey i))
       (\<lambda>chunk. case chunk of None \<Rightarrow> Inr None
         | Some c \<Rightarrow> io_bind (collect_legacy getItem baseKey n (Suc i))
             (\<lambda>rest. Inr (map_option (\<lambda>r. c @ r) rest)))"

definition readLegacyChunksSync :: "get_item \<Rightarrow> string \<Rightarrow> nat \<Rightarrow> string option io" where
  "readLegacyChunksSync getItem baseKey cnt = collect_legacy getItem baseKey cnt 0"

definition readLegacyChunksAsync :: "get_item \<Rightarrow> string \<Rightarrow> nat \<Rightarrow> string option io" where
  "readLegacyChunksAsync getItem baseKey cnt =
     io_bind (read_all getItem (legacyChunkKey baseKey) cnt)
       (\<lambda>chunks. if None \<in> set chunks then Inr None else Inr (Some (concat (map the chunks))))"

definition read_chunked_body ::
  "(get_item \<Rightarrow> string \<Rightarrow> ba_chunk_marker \<Rightarrow> string option io) \<Rightarrow>
   (get_item \<Rightarrow> string \<Rightarrow> nat \<Rightarrow> string option io) \<Rightarrow> get_item \<Rightarrow> string \<Rightarrow> string option io" where
  "read_chunked_body readBa readLegacy getItem baseKey =
     io_bind (getItem baseKey)
       (\<lambda>raw. case raw of None \<Rightarrow> Inr None
         | Some s \<Rightarrow>
             if starts_with s BA_CHUNK_MARKER then
               (case parseBaChunkMarker raw of None \<Rightarrow> Inr None
                | Some marker \<Rightarrow> readBa getItem baseKey marker)
             else
               (case parseLegacyChunkCount raw of
                  Some legacyCount \<Rightarrow> readLegacy getItem baseKey legacyCount
                | None \<Rightarrow> Inr raw))"

text \<open>The synchronous reader turns an exception into \<open>null\<close>.\<close>

definition getChunkedSecureValueSync :: "get_item \<Rightarrow> string \<Rightarrow> string option" where
  "getChunkedSecureValueSync getItem baseKey =
     (case read_chunked_body readBetterAuthChunksSync readLegacyChunksSync getItem baseKey of
        Inl _ \<Rightarrow> None | Inr v \<Rightarrow> v)"

definition readChunkedSecureValue :: "get_item \<Rightarrow> string \<Rightarrow> string option io" where
  "readChunkedSecureValue getItem baseKey =
     read_chunked_body readBetterAuthChunksAsync readLegacyChunksAsync getItem baseKey"

section \<open>Writing\<close>

definition deleteLegacyChunks :: "string \<Rightarrow> nat \<Rightarrow> store_op list" where
  "deleteLegacyChunks baseKey cnt =
     map (\<lambda>index. DeleteItem (legacyChunkKey baseKey index)) [0..<cnt]"

definition deleteBaChunks :: "string \<Rightarrow> ba_chunk_marker \<Rightarrow> store_op list" where
  "deleteBaChunks baseKey marker =
     concat (map (\<lambda>g. map (\<lambda>i. DeleteItem (baChunkKey baseKey (chunk_slot g) i)) [0..<chunk_count g])
       (baChunkGroups marker))"

definition chunk_total :: "string \<Rightarrow> nat" where
  "chunk_total v = (length v + LEGACY_CHUNK_SIZE - 1) div LEGACY_CHUNK_SIZE"

definition chunk_part :: "string \<Rightarrow> nat \<Rightarrow> string" where
  "chunk_part v i =
     (let start = i * LEGACY_CHUNK_SIZE in slice start (start + LEGACY_CHUNK_SIZE) v)"

text \<open>The stores of both writers: the value itself, or an empty placeholder, the chunks and
  the marker last.\<close>

definition write_value_ops :: "string \<Rightarrow> string \<Rightarrow> store_op list" where
  "write_value_ops baseKey v =
     (if length v \<le> LEGACY_CHUNK_SIZE then [SetItem baseKey v]
      else SetItem baseKey [] #
           map (\<lambda>i. SetItem (baseKey @ ''.'' @ nat_str i) (chunk_part v i)) [0..<chunk_total v] @
           [SetItem baseKey (BA_CHUNK_MARKER @ nat_str (chunk_total v))])"

definition cleanup_ops :: "string \<Rightarrow> string \<Rightarrow> string option \<Rightarrow> store_op list" where
  "cleanup_ops baseKey v previousRaw =
     (case parseLegacyChunkCount previousRaw of None \<Rightarrow> []
      | Some n \<Rightarrow> deleteLegacyChunks baseKey n) @
     (case parseBaChunkMarker previousRaw of None \<Rightarrow> []
      | Some marker \<Rightarrow>
          if chunk_slot marker \<noteq> None \<or> length v \<le> LEGACY_CHUNK_SIZE
          then deleteBaChunks baseKey marker else [])"

text \<open>
  The synchronous writer issues its deletes in the background: the second component is the
  list of deletes that run later, each of which may fail on its own.
\<close>

definition setChunkedSecureValueSync ::
  "get_item \<Rightarrow> string \<Rightarrow> string \<Rightarrow> (store_op list \<times> store_op list) io" where
  "setChunkedSecureValueSync getItem baseKey v =
     io_bind (getItem baseKey)
       (\<lambda>previousRaw. Inr (write_value_ops baseKey v, cleanup_ops baseKey v previousRaw))"

definition readRawSecureValue :: "get_item \<Rightarrow> string \<Rightarrow> string option io" where
  "readRawSecureValue getItem baseKey = getItem baseKey"

definition writeChunkedSecureValue :: "get_item \<Rightarrow> string \<Rightarrow> string \<Rightarrow> store_op list io" where
  "writeChunkedSecureValue getItem baseKey v =
     io_bind (getItem baseKey)
       (\<lambda>previousRaw. Inr (write_value_ops baseKey v @ cleanup_ops baseKey v previousRaw))"

definition deleteChunkedSecureValue :: "get_item \<Rightarrow> string \<Rightarrow> store_op list io" where
  "deleteChunkedSecureValue getItem baseKey =
     io_bind (getItem baseKey)
       (\<lambda>raw. Inr (DeleteItem baseKey #
          (case parseLegacyChunkCount raw of None \<Rightarrow> []
           | Some n \<Rightarrow> deleteLegacyChunks baseKey n) @
          (case parseBaChunkMarker raw of None \<Rightarrow> []
           | Some marker \<Rightarrow> deleteBaChunks baseKey marker)))"

section \<open>The cookie jar of the auth client\<close>






definition auth_read_body ::
  "(get_item \<Rightarrow> string \<Rightarrow> nat \<Rightarrow> string option io) \<Rightarrow> get_item \<Rightarrow> string \<Rightarrow> string option io" where
  "auth_read_body readLegacy getItem key =
     io_bind (getItem key)
       (\<lambda>raw. case raw of None \<Rightarrow> Inr None
         | Some s \<Rightarrow>
             if starts_with s BA_CHUNK_MARKER then Inr raw
             else (case parseLegacyChunkCount raw of
                     Some legacyCount \<Rightarrow>
                       io_bind (readLegacy getItem key legacyCount)
                         (\<lambda>joined. Inr (case joined of None \<Rightarrow> Some ''{}'' | Some j \<Rightarrow> Some j))
                   | None \<Rightarrow> Inr raw))"

definition authSecureStore_getItem :: "get_item \<Rightarrow> string \<Rightarrow> string option" where
  "authSecureStore_getItem getItem key =
     (case auth_read_body readLegacyChunksSync getItem key of Inl _ \<Rightarrow> Some ''{}'' | Inr v \<Rightarrow> v)"

definition authSecureStore_getItemAsync :: "get_item \<Rightarrow> string \<Rightarrow> string option" where
  "authSecureStore_getItemAsync getItem key =
     (case auth_read_body readLegacyChunksAsync getItem key of Inl _ \<Rightarrow> Some ''{}'' | Inr v \<Rightarrow> v)"




section \<open>Execution of a call sequence\<close>

fun exec_op :: "(string \<Rightarrow> string \<Rightarrow> 's \<Rightarrow> 's) \<Rightarrow> (string \<Rightarrow> 's \<Rightarrow> 's) \<Rightarrow> store_op \<Rightarrow> 's \<Rightarrow> 's" where
  "exec_op put del (SetItem k v) s = put k v s"
| "exec_op put del (DeleteItem k) s = del k s"

definition exec_ops ::
  "(string \<Rightarrow> string \<Rightarrow> 's \<Rightarrow> 's) \<Rightarrow> (string \<Rightarrow> 's \<Rightarrow> 's) \<Rightarrow> store_op list \<Rightarrow> 's \<Rightarrow> 's" where
  "exec_ops put del ops s = fold (exec_op put del) ops s"

fun op_key :: "store_op \<Rightarrow> string" where
  "op_key (SetItem k v) = k"
| "op_key (DeleteItem k) = k"

fun is_delete :: "store_op \<Rightarrow> bool" where
  "is_delete (DeleteItem k) = True"
| "is_delete (SetItem k v) = False"

lemma is_delete_iff: "is_delete x \<longleftrightarrow> x = DeleteItem (op_key x)"
  by (cases x) auto

lemma exec_ops_Nil [simp]: "exec_ops put del [] s = s"
  by (simp add: exec_ops_def)

lemma exec_ops_Cons [simp]: "exec_ops put del (x # xs) s = exec_ops put del xs (exec_op put del x s)"
  by (simp add: exec_ops_def)

lemma exec_ops_append [simp]:
  "exec_ops put del (xs @ ys) s = exec_ops put del ys (exec_ops put del xs s)"
  by (simp add: exec_ops_def)

section \<open>The keys of the three chunk formats do not collide\<close>

lemma slot_str_digit: "\<exists>c. slot_str sl = [c] \<and> is_digit c"
  by (cases sl) (auto simp: is_digit_def)

lemma nat_str_no_dot [simp]: "CHR ''.'' \<notin> set (nat_str n)"
  by (rule digit_not_member_nat_str) (simp add: is_digit_def)

lemma nat_str_no_colon [simp]: "CHR '':'' \<notin> set (nat_str n)"
  by (rule digit_not_member_nat_str) (simp add: is_digit_def)

lemma legacyChunkKey_neq [simp]:
  "legacyChunkKey k i \<noteq> k" "k \<noteq> legacyChunkKey k i" "legacyChunkKey k i \<noteq> k @ CHR ''.'' # t"
  by (auto simp: legacyChunkKey_def)

lemma baChunkKey_unslotted: "baChunkKey k None i = k @ CHR ''.'' # nat_str i"
  by (simp add: baChunkKey_def)

lemma baChunkKey_neq_base [simp]: "baChunkKey k slot i \<noteq> k" "k \<noteq> baChunkKey k slot i"
  by (auto simp: baChunkKey_def split: option.splits)

lemma baChunkKey_slot_neq [simp]: "baChunkKey k (Some sl) i \<noteq> k @ CHR ''.'' # nat_str j"
proof
  assume "baChunkKey k (Some sl) i = k @ CHR ''.'' # nat_str j"
  then have "nat_str j = slot_str sl @ CHR ''.'' # nat_str i"
    by (simp add: baChunkKey_def)
  then have "CHR ''.'' \<in> set (nat_str j)" by simp
  then show False by simp
qed

lemma baChunkKey_inject [simp]: "baChunkKey k slot i = baChunkKey k slot j \<longleftrightarrow> i = j"
  by (auto simp: baChunkKey_def split: option.splits)

lemma baChunkGroups_slot:
  "g \<in> set (baChunkGroups m) \<Longrightarrow> chunk_slot g = None \<longleftrightarrow> chunk_slot m = None"
  by (auto simp: baChunkGroups_def ba_chunk_group.truncate_def split: option.splits)

lemma cleanup_deletes:
  "x \<in> set (cleanup_ops k v prev) \<Longrightarrow> is_delete x \<and> op_key x \<noteq> k"
  by (auto simp: cleanup_ops_def deleteLegacyChunks_def deleteBaChunks_def
      split: option.splits if_splits)

lemma cleanup_keeps_chunks:
  assumes "length v > LEGACY_CHUNK_SIZE" and "x \<in> set (cleanup_ops k v prev)"
  shows "op_key x \<noteq> k @ CHR ''.'' # nat_str j"
proof -
  have "op_key x \<noteq> k @ CHR ''.'' # nat_str j"
    if "parseBaChunkMarker prev = Some m" "x \<in> set (deleteBaChunks k m)" "chunk_slot m \<noteq> None" for m
  proof -
    from that(2) obtain g i where "g \<in> set (baChunkGroups m)"
      and x: "x = DeleteItem (baChunkKey k (chunk_slot g) i)"
      by (auto simp: deleteBaChunks_def)
    with that(3) baChunkGroups_slot [of g m] have "\<exists>sl. chunk_slot g = Some sl" by auto
    with x show ?thesis by auto
  qed
  with assms show ?thesis
    by (cases "parseBaChunkMarker prev")
      (auto simp: cleanup_ops_def deleteLegacyChunks_def split: option.splits if_splits)
qed

section \<open>Splitting and joining a value\<close>

lemma LEGACY_CHUNK_SIZE_pos [simp]: "0 < LEGACY_CHUNK_SIZE"
  by (simp add: LEGACY_CHUNK_SIZE_def)

lemma concat_slices:
  assumes "0 < c"
  shows "concat (map (\<lambda>i. take c (drop (i * c) xs)) [0..<n]) = take (n * c) xs"
proof (induction n)
  case 0
  then show ?case by simp
next
  case (Suc n)
  have "take (Suc n * c) xs = take (n * c + c) xs" by (simp add: add.commute)
  also have "\<dots> = take (n * c) xs @ take c (drop (n * c) xs)" by (rule take_add)
  finally show ?case using Suc by simp
qed

lemma length_le_chunk_total: "length v \<le> chunk_total v * LEGACY_CHUNK_SIZE"
  by (simp add: chunk_total_def LEGACY_CHUNK_SIZE_def)

lemma join_chunk_parts: "concat (map (chunk_part v) [0..<chunk_total v]) = v"
proof -
  have "chunk_part v = (\<lambda>i. take LEGACY_CHUNK_SIZE (drop (i * LEGACY_CHUNK_SIZE) v))"
    by (simp add: fun_eq_iff chunk_part_def slice_def)
  then show ?thesis
    using concat_slices [of LEGACY_CHUNK_SIZE v "chunk_total v"] length_le_chunk_total [of v]
    by simp
qed

lemma chunk_part_nonempty: "i < chunk_total v \<Longrightarrow> chunk_part v i \<noteq> []"
proof -
  assume "i < chunk_total v"
  then have "i * LEGACY_CHUNK_SIZE < length v"
    by (simp add: chunk_total_def LEGACY_CHUNK_SIZE_def)
  then show ?thesis by (simp add: chunk_part_def slice_def LEGACY_CHUNK_SIZE_def)
qed

lemma chunk_part_length: "length (chunk_part v i) \<le> LEGACY_CHUNK_SIZE"
  by (simp add: chunk_part_def slice_def)

lemma chunk_total_bounds:
  assumes "length v > LEGACY_CHUNK_SIZE" and "length v < 2 ^ 53"
  shows "0 < chunk_total v" "int (chunk_total v) < double_overflow"
proof -
  show "0 < chunk_total v"
    using assms(1) by (simp add: chunk_total_def LEGACY_CHUNK_SIZE_def)
  have "chunk_total v < 2 ^ 53"
    using assms by (simp add: chunk_total_def LEGACY_CHUNK_SIZE_def)
  then show "int (chunk_total v) < double_overflow"
    using finite_nat_small [of "chunk_total v"] by (simp add: finite_nat_def split: if_splits)
qed

lemma parse_written_marker:
  assumes "0 < n" "int n < double_overflow"
  shows "parseBaChunkMarker (Some (BA_CHUNK_MARKER @ nat_str n)) =
    Some \<lparr>chunk_count = n, chunk_slot = None, fallbackCount = None\<rparr>"
  using assms
  by (simp add: parseBaChunkMarker_def split_on_no_sep nth_opt_def parseBaChunkCount_def
      js_number_nat_str)

lemma starts_with_Nil [simp]: "\<not> starts_with [] BA_CHUNK_MARKER"
  by (simp add: starts_with_def BA_CHUNK_MARKER_def)

lemma marker_not_legacy: "parseLegacyChunkCount (Some (BA_CHUNK_MARKER @ s)) = None"
  by (simp add: parseLegacyChunkCount_def all_digits_def BA_CHUNK_MARKER_def is_digit_def)

lemma parseLegacyChunkCount_Nil [simp]: "parseLegacyChunkCount (Some []) = None"
  by (simp add: parseLegacyChunkCount_def all_digits_def)

text \<open>A short value is stored as it is, so it must not look like chunk metadata.\<close>

definition storable :: "string \<Rightarrow> bool" where
  "storable v \<longleftrightarrow> length v < 2 ^ 53 \<and>
     (length v \<le> LEGACY_CHUNK_SIZE \<longrightarrow>
        \<not> starts_with v BA_CHUNK_MARKER \<and> parseLegacyChunkCount (Some v) = None)"

lemma io_all_Inr [simp]: "io_all (map (\<lambda>i. Inr (f i)) xs) = Inr (map f xs)"
  by (induction xs) auto

lemma read_all_Inr [simp]: "read_all (\<lambda>j. Inr (g j)) key n = Inr (map (\<lambda>i. g (key i)) [0..<n])"
  by (simp add: read_all_def)

lemma read_plain:
  assumes "getItem k = Inr (Some v)"
    and "\<not> starts_with v BA_CHUNK_MARKER" "parseLegacyChunkCount (Some v) = None"
  shows "readChunkedSecureValue getItem k = Inr (Some v)"
  using assms by (simp add: readChunkedSecureValue_def read_chunked_body_def)

lemma read_written_chunks:
  assumes "get k = Some (BA_CHUNK_MARKER @ nat_str (chunk_total v))"
    and "\<And>i. i < chunk_total v \<Longrightarrow> get (k @ CHR ''.'' # nat_str i) = Some (chunk_part v i)"
    and "0 < chunk_total v" "int (chunk_total v) < double_overflow"
  shows "readChunkedSecureValue (\<lambda>j. Inr (get j)) k = Inr (Some v)"
proof -
  let ?cs = "map (\<lambda>i. get (baChunkKey k None i)) [0..<chunk_total v]"
  have m: "?cs = map (\<lambda>i. Some (chunk_part v i)) [0..<chunk_total v]"
    using assms(2) by (simp add: baChunkKey_unslotted)
  have ok: "list_all chunk_ok ?cs"
    unfolding m by (auto simp: list_all_iff chunk_ok_def chunk_part_nonempty)
  have "concat (map the ?cs) = v"
    unfolding m by (simp add: comp_def join_chunk_parts)
  with ok have "readBetterAuthChunksAsync (\<lambda>j. Inr (get j)) k
      \<lparr>chunk_count = chunk_total v, chunk_slot = None, fallbackCount = None\<rparr> = Inr (Some v)"
    by (simp add: readBetterAuthChunksAsync_def baChunkGroups_def ba_chunk_group.truncate_def)
  then show ?thesis
    using assms by (simp add: readChunkedSecureValue_def read_chunked_body_def parse_written_marker)
qed

section \<open>What a key store promises, and what the chunked store makes of it\<close>

locale key_store =
  fixes get :: "'s \<Rightarrow> string \<Rightarrow> string option"
    and put :: "string \<Rightarrow> string \<Rightarrow> 's \<Rightarrow> 's"
    and del :: "string \<Rightarrow> 's \<Rightarrow> 's"
  assumes get_put: "get (put k v s) j = (if j = k then Some v else get s j)"
    and get_del: "get (del k s) j = (if j = k then None else get s j)"
begin

lemma exec_frame:
  "(\<And>x. x \<in> set ops \<Longrightarrow> op_key x \<noteq> j) \<Longrightarrow> get (exec_ops put del ops s) j = get s j"
proof (induction ops arbitrary: s)
  case Nil
  then show ?case by simp
next
  case (Cons x xs)
  then have "get (exec_ops put del xs (exec_op put del x s)) j = get (exec_op put del x s) j"
    by simp
  with Cons.prems [of x] show ?case by (cases x) (simp_all add: get_put get_del)
qed

lemma exec_deleted:
  "DeleteItem j \<in> set ops \<Longrightarrow> (\<And>x. x \<in> set ops \<Longrightarrow> is_delete x) \<Longrightarrow>
    get (exec_ops put del ops s) j = None"
proof (induction ops arbitrary: s)
  case Nil
  then show ?case by simp
next
  case (Cons x xs)
  from Cons.prems(2) [of x] obtain k where x: "x = DeleteItem k" by (cases x) auto
  show ?case
  proof (cases "DeleteItem j \<in> set xs")
    case True
    with Cons show ?thesis by simp
  next
    case False
    with Cons.prems x have "k = j" by auto
    moreover have "op_key y \<noteq> j" if "y \<in> set xs" for y
      using that False Cons.prems(2) [of y] by (auto simp: is_delete_iff)
    ultimately show ?thesis using x by (simp add: exec_frame get_del)
  qed
qed

lemma exec_set_chunks:
  "i < n \<Longrightarrow>
    get (exec_ops put del (map (\<lambda>i. SetItem (k @ CHR ''.'' # nat_str i) (f i)) [0..<n]) s)
      (k @ CHR ''.'' # nat_str i) = Some (f i)"
  by (induction n) (auto simp: get_put less_Suc_eq)

lemma written_base:
  assumes "length v > LEGACY_CHUNK_SIZE"
  shows "get (exec_ops put del (write_value_ops k v) s) k =
    Some (BA_CHUNK_MARKER @ nat_str (chunk_total v))"
  using assms by (simp add: write_value_ops_def get_put)

lemma written_chunk:
  assumes "length v > LEGACY_CHUNK_SIZE" and "i < chunk_total v"
  shows "get (exec_ops put del (write_value_ops k v) s) (k @ CHR ''.'' # nat_str i) =
    Some (chunk_part v i)"
  using assms by (simp add: write_value_ops_def get_put exec_set_chunks)

text \<open>
  After the stores of a write, whichever of the deletes have run and in whichever order,
  the value is read back.
\<close>

lemma write_read:
  assumes v: "storable v" and ds: "set ds \<subseteq> set (cleanup_ops k v prev)"
  shows "readChunkedSecureValue (\<lambda>j. Inr (get (exec_ops put del (write_value_ops k v @ ds) s) j)) k =
    Inr (Some v)"
proof -
  let ?s = "exec_ops put del (write_value_ops k v @ ds) s"
  have base: "get ?s k = get (exec_ops put del (write_value_ops k v) s) k"
    using ds cleanup_deletes [of _ k v prev] by (simp add: exec_frame subset_iff)
  show ?thesis
  proof (cases "length v \<le> LEGACY_CHUNK_SIZE")
    case True
    with base have "get ?s k = Some v"
      by (simp add: write_value_ops_def get_put)
    with True v show ?thesis by (intro read_plain) (simp_all add: storable_def)
  next
    case False
    then have long: "length v > LEGACY_CHUNK_SIZE" by simp
    have chunk: "get ?s (k @ CHR ''.'' # nat_str i) = Some (chunk_part v i)" if "i < chunk_total v" for i
    proof -
      have "get ?s (k @ CHR ''.'' # nat_str i) =
          get (exec_ops put del (write_value_ops k v) s) (k @ CHR ''.'' # nat_str i)"
        using ds cleanup_keeps_chunks [OF long] by (auto simp: subset_iff intro!: exec_frame)
      with written_chunk [OF long that] show ?thesis by simp
    qed
    show ?thesis
    proof (rule read_written_chunks)
      show "get ?s k = Some (BA_CHUNK_MARKER @ nat_str (chunk_total v))"
        using base written_base [OF long] by simp
      show "0 < chunk_total v" "int (chunk_total v) < double_overflow"
        using chunk_total_bounds [OF long] v by (auto simp: storable_def)
    qed (rule chunk)
  qed
qed

text \<open>Stopping the stores early shows the old value or an empty one, never a mixture.\<close>

lemma torn_write_read:
  assumes v: "storable v"
  shows "readChunkedSecureValue (\<lambda>j. Inr (get (exec_ops put del (take n (write_value_ops k v)) s) j)) k \<in>
    {readChunkedSecureValue (\<lambda>j. Inr (get s j)) k, Inr (Some []), Inr (Some v)}"
proof (cases "n < length (write_value_ops k v) \<and> n > 0")
  case True
  then have long: "length v > LEGACY_CHUNK_SIZE"
    by (auto simp: write_value_ops_def split: if_splits)
  let ?sets = "map (\<lambda>i. SetItem (k @ CHR ''.'' # nat_str i) (chunk_part v i)) [0..<chunk_total v]"
  from True long have "take n (write_value_ops k v) = SetItem k [] # take (n - 1) ?sets"
    by (cases n) (auto simp: write_value_ops_def)
  moreover have "op_key x \<noteq> k" if "x \<in> set (take (n - 1) ?sets)" for x
    using in_set_takeD [OF that] by auto
  ultimately have "get (exec_ops put del (take n (write_value_ops k v)) s) k = Some []"
    by (simp add: exec_frame get_put)
  then show ?thesis using read_plain [where v = "[]" and k = k] by simp
next
  case False
  then consider "n = 0" | "take n (write_value_ops k v) = write_value_ops k v" by auto
  then show ?thesis
  proof cases
    case 2
    with write_read [OF v, of "[]" k] show ?thesis by simp
  qed simp
qed

lemma delete_removes:
  assumes "deleteChunkedSecureValue (\<lambda>j. Inr (get s j)) k = Inr ops"
  shows "get (exec_ops put del ops s) k = None"
    and "parseBaChunkMarker (get s k) = Some m \<Longrightarrow> g \<in> set (baChunkGroups m) \<Longrightarrow> i < chunk_count g \<Longrightarrow>
      get (exec_ops put del ops s) (baChunkKey k (chunk_slot g) i) = None"
    and "parseLegacyChunkCount (get s k) = Some n \<Longrightarrow> i < n \<Longrightarrow>
      get (exec_ops put del ops s) (legacyChunkKey k i) = None"
proof -
  have ops: "ops = DeleteItem k #
      (case parseLegacyChunkCount (get s k) of None \<Rightarrow> [] | Some n \<Rightarrow> deleteLegacyChunks k n) @
      (case parseBaChunkMarker (get s k) of None \<Rightarrow> [] | Some m \<Rightarrow> deleteBaChunks k m)"
    using assms by (simp add: deleteChunkedSecureValue_def)
  have del: "is_delete x" if "x \<in> set ops" for x
    using that by (auto simp: ops deleteLegacyChunks_def deleteBaChunks_def split: option.splits)
  show "get (exec_ops put del ops s) k = None"
    by (rule exec_deleted) (use del in \<open>auto simp: ops\<close>)
  show "get (exec_ops put del ops s) (baChunkKey k (chunk_slot g) i) = None"
    if "parseBaChunkMarker (get s k) = Some m" "g \<in> set (baChunkGroups m)" "i < chunk_count g"
  proof (rule exec_deleted)
    from that have "DeleteItem (baChunkKey k (chunk_slot g) i) \<in> set (deleteBaChunks k m)"
      by (auto simp: deleteBaChunks_def intro!: bexI [of _ g])
    with that(1) show "DeleteItem (baChunkKey k (chunk_slot g) i) \<in> set ops" by (simp add: ops)
  qed (rule del)
  show "get (exec_ops put del ops s) (legacyChunkKey k i) = None"
    if "parseLegacyChunkCount (get s k) = Some n" "i < n"
    by (rule exec_deleted) (use del that in \<open>auto simp: ops deleteLegacyChunks_def\<close>)
qed

end

text \<open>The store of the model: a map from keys to values.\<close>

type_synonym kv = "string \<Rightarrow> string option"

definition kv_put :: "string \<Rightarrow> string \<Rightarrow> kv \<Rightarrow> kv" where
  "kv_put k v s = s(k \<mapsto> v)"

definition kv_del :: "string \<Rightarrow> kv \<Rightarrow> kv" where
  "kv_del k s = s(k := None)"

abbreviation run :: "store_op list \<Rightarrow> kv \<Rightarrow> kv" where
  "run \<equiv> exec_ops kv_put kv_del"

abbreviation reader :: "kv \<Rightarrow> get_item" where
  "reader s \<equiv> (\<lambda>j. Inr (s j))"

interpretation kv: key_store "\<lambda>s. s" kv_put kv_del
  by unfold_locales (simp_all add: kv_put_def kv_del_def)

section \<open>Synchronous and asynchronous readers\<close>

lemma collect_chunks_reader:
  "collect_chunks (reader s) k slot n i =
    Inr (map the (takeWhile chunk_ok (map (\<lambda>j. s (baChunkKey k slot j)) [i..<i + n])))"
proof (induction n arbitrary: i)
  case 0
  then show ?case by simp
next
  case (Suc n)
  have "[i..<i + Suc n] = i # [Suc i..<Suc i + n]" by (simp add: upt_rec)
  then show ?case by (simp add: Suc.IH chunk_ok_def split: option.splits)
qed

lemma collect_legacy_reader:
  "collect_legacy (reader s) k n i =
    (let cs = map (\<lambda>j. s (legacyChunkKey k j)) [i..<i + n]
     in Inr (if None \<in> set cs then None else Some (concat (map the cs))))"
proof (induction n arbitrary: i)
  case 0
  then show ?case by simp
next
  case (Suc n)
  have "[i..<i + Suc n] = i # [Suc i..<Suc i + n]" by (simp add: upt_rec)
  then show ?case by (auto simp: Suc.IH Let_def split: option.splits)
qed

lemma length_takeWhile_all: "length (takeWhile p xs) = length xs \<longleftrightarrow> list_all p xs"
  by (induction xs) auto

lemma takeWhile_all: "list_all p xs \<Longrightarrow> takeWhile p xs = xs"
  by (induction xs) auto

lemma read_groups_agree: "read_groups_sync (reader s) k gs = read_groups_async (reader s) k gs"
proof (induction gs)
  case Nil
  then show ?case by simp
next
  case (Cons g gs)
  let ?cs = "map (\<lambda>i. s (baChunkKey k (chunk_slot g) i)) [0..<chunk_count g]"
  have len: "length (takeWhile chunk_ok ?cs) = chunk_count g \<longleftrightarrow> list_all chunk_ok ?cs"
    using length_takeWhile_all [of chunk_ok ?cs] by simp
  show ?case
  proof (cases "list_all chunk_ok ?cs")
    case True
    with len show ?thesis by (simp add: collect_chunks_reader takeWhile_all)
  next
    case False
    with len Cons.IH show ?thesis by (simp add: collect_chunks_reader)
  qed
qed

lemma readers_agree:
  "read_chunked_body readBetterAuthChunksSync readLegacyChunksSync (reader s) k =
    read_chunked_body readBetterAuthChunksAsync readLegacyChunksAsync (reader s) k"
  by (simp add: read_chunked_body_def readBetterAuthChunksSync_def readBetterAuthChunksAsync_def
      read_groups_agree readLegacyChunksSync_def readLegacyChunksAsync_def collect_legacy_reader
      Let_def split: option.splits)

section \<open>Properties\<close>

lemma writeChunked_ops:
  "writeChunkedSecureValue (reader s) k v = Inr (write_value_ops k v @ cleanup_ops k v (s k))"
  by (simp add: writeChunkedSecureValue_def)

lemma take_write_cases:
  "(\<exists>m. take n (ws @ cs) = take m ws) \<or> (\<exists>ds. take n (ws @ cs) = ws @ ds \<and> set ds \<subseteq> set cs)"
  by (cases "n \<le> length ws") (auto simp: set_take_subset)

lemma sync_reads_async:
  "readChunkedSecureValue (reader s) k = Inr r \<Longrightarrow> getChunkedSecureValueSync (reader s) k = r"
  by (simp add: getChunkedSecureValueSync_def readers_agree readChunkedSecureValue_def)

text \<open>C8: A value written with \<open>writeChunkedSecureValue\<close> is read back unchanged by both the
  asynchronous and the synchronous reader, whatever was stored under the key before, for every
  value that is longer than one chunk or does not itself look like chunk metadata, the marker of the
  chunks or a positive number in digits. A number such as \<open>5\<close> is taken for a count of chunks and read
  back as no value.\<close>

theorem chunked_write_read_back:
  assumes "storable v" and "writeChunkedSecureValue (reader s) k v = Inr ops"
  shows "readChunkedSecureValue (reader (run ops s)) k = Inr (Some v) \<and>
    getChunkedSecureValueSync (reader (run ops s)) k = Some v"
proof -
  from assms(2) have ops: "ops = write_value_ops k v @ cleanup_ops k v (s k)"
    by (simp add: writeChunked_ops)
  have "readChunkedSecureValue (reader (run ops s)) k = Inr (Some v)"
    unfolding ops using kv.write_read [OF assms(1) order_refl] .
  then show ?thesis by (simp add: sync_reads_async)
qed

lemma written_number_is_lost:
  "\<exists>ops. writeChunkedSecureValue (reader (\<lambda>_. None)) ''k'' ''5'' = Inr ops \<and>
    readChunkedSecureValue (reader (run ops (\<lambda>_. None))) ''k'' = Inr None"
proof -
  have "writeChunkedSecureValue (reader (\<lambda>_. None)) ''k'' ''5'' = Inr [SetItem ''k'' ''5'']" by code_simp
  moreover have "readChunkedSecureValue (reader (run [SetItem ''k'' ''5''] (\<lambda>_. None))) ''k'' = Inr None" by code_simp
  ultimately show ?thesis by blast
qed

theorem chunked_write_read_back_witness:
  "\<exists>ops. writeChunkedSecureValue (reader (\<lambda>_. None)) ''k'' ''secret'' = Inr ops \<and>
    readChunkedSecureValue (reader (run ops (\<lambda>_. None))) ''k'' = Inr (Some ''secret'')"
proof -
  have v: "storable ''secret''"
    by (simp add: storable_def starts_with_def BA_CHUNK_MARKER_def parseLegacyChunkCount_def
        all_digits_def is_digit_def)
  show ?thesis
    using chunked_write_read_back [OF v, of "\<lambda>_. None" "''k''"]
    by (simp add: writeChunkedSecureValue_def)
qed

text \<open>C4: A write that stops after any number of its calls (a crash or an exception in the
  middle) leaves a store in which the key reads as the old value, as the empty value, or as
  the new value; chunks of two values are never joined.\<close>

theorem torn_write_never_mixes:
  assumes "storable v" and "writeChunkedSecureValue (reader s) k v = Inr ops"
  shows "readChunkedSecureValue (reader (run (take n ops) s)) k \<in>
    {readChunkedSecureValue (reader s) k, Inr (Some []), Inr (Some v)}"
proof -
  from assms(2) have ops: "ops = write_value_ops k v @ cleanup_ops k v (s k)"
    by (simp add: writeChunked_ops)
  from take_write_cases [of n "write_value_ops k v" "cleanup_ops k v (s k)"]
  show ?thesis
  proof (elim disjE exE conjE)
    fix m assume "take n (write_value_ops k v @ cleanup_ops k v (s k)) = take m (write_value_ops k v)"
    with kv.torn_write_read [OF assms(1), of m k s] show ?thesis by (simp add: ops)
  next
    fix ds assume "take n (write_value_ops k v @ cleanup_ops k v (s k)) = write_value_ops k v @ ds"
      and "set ds \<subseteq> set (cleanup_ops k v (s k))"
    with kv.write_read [OF assms(1), of ds k "s k" s] show ?thesis by (simp add: ops)
  qed
qed

theorem torn_write_never_mixes_witness:
  "\<exists>ops. writeChunkedSecureValue (reader [''k'' \<mapsto> ''old'']) ''k'' (replicate 2000 CHR ''a'') = Inr ops \<and>
    readChunkedSecureValue (reader (run (take 2 ops) [''k'' \<mapsto> ''old''])) ''k'' \<in>
      {readChunkedSecureValue (reader [''k'' \<mapsto> ''old'']) ''k'', Inr (Some []),
       Inr (Some (replicate 2000 CHR ''a''))}"
proof -
  have v: "storable (replicate 2000 CHR ''a'')"
    by (simp add: storable_def LEGACY_CHUNK_SIZE_def)
  show ?thesis
    using torn_write_never_mixes [OF v, of "[''k'' \<mapsto> ''old'']" "''k''" _ 2]
    by (auto simp: writeChunkedSecureValue_def)
qed

text \<open>The deletes that the synchronous writer leaves to run in the background can run in
  any order, be repeated, or fail, without affecting the value just written.\<close>

lemma background_deletes_harmless:
  assumes "storable v" and "setChunkedSecureValueSync (reader s) k v = Inr (ops, background)"
    and "set ds \<subseteq> set background"
  shows "getChunkedSecureValueSync (reader (run (ops @ ds) s)) k = Some v"
proof -
  from assms(2) have "ops = write_value_ops k v" "background = cleanup_ops k v (s k)"
    by (simp_all add: setChunkedSecureValueSync_def)
  with assms(3) kv.write_read [OF assms(1), of ds k "s k" s] show ?thesis
    by (intro sync_reads_async) simp
qed

lemma background_deletes_harmless_witness:
  "setChunkedSecureValueSync (reader [''k'' \<mapsto> ''2'']) ''k'' ''v'' =
     Inr ([SetItem ''k'' ''v''], [DeleteItem ''k_0'', DeleteItem ''k_1'']) \<and>
   getChunkedSecureValueSync (reader (run ([SetItem ''k'' ''v''] @ [DeleteItem ''k_1'']) [''k'' \<mapsto> ''2''])) ''k''
     = Some ''v''"
proof -
  have v: "storable ''v''"
    by (simp add: storable_def starts_with_def BA_CHUNK_MARKER_def parseLegacyChunkCount_def
        all_digits_def is_digit_def)
  have c: "setChunkedSecureValueSync (reader [''k'' \<mapsto> ''2'']) ''k'' ''v'' =
     Inr ([SetItem ''k'' ''v''], [DeleteItem ''k_0'', DeleteItem ''k_1''])"
    by code_simp
  show ?thesis
    by (intro conjI c background_deletes_harmless [OF v c]) simp
qed

text \<open>Deleting a chunked value removes its base key and every chunk that its marker or its
  legacy count names, so nothing of it can be read afterwards.\<close>

lemma delete_removes_named_chunks:
  assumes "deleteChunkedSecureValue (reader s) k = Inr ops"
  shows "run ops s k = None \<and>
    (\<forall>m g i. parseBaChunkMarker (s k) = Some m \<longrightarrow> g \<in> set (baChunkGroups m) \<longrightarrow> i < chunk_count g \<longrightarrow>
      run ops s (baChunkKey k (chunk_slot g) i) = None) \<and>
    (\<forall>n i. parseLegacyChunkCount (s k) = Some n \<longrightarrow> i < n \<longrightarrow> run ops s (legacyChunkKey k i) = None)"
  using kv.delete_removes [OF assms] by blast

lemma delete_removes_named_chunks_witness:
  "run [DeleteItem ''k'', DeleteItem ''k_0''] [''k'' \<mapsto> ''1'', ''k_0'' \<mapsto> ''x''] (legacyChunkKey ''k'' 0) = None"
proof -
  have c: "deleteChunkedSecureValue (reader [''k'' \<mapsto> ''1'', ''k_0'' \<mapsto> ''x'']) ''k'' =
      Inr [DeleteItem ''k'', DeleteItem ''k_0'']"
    by code_simp
  have p: "parseLegacyChunkCount ([''k'' \<mapsto> ''1'', ''k_0'' \<mapsto> ''x''] ''k'') = Some 1"
    by code_simp
  show ?thesis
    using delete_removes_named_chunks [OF c] p by blast
qed

text \<open>On the same store the synchronous and the asynchronous reader return the same value,
  for every chunk format and also when chunks are missing or empty.\<close>

lemma sync_async_readers_agree:
  "readChunkedSecureValue (reader s) k = Inr (getChunkedSecureValueSync (reader s) k)"
proof -
  have "\<exists>r. read_chunked_body readBetterAuthChunksAsync readLegacyChunksAsync (reader s) k = Inr r"
  proof -
    have "\<exists>r. read_groups_async (reader s) k gs = Inr r" for gs
      by (induction gs) auto
    then show ?thesis
      by (auto simp: read_chunked_body_def readBetterAuthChunksAsync_def readLegacyChunksAsync_def
          split: option.splits)
  qed
  then show ?thesis
    by (auto simp: readChunkedSecureValue_def getChunkedSecureValueSync_def readers_agree)
qed

text \<open>Overwriting a long value with a shorter one that still needs chunks leaves the last
  chunks of the old value in the store, and deleting the key afterwards does not remove them:
  the cleanup of an unslotted marker is skipped when the new value is chunked too.\<close>

lemma overwrite_then_delete_leaves_chunk:
  assumes long: "length v1 > LEGACY_CHUNK_SIZE" "length v2 > LEGACY_CHUNK_SIZE"
    and size: "length v1 < 2 ^ 53" "length v2 < 2 ^ 53"
    and i: "chunk_total v2 \<le> i" "i < chunk_total v1"
    and w1: "writeChunkedSecureValue (reader s) k v1 = Inr ops1"
    and w2: "writeChunkedSecureValue (reader (run ops1 s)) k v2 = Inr ops2"
    and d: "deleteChunkedSecureValue (reader (run ops2 (run ops1 s))) k = Inr ops3"
  shows "run ops3 (run ops2 (run ops1 s)) (k @ ''.'' @ nat_str i) = Some (chunk_part v1 i)"
proof -
  let ?key = "k @ CHR ''.'' # nat_str i"
  note bounds = chunk_total_bounds [OF long(1) size(1)] chunk_total_bounds [OF long(2) size(2)]
  have base: "run (write_value_ops k v @ cleanup_ops k v prev) t k =
      Some (BA_CHUNK_MARKER @ nat_str (chunk_total v))"
    if "length v > LEGACY_CHUNK_SIZE" for v prev t
    using kv.exec_frame [of "cleanup_ops k v prev" k] cleanup_deletes kv.written_base [OF that]
    by (metis exec_ops_append)
  have keep: "run (cleanup_ops k v prev) t ?key = t ?key" if "length v > LEGACY_CHUNK_SIZE" for v prev t
    using kv.exec_frame [of "cleanup_ops k v prev" ?key] cleanup_keeps_chunks [OF that] by blast
  have s1: "run ops1 s ?key = Some (chunk_part v1 i)"
    using w1 keep [OF long(1)] kv.written_chunk [OF long(1) i(2)] by (auto simp: writeChunked_ops)
  have "op_key x \<noteq> ?key" if "x \<in> set (write_value_ops k v2)" for x
    using that i(1) long(2) by (auto simp: write_value_ops_def)
  then have s2: "run ops2 (run ops1 s) ?key = Some (chunk_part v1 i)"
    using w2 s1 keep [OF long(2)] kv.exec_frame [of "write_value_ops k v2" ?key]
    by (auto simp: writeChunked_ops)
  have "run ops2 (run ops1 s) k = Some (BA_CHUNK_MARKER @ nat_str (chunk_total v2))"
    using w2 base [OF long(2)] by (auto simp: writeChunked_ops)
  then have "ops3 = DeleteItem k # map (\<lambda>i. DeleteItem (baChunkKey k None i)) [0..<chunk_total v2]"
    using d bounds
    by (simp add: deleteChunkedSecureValue_def marker_not_legacy parse_written_marker
        deleteBaChunks_def baChunkGroups_def ba_chunk_group.truncate_def)
  then have "op_key x \<noteq> ?key" if "x \<in> set ops3" for x
    using that i(1) by (auto simp: baChunkKey_unslotted)
  with s2 kv.exec_frame [of ops3 ?key] show ?thesis by simp
qed

lemma overwrite_then_delete_leaves_chunk_witness:
  "\<exists>ops1 ops2 ops3.
    writeChunkedSecureValue (reader (\<lambda>_. None)) ''k'' (replicate 4000 CHR ''a'') = Inr ops1 \<and>
    writeChunkedSecureValue (reader (run ops1 (\<lambda>_. None))) ''k'' (replicate 2000 CHR ''b'') = Inr ops2 \<and>
    deleteChunkedSecureValue (reader (run ops2 (run ops1 (\<lambda>_. None)))) ''k'' = Inr ops3 \<and>
    run ops3 (run ops2 (run ops1 (\<lambda>_. None))) (''k'' @ ''.'' @ nat_str 2) =
      Some (chunk_part (replicate 4000 CHR ''a'') 2)"
proof -
  let ?a = "replicate 4000 CHR ''a''" and ?b = "replicate 2000 CHR ''b''"
  obtain ops1 where 1: "writeChunkedSecureValue (reader (\<lambda>_. None)) ''k'' ?a = Inr ops1"
    by (simp add: writeChunkedSecureValue_def)
  obtain ops2 where 2: "writeChunkedSecureValue (reader (run ops1 (\<lambda>_. None))) ''k'' ?b = Inr ops2"
    by (simp add: writeChunkedSecureValue_def)
  obtain ops3 where 3: "deleteChunkedSecureValue (reader (run ops2 (run ops1 (\<lambda>_. None)))) ''k'' = Inr ops3"
    by (simp add: deleteChunkedSecureValue_def)
  show ?thesis
    using overwrite_then_delete_leaves_chunk [OF _ _ _ _ _ _ 1 2 3, of 2] 1 2 3
    by (auto simp: LEGACY_CHUNK_SIZE_def chunk_total_def)
qed





end
