(* ===== verification/JsDate.thy ===== *)
theory JsDate
  imports Prelude
begin

text \<open>
  The UTC part of the ECMAScript \<open>Date\<close> object: time values in milliseconds since
  1970-01-01T00:00Z, the proleptic Gregorian calendar behind the getters and setters, and
  \<open>Date.UTC\<close>. A valid date is an \<open>int\<close>; where the code can meet an invalid date the model
  says \<open>int option\<close>. The time-value limit of 8.64e15 ms is not modelled. Months count from 0,
  as in the source.
\<close>

section \<open>The calendar\<close>

definition ms_per_day :: int where
  "ms_per_day = 86400000"

definition is_leap :: "int \<Rightarrow> bool" where
  "is_leap y \<longleftrightarrow> y mod 4 = 0 \<and> (y mod 100 \<noteq> 0 \<or> y mod 400 = 0)"

text \<open>The day number of January 1st.\<close>

definition day_from_year :: "int \<Rightarrow> int" where
  "day_from_year y =
     365 * (y - 1970) + (y - 1969) div 4 - (y - 1901) div 100 + (y - 1601) div 400"

definition month_start :: "bool \<Rightarrow> int \<Rightarrow> int" where
  "month_start leap m =
     (let l = (if leap then 1 else 0) in
      if m \<le> 0 then 0 else if m = 1 then 31 else if m = 2 then 59 + l else if m = 3 then 90 + l
      else if m = 4 then 120 + l else if m = 5 then 151 + l else if m = 6 then 181 + l
      else if m = 7 then 212 + l else if m = 8 then 243 + l else if m = 9 then 273 + l
      else if m = 10 then 304 + l else if m = 11 then 334 + l else 365 + l)"

definition days_in_month :: "int \<Rightarrow> int \<Rightarrow> int" where
  "days_in_month y m = month_start (is_leap y) (m + 1) - month_start (is_leap y) m"

text \<open>\<open>MakeDay(year, month, date)\<close>: months outside 0 to 11 carry into the year, dates outside
  the month carry into other months.\<close>

definition make_day :: "int \<Rightarrow> int \<Rightarrow> int \<Rightarrow> int" where
  "make_day y m d =
     (let ym = y + m div 12; mn = m mod 12
      in day_from_year ym + month_start (is_leap ym) mn + d - 1)"

definition year_of_day :: "int \<Rightarrow> int" where
  "year_of_day n =
     (let y0 = 1970 + (400 * n) div 146097
      in if day_from_year (y0 + 1) \<le> n then y0 + 1
         else if day_from_year y0 \<le> n then y0 else y0 - 1)"

definition day_of_year :: "int \<Rightarrow> int" where
  "day_of_year n = n - day_from_year (year_of_day n)"

definition month_in_year :: "bool \<Rightarrow> int \<Rightarrow> int" where
  "month_in_year leap k =
     (if k < month_start leap 1 then 0 else if k < month_start leap 2 then 1
      else if k < month_start leap 3 then 2 else if k < month_start leap 4 then 3
      else if k < month_start leap 5 then 4 else if k < month_start leap 6 then 5
      else if k < month_start leap 7 then 6 else if k < month_start leap 8 then 7
      else if k < month_start leap 9 then 8 else if k < month_start leap 10 then 9
      else if k < month_start leap 11 then 10 else 11)"

definition month_of_day :: "int \<Rightarrow> int" where
  "month_of_day n = month_in_year (is_leap (year_of_day n)) (day_of_year n)"

definition date_of_day :: "int \<Rightarrow> int" where
  "date_of_day n =
     day_of_year n - month_start (is_leap (year_of_day n)) (month_of_day n) + 1"

text \<open>Sunday is 0.\<close>

definition weekday_of_day :: "int \<Rightarrow> int" where
  "weekday_of_day n = (n + 4) mod 7"

section \<open>Getters, setters and \<open>Date.UTC\<close>\<close>

definition utc_day :: "int \<Rightarrow> int" where
  "utc_day t = t div ms_per_day"

definition ms_in_day :: "int \<Rightarrow> int" where
  "ms_in_day t = t mod ms_per_day"

definition getUTCFullYear :: "int \<Rightarrow> int" where "getUTCFullYear t = year_of_day (utc_day t)"
definition getUTCMonth :: "int \<Rightarrow> int" where "getUTCMonth t = month_of_day (utc_day t)"
definition getUTCDate :: "int \<Rightarrow> int" where "getUTCDate t = date_of_day (utc_day t)"
definition getUTCDay :: "int \<Rightarrow> int" where "getUTCDay t = weekday_of_day (utc_day t)"
definition getUTCHours :: "int \<Rightarrow> int" where "getUTCHours t = ms_in_day t div 3600000"
definition getUTCMinutes :: "int \<Rightarrow> int" where "getUTCMinutes t = (ms_in_day t div 60000) mod 60"
definition getUTCSeconds :: "int \<Rightarrow> int" where "getUTCSeconds t = (ms_in_day t div 1000) mod 60"
definition getUTCMilliseconds :: "int \<Rightarrow> int" where "getUTCMilliseconds t = ms_in_day t mod 1000"

definition make_time :: "int \<Rightarrow> int \<Rightarrow> int \<Rightarrow> int \<Rightarrow> int" where
  "make_time h mi s ms = h * 3600000 + mi * 60000 + s * 1000 + ms"

text \<open>\<open>Date.UTC\<close> reads the years 0 to 99 as 1900 to 1999.\<close>

definition full_year :: "int \<Rightarrow> int" where
  "full_year y = (if 0 \<le> y \<and> y \<le> 99 then 1900 + y else y)"

definition Date_UTC :: "int \<Rightarrow> int \<Rightarrow> int \<Rightarrow> int \<Rightarrow> int \<Rightarrow> int \<Rightarrow> int \<Rightarrow> int" where
  "Date_UTC y m d h mi s ms = make_day (full_year y) m d * ms_per_day + make_time h mi s ms"

definition setUTCDate :: "int \<Rightarrow> int \<Rightarrow> int" where
  "setUTCDate t d = make_day (getUTCFullYear t) (getUTCMonth t) d * ms_per_day + ms_in_day t"

definition setUTCMonth :: "int \<Rightarrow> int \<Rightarrow> int" where
  "setUTCMonth t m = make_day (getUTCFullYear t) m (getUTCDate t) * ms_per_day + ms_in_day t"

definition setUTCMilliseconds :: "int \<Rightarrow> int \<Rightarrow> int" where
  "setUTCMilliseconds t ms = t - getUTCMilliseconds t + ms"

section \<open>Facts about the calendar\<close>

lemma div_bounds:
  assumes "0 < (k::int)"
  shows "k * (x div k) \<le> x" "x < k * (x div k) + k"
  using assms mult_div_mod_eq [of k x] pos_mod_sign [of k x] pos_mod_bound [of k x] by linarith+

lemma div_step:
  assumes "0 < (k::int)"
  shows "(x + 1) div k = x div k + (if (x + 1) mod k = 0 then 1 else 0)"
proof -
  define q r where "q = (x + 1) div k" and "r = (x + 1) mod k"
  have x: "x + 1 = k * q + r" "0 \<le> r" "r < k"
    using assms by (simp_all add: q_def r_def)
  show ?thesis
  proof (cases "r = 0")
    case True
    with x have "x = k * (q - 1) + (k - 1)" by (simp add: algebra_simps)
    with assms have "x div k = q - 1" using int_div_pos_eq [of x k "q - 1" "k - 1"] by simp
    with True show ?thesis by (simp add: q_def r_def)
  next
    case False
    with x have "x = k * q + (r - 1)" "0 \<le> r - 1" "r - 1 < k" by auto
    then have "x div k = q" by (rule int_div_pos_eq)
    with False show ?thesis by (simp add: q_def r_def)
  qed
qed

lemma mod_shift: "(k::int) dvd c \<Longrightarrow> (y - c) mod k = y mod k"
  by (simp add: mod_eq_dvd_iff)

lemma year_step:
  assumes "0 < (k::int)" "k dvd c" "b = c + 1"
  shows "(y - c) div k = (y - b) div k + (if y mod k = 0 then 1 else 0)"
  using div_step [OF assms(1), of "y - b"] mod_shift [OF assms(2), of y] assms(3)
  by (simp add: algebra_simps)

lemma mod_400_100: "(y::int) mod 400 = 0 \<Longrightarrow> y mod 100 = 0"
  using dvd_trans [of "100::int" 400 y] by (simp add: dvd_eq_mod_eq_0)

lemma mod_100_4: "(y::int) mod 100 = 0 \<Longrightarrow> y mod 4 = 0"
  using dvd_trans [of "4::int" 100 y] by (simp add: dvd_eq_mod_eq_0)

lemma day_from_year_Suc: "day_from_year (y + 1) = day_from_year y + (if is_leap y then 366 else 365)"
proof -
  define p q r where "p \<longleftrightarrow> y mod 4 = 0" and "q \<longleftrightarrow> y mod 100 = 0" and "r \<longleftrightarrow> y mod 400 = 0"
  define a b c where "a = (y - 1969) div 4" and "b = (y - 1901) div 100" and "c = (y - 1601) div 400"
  have pqr: "r \<Longrightarrow> q" "q \<Longrightarrow> p"
    using mod_400_100 [of y] mod_100_4 [of y] by (simp_all only: p_def q_def r_def)
  have "(y - 1968) div 4 = a + (if p then 1 else 0)" "(y - 1900) div 100 = b + (if q then 1 else 0)"
    "(y - 1600) div 400 = c + (if r then 1 else 0)"
    unfolding a_def b_def c_def p_def q_def r_def by (rule year_step; simp)+
  moreover have "y + 1 - 1969 = y - 1968" "y + 1 - 1901 = y - 1900" "y + 1 - 1601 = y - 1600" by simp_all
  ultimately have next_year: "day_from_year (y + 1) = 365 * (y + 1 - 1970) + (a + (if p then 1 else 0)) -
      (b + (if q then 1 else 0)) + (c + (if r then 1 else 0))"
    by (simp only: day_from_year_def)
  have this_year: "day_from_year y = 365 * (y - 1970) + a - b + c"
    by (simp only: day_from_year_def a_def b_def c_def)
  have leap: "is_leap y \<longleftrightarrow> p \<and> (\<not> q \<or> r)"
    by (simp only: is_leap_def p_def q_def r_def)
  show ?thesis
    unfolding next_year this_year leap using pqr by (cases p; cases q; cases r) simp_all
qed

lemma day_from_year_bounds:
  "146097 * (y - 1970) - 506 \<le> 400 * day_from_year y" "400 * day_from_year y \<le> 146097 * (y - 1970) + 589"
proof -
  define a b c where "a = (y - 1969) div 4" and "b = (y - 1901) div 100" and "c = (y - 1601) div 400"
  have "4 * a \<le> y - 1969" "y - 1969 \<le> 4 * a + 3" unfolding a_def using div_bounds [of 4 "y - 1969"] by simp_all
  moreover have "100 * b \<le> y - 1901" "y - 1901 \<le> 100 * b + 99" unfolding b_def using div_bounds [of 100 "y - 1901"] by simp_all
  moreover have "400 * c \<le> y - 1601" "y - 1601 \<le> 400 * c + 399" unfolding c_def using div_bounds [of 400 "y - 1601"] by simp_all
  moreover have "day_from_year y = 365 * (y - 1970) + a - b + c"
    by (simp add: day_from_year_def a_def b_def c_def)
  moreover from calculation have "100 * y \<le> 100 * (4 * a + 1972)" "100 * (4 * a) \<le> 100 * (y - 1969)"
    "4 * (100 * b) \<le> 4 * (y - 1901)" "4 * (y - 1901) \<le> 4 * (100 * b + 99)"
    by simp_all
  ultimately show "146097 * (y - 1970) - 506 \<le> 400 * day_from_year y"
    "400 * day_from_year y \<le> 146097 * (y - 1970) + 589"
    by simp_all
qed

lemma year_of_day_spec:
  "day_from_year (year_of_day n) \<le> n" "n < day_from_year (year_of_day n + 1)"
proof -
  define q where "q = (400 * n) div 146097"
  have q: "146097 * q \<le> 400 * n" "400 * n < 146097 * q + 146097"
    unfolding q_def using div_bounds [of 146097 "400 * n"] by simp_all
  have low: "day_from_year (1970 + q - 1) \<le> n"
    using day_from_year_bounds(2) [of "1970 + q - 1"] q by simp
  have high: "n < day_from_year (1970 + q + 1 + 1)"
    using day_from_year_bounds(1) [of "1970 + q + 1 + 1"] q by simp
  from low high show "day_from_year (year_of_day n) \<le> n" "n < day_from_year (year_of_day n + 1)"
    by (auto simp: year_of_day_def q_def [symmetric] Let_def)
qed

lemma day_from_year_less: "y < z \<Longrightarrow> day_from_year y + 365 \<le> day_from_year z"
proof (induction "nat (z - y)" arbitrary: z)
  case 0
  then show ?case by simp
next
  case (Suc k)
  show ?case
  proof (cases "z = y + 1")
    case True
    then show ?thesis by (simp add: day_from_year_Suc)
  next
    case False
    with Suc have "day_from_year y + 365 \<le> day_from_year (z - 1)" by simp
    moreover have "day_from_year (z - 1) \<le> day_from_year z"
      using day_from_year_Suc [of "z - 1"] by (simp split: if_splits)
    ultimately show ?thesis by simp
  qed
qed

lemma year_of_day_unique:
  "day_from_year y \<le> n \<Longrightarrow> n < day_from_year (y + 1) \<Longrightarrow> year_of_day n = y"
proof (rule ccontr)
  assume y: "day_from_year y \<le> n" "n < day_from_year (y + 1)" and "year_of_day n \<noteq> y"
  then consider "year_of_day n + 1 \<le> y" | "y + 1 \<le> year_of_day n" by linarith
  then show False
  proof cases
    case 1
    then have "day_from_year (year_of_day n + 1) \<le> day_from_year y"
      using day_from_year_less [of "year_of_day n + 1" y] by (cases "year_of_day n + 1 = y") auto
    with y year_of_day_spec [of n] show False by simp
  next
    case 2
    then have "day_from_year (y + 1) \<le> day_from_year (year_of_day n)"
      using day_from_year_less [of "y + 1" "year_of_day n"] by (cases "y + 1 = year_of_day n") auto
    with y year_of_day_spec [of n] show False by simp
  qed
qed

lemma month_cases:
  assumes "0 \<le> m" "m \<le> (11::int)"
  obtains "m = 0" | "m = 1" | "m = 2" | "m = 3" | "m = 4" | "m = 5" | "m = 6" | "m = 7"
    | "m = 8" | "m = 9" | "m = 10" | "m = 11"
proof -
  from assms have "m = 0 \<or> m = 1 \<or> m = 2 \<or> m = 3 \<or> m = 4 \<or> m = 5 \<or> m = 6 \<or> m = 7 \<or>
      m = 8 \<or> m = 9 \<or> m = 10 \<or> m = 11"
    by presburger
  with that show thesis by blast
qed

lemma month_in_year_start:
  assumes "0 \<le> m" "m \<le> 11" "month_start l m \<le> k" "k < month_start l (m + 1)"
  shows "month_in_year l k = m"
  using assms(1,2)
  by (cases rule: month_cases) (use assms(3,4) in \<open>auto simp: month_in_year_def month_start_def Let_def split: if_splits\<close>)

lemma month_in_year_bounds:
  assumes "0 \<le> k" "k < (if l then 366 else 365)"
  shows "0 \<le> month_in_year l k" "month_in_year l k \<le> 11"
    "month_start l (month_in_year l k) \<le> k" "k < month_start l (month_in_year l k + 1)"
  using assms by (auto simp: month_in_year_def month_start_def Let_def split: if_splits)

lemma month_start_mono:
  assumes "0 \<le> m" "m \<le> 11"
  shows "0 \<le> month_start l m" "month_start l m + 28 \<le> month_start l (m + 1)"
    "month_start l (m + 1) \<le> (if l then 366 else 365)" "month_start l (m + 1) \<le> month_start l m + 31"
  using assms by (cases rule: month_cases; simp add: month_start_def Let_def)+

lemma days_in_month_bounds:
  assumes "0 \<le> m" "m \<le> 11"
  shows "28 \<le> days_in_month y m" "days_in_month y m \<le> 31"
  using month_start_mono [OF assms, of "is_leap y"] by (simp_all add: days_in_month_def)

lemma day_of_year_bounds:
  "0 \<le> day_of_year n" "day_of_year n < (if is_leap (year_of_day n) then 366 else 365)"
  using year_of_day_spec [of n] by (auto simp: day_of_year_def day_from_year_Suc)

lemma month_of_day_bounds [simp]: "0 \<le> month_of_day n" "month_of_day n \<le> 11"
  using month_in_year_bounds [OF day_of_year_bounds] by (simp_all add: month_of_day_def)

lemma date_of_day_bounds:
  "1 \<le> date_of_day n" "date_of_day n \<le> days_in_month (year_of_day n) (month_of_day n)"
  using month_in_year_bounds(3,4) [OF day_of_year_bounds, of n]
  by (simp_all add: date_of_day_def days_in_month_def month_of_day_def)

lemma make_day_in_year:
  "0 \<le> m \<Longrightarrow> m \<le> 11 \<Longrightarrow> make_day y m d = day_from_year y + month_start (is_leap y) m + d - 1"
  by (simp add: make_day_def)

text \<open>Reading a day and making it again gives the same day.\<close>

lemma make_day_of_day [simp]: "make_day (year_of_day n) (month_of_day n) (date_of_day n) = n"
proof -
  have "make_day (year_of_day n) (month_of_day n) (date_of_day n) =
      day_from_year (year_of_day n) + month_start (is_leap (year_of_day n)) (month_of_day n) +
      date_of_day n - 1"
    by (rule make_day_in_year) simp_all
  then show ?thesis by (simp add: date_of_day_def day_of_year_def)
qed

text \<open>Making a day of the calendar and reading it gives the parts back.\<close>

lemma day_of_make_day:
  assumes "0 \<le> m" "m \<le> 11" "1 \<le> d" "d \<le> days_in_month y m"
  shows "year_of_day (make_day y m d) = y" "month_of_day (make_day y m d) = m"
    "date_of_day (make_day y m d) = d"
proof -
  have n: "make_day y m d = day_from_year y + month_start (is_leap y) m + d - 1"
    using assms(1,2) by (rule make_day_in_year)
  have b: "0 \<le> month_start (is_leap y) m + d - 1"
    "month_start (is_leap y) m + d - 1 < month_start (is_leap y) (m + 1)"
    using assms month_start_mono(1) [of m "is_leap y"] by (auto simp: days_in_month_def)
  then show y: "year_of_day (make_day y m d) = y"
    using month_start_mono(3) [OF assms(1,2), of "is_leap y"] day_from_year_Suc [of y]
    by (intro year_of_day_unique) (auto simp: n split: if_splits)
  have doy: "day_of_year (make_day y m d) = month_start (is_leap y) m + d - 1"
    by (simp add: day_of_year_def y) (simp add: n)
  show m: "month_of_day (make_day y m d) = m"
    using b assms by (simp add: month_of_day_def y doy month_in_year_start)
  show "date_of_day (make_day y m d) = d"
    by (simp add: date_of_day_def y m doy)
qed

lemma make_day_year_bounds:
  assumes "0 \<le> m" "m \<le> 11" "1 \<le> d" "d \<le> 31"
  shows "day_from_year y \<le> make_day y m d" "make_day y m d < day_from_year (y + 1)"
proof -
  have "month_start l m + 31 \<le> (if l then 366 else 365)" for l
    using assms(1,2) by (cases rule: month_cases) (simp_all add: month_start_def Let_def)
  note b = this [of "is_leap y"] month_start_mono(1) [OF assms(1,2), of "is_leap y"]
  show "day_from_year y \<le> make_day y m d"
    using b assms(3) by (simp add: make_day_in_year [OF assms(1,2)])
  show "make_day y m d < day_from_year (y + 1)"
    using b assms(4) by (simp add: make_day_in_year [OF assms(1,2)] day_from_year_Suc)
qed

lemma make_day_add: "make_day y m d + k = make_day y m (d + k)"
  by (simp add: make_day_def Let_def)

lemma make_day_carry: "make_day y (m + 12 * k) d = make_day (y + k) m d"
  by (simp add: make_day_def Let_def ac_simps)

lemma month_start_le: "0 \<le> i \<Longrightarrow> i \<le> k \<Longrightarrow> k \<le> 12 \<Longrightarrow> month_start l i \<le> month_start l k"
proof (induction "nat (k - i)" arbitrary: k)
  case 0
  then show ?case by simp
next
  case (Suc n)
  then have "month_start l i \<le> month_start l (k - 1)" by simp
  moreover from Suc have "0 < k" by linarith
  ultimately have "month_start l (k - 1) + 28 \<le> month_start l k"
    using month_start_mono(2) [of "k - 1" l] Suc.prems by simp
  with \<open>month_start l i \<le> month_start l (k - 1)\<close> have "month_start l i \<le> month_start l k" by simp
  then show ?case .
qed

text \<open>Days of a later month are later.\<close>

lemma make_day_month_less:
  assumes "12 * y + m < 12 * z + k" "0 \<le> m" "m \<le> 11" "0 \<le> k" "k \<le> 11"
    and "d \<le> days_in_month y m" "1 \<le> e"
  shows "make_day y m d < make_day z k e"
proof (cases "y = z")
  case True
  with assms have "month_start (is_leap z) (m + 1) \<le> month_start (is_leap z) k"
    by (intro month_start_le) simp_all
  with True assms show ?thesis
    by (simp add: make_day_in_year days_in_month_def)
next
  case False
  with assms have "y < z" by linarith
  then have "day_from_year y + (if is_leap y then 366 else 365) \<le> day_from_year z"
    using day_from_year_less [of "y + 1" z] day_from_year_Suc [of y] by (cases "z = y + 1") auto
  with assms month_start_mono(3) [of m "is_leap y"] month_start_mono(1) [of k "is_leap z"]
  show ?thesis by (simp add: make_day_in_year days_in_month_def)
qed

section \<open>Facts about time values\<close>

lemma ms_per_day_pos [simp]: "0 < ms_per_day"
  by (simp add: ms_per_day_def)

lemma ms_in_day_bounds [simp]: "0 \<le> ms_in_day t" "ms_in_day t < ms_per_day"
  by (simp_all add: ms_in_day_def)

lemma utc_split: "t = utc_day t * ms_per_day + ms_in_day t"
  by (simp add: utc_day_def ms_in_day_def)

lemma utc_day_make [simp]: "0 \<le> r \<Longrightarrow> r < ms_per_day \<Longrightarrow> utc_day (n * ms_per_day + r) = n"
  by (simp add: utc_day_def)

lemma ms_in_day_make [simp]: "0 \<le> r \<Longrightarrow> r < ms_per_day \<Longrightarrow> ms_in_day (n * ms_per_day + r) = r"
  by (simp add: ms_in_day_def)

lemma time_of_day_parts:
  "make_time (getUTCHours t) (getUTCMinutes t) (getUTCSeconds t) (getUTCMilliseconds t) = ms_in_day t"
proof -
  define r q p where "r = ms_in_day t" and "q = r div 1000" and "p = q div 60"
  have e: "r div 60000 = p" "r div 3600000 = p div 60"
    using zdiv_zmult2_eq [of 60 r 1000] zdiv_zmult2_eq [of 60 r 60000] by (simp_all add: p_def q_def)
  have "r = 1000 * q + r mod 1000" "q = 60 * p + q mod 60" "p = 60 * (p div 60) + p mod 60"
    by (simp_all add: p_def q_def)
  then have "p div 60 * 3600000 + p mod 60 * 60000 + q mod 60 * 1000 + r mod 1000 = r"
    by linarith
  with e have "r div 3600000 * 3600000 + (r div 60000) mod 60 * 60000 + (r div 1000) mod 60 * 1000 +
      r mod 1000 = r"
    by (simp add: q_def)
  then show ?thesis
    by (simp add: make_time_def getUTCHours_def getUTCMinutes_def getUTCSeconds_def
        getUTCMilliseconds_def r_def [symmetric])
qed

lemma setUTCDate_shift: "setUTCDate t (getUTCDate t + k) = t + k * ms_per_day"
proof -
  have "make_day (getUTCFullYear t) (getUTCMonth t) (getUTCDate t + k) = utc_day t + k"
    by (simp add: make_day_add [symmetric] getUTCFullYear_def getUTCMonth_def getUTCDate_def)
  then show ?thesis
    using utc_split [of t] by (simp add: setUTCDate_def algebra_simps)
qed

lemma utc_day_less: "utc_day s < utc_day t \<Longrightarrow> s < t"
  by (metis linorder_not_less utc_day_def zdiv_mono1 ms_per_day_pos)

lemma utc_day_add: "utc_day (t + k * ms_per_day) = utc_day t + k"
  by (simp add: utc_day_def ms_per_day_def)

section \<open>Intl.DateTimeFormat\<close>

text \<open>
  \<open>fmt tz t\<close> is the list of (type, value) parts \<open>formatToParts\<close> gives for the instant \<open>t\<close> in
  the zone \<open>tz\<close>. It is a parameter of the components; \<open>clock_fmt off\<close> is a formatter whose
  clock is ahead of UTC by \<open>off t\<close> at the instant \<open>t\<close>.
\<close>

type_synonym format_to_parts = "string \<Rightarrow> int \<Rightarrow> (string \<times> string) list"

definition clock_fmt :: "(int \<Rightarrow> int) \<Rightarrow> format_to_parts" where
  "clock_fmt off z t =
     (let u = t + off t in
      [(''day'', int_str (getUTCDate u)), (''literal'', ''/''), (''month'', int_str (getUTCMonth u + 1)),
       (''literal'', ''/''), (''year'', int_str (getUTCFullYear u)), (''literal'', '', ''),
       (''hour'', int_str (getUTCHours u)), (''literal'', '':''),
       (''minute'', int_str (getUTCMinutes u)), (''literal'', '':''),
       (''second'', int_str (getUTCSeconds u))])"

end
