(* ===== verification/Recurrence.thy ===== *)
theory Recurrence
  imports JsValue JsDate
begin

text \<open>
  The recurrence engine, \<open>packages/calendar-ics/src/recurrence.ts\<close>.

  \<open>Intl.DateTimeFormat\<close> is a parameter: \<open>fmt tz t\<close> is the list of (type, value) parts that
  \<open>formatToParts\<close> gives for the instant \<open>t\<close> in the zone \<open>tz\<close>, for zones the runtime knows.
  Instants are time values in milliseconds. The numbers of a rule are integers. The end date
  of a rule is \<open>None\<close> when absent, \<open>Some None\<close> when it is an invalid date (every comparison
  with it is false) and \<open>Some (Some t)\<close> otherwise.
\<close>

section \<open>Data\<close>

datatype recurrence_frequency = Daily | Weekly | Monthly | Yearly

record recurrence_rule =
  frequency :: recurrence_frequency
  interval :: int
  rule_count :: "int option"
  until :: "int option option"
  timezone :: "string option"
  byWeekDay :: "int list option"
  byMonthDay :: "int list option"
  byMonth :: "int list option"

record recurrence_instance =
  inst_date :: int
  isOriginal :: bool
  originalEventId :: string

record date_parts =
  p_year :: int
  p_month :: int
  p_day :: int
  p_hour :: int
  p_minute :: int
  p_second :: int

record base_event =
  base_id :: string
  base_start :: int
  base_end :: int
  base_recurrence :: string

section \<open>Wall clock parts\<close>

text \<open>The loop over the parts keeps the last number of each type.\<close>

definition part_number :: "(string \<times> string) list \<Rightarrow> string \<Rightarrow> int option" where
  "part_number parts ty =
     fold (\<lambda>(t, v) acc. if t = ''literal'' \<or> t \<noteq> ty then acc
             else (case parse_int10 v of None \<Rightarrow> acc | Some n \<Rightarrow> Some n)) parts None"

definition opt_or :: "'a option \<Rightarrow> 'a \<Rightarrow> 'a" where
  "opt_or x d = (case x of None \<Rightarrow> d | Some v \<Rightarrow> v)"

definition parseDateParts :: "format_to_parts \<Rightarrow> int \<Rightarrow> string \<Rightarrow> date_parts" where
  "parseDateParts fmt date tz =
     (let parts = fmt tz date in
      \<lparr>p_year = opt_or (part_number parts ''year'') (getUTCFullYear date),
       p_month = opt_or (part_number parts ''month'') (getUTCMonth date + 1),
       p_day = opt_or (part_number parts ''day'') (getUTCDate date),
       p_hour = opt_or (part_number parts ''hour'') (getUTCHours date),
       p_minute = opt_or (part_number parts ''minute'') (getUTCMinutes date),
       p_second = opt_or (part_number parts ''second'') (getUTCSeconds date)\<rparr>)"

definition getUtcParts :: "int \<Rightarrow> date_parts" where
  "getUtcParts date =
     \<lparr>p_year = getUTCFullYear date, p_month = getUTCMonth date + 1, p_day = getUTCDate date,
      p_hour = getUTCHours date, p_minute = getUTCMinutes date, p_second = getUTCSeconds date\<rparr>"

definition partsToTimestamp :: "date_parts \<Rightarrow> int \<Rightarrow> int" where
  "partsToTimestamp parts milliseconds =
     Date_UTC (p_year parts) (p_month parts - 1) (p_day parts) (p_hour parts) (p_minute parts)
       (p_second parts) milliseconds"

section \<open>Date arithmetic\<close>

definition addUtcDays :: "int \<Rightarrow> int \<Rightarrow> int" where
  "addUtcDays date days = setUTCDate date (getUTCDate date + days)"

definition getUtcDaysInMonth :: "int \<Rightarrow> int \<Rightarrow> int" where
  "getUtcDaysInMonth year month = getUTCDate (Date_UTC year (month + 1) 0 0 0 0 0)"

definition addUtcMonths :: "int \<Rightarrow> int \<Rightarrow> int" where
  "addUtcMonths date months =
     (let targetMonth = Date_UTC (getUTCFullYear date) (getUTCMonth date + months) 1 0 0 0 0;
          day = min (getUTCDate date)
                  (getUtcDaysInMonth (getUTCFullYear targetMonth) (getUTCMonth targetMonth))
      in Date_UTC (getUTCFullYear targetMonth) (getUTCMonth targetMonth) day
           (getUTCHours date) (getUTCMinutes date) (getUTCSeconds date) (getUTCMilliseconds date))"

definition addUtcYears :: "int \<Rightarrow> int \<Rightarrow> int" where
  "addUtcYears date years = addUtcMonths date (years * 12)"

section \<open>Parsing a stored rule\<close>

text \<open>
  \<open>parse\<close> is \<open>JSON.parse\<close> and \<open>toDate\<close> the \<open>Date\<close> constructor on a string. The checks are
  those of the source on the parsed value; the typed rule is read off an object whose other
  fields have the types of \<open>RecurrenceRule\<close>, its interval and count being whole numbers;
  another stored value is no rule of the model.
\<close>

definition frequency_of :: "string \<Rightarrow> recurrence_frequency option" where
  "frequency_of s =
     (if s = ''daily'' then Some Daily else if s = ''weekly'' then Some Weekly
      else if s = ''monthly'' then Some Monthly else if s = ''yearly'' then Some Yearly else None)"

fun int_of_num :: "jsval \<Rightarrow> int option" where
  "int_of_num (JNum q) = (if is_integer q then Some \<lfloor>q\<rfloor> else None)"
| "int_of_num _ = None"

fun all_some :: "'a option list \<Rightarrow> 'a list option" where
  "all_some [] = Some []"
| "all_some (x # xs) =
     (case x of None \<Rightarrow> None | Some v \<Rightarrow> map_option (\<lambda>vs. v # vs) (all_some xs))"

text \<open>An optional field: \<open>Some None\<close> when absent or \<open>null\<close>, which the code never tells apart,
  \<open>None\<close> when it has another type.\<close>

fun opt_num :: "jsval \<Rightarrow> int option option" where
  "opt_num JUndefined = Some None"
| "opt_num JNull = Some None"
| "opt_num v = map_option Some (int_of_num v)"

fun opt_nums :: "jsval \<Rightarrow> int list option option" where
  "opt_nums JUndefined = Some None"
| "opt_nums JNull = Some None"
| "opt_nums (JArr vs) = map_option Some (all_some (map int_of_num vs))"
| "opt_nums _ = None"

fun until_date :: "(string \<Rightarrow> int option) \<Rightarrow> jsval \<Rightarrow> int option option" where
  "until_date toDate (JStr s) = (if s = [] then None else Some (toDate s))"
| "until_date toDate (JNum q) = (if q = 0 then None else Some (Some \<lfloor>q\<rfloor>))"
| "until_date toDate (JDate d) = Some d"
| "until_date toDate v = (if truthy v then Some None else None)"

fun opt_zone :: "jsval \<Rightarrow> string option" where
  "opt_zone (JStr s) = (if s = [] then None else Some s)"
| "opt_zone _ = None"

definition parseRecurrenceRule ::
  "(string \<Rightarrow> jsval option) \<Rightarrow> (string \<Rightarrow> int option) \<Rightarrow> string \<Rightarrow> recurrence_rule option" where
  "parseRecurrenceRule parse toDate recurrenceJson =
     (case parse recurrenceJson of None \<Rightarrow> None
      | Some rule \<Rightarrow>
          (let f = js_get rule ''frequency''; iv = js_get rule ''interval'';
               tz = js_get rule ''timezone''
           in if \<not> truthy f \<or> \<not> truthy iv then None
              else (case (case f of JStr s \<Rightarrow> frequency_of s | _ \<Rightarrow> None) of None \<Rightarrow> None
                    | Some fr \<Rightarrow>
                        (case iv of JNum q \<Rightarrow>
                           if q < 1 then None
                           else if truthy tz \<and> str_of tz = None then None
                           else
                             (case (int_of_num iv, opt_num (js_get rule ''count''),
                                    opt_nums (js_get rule ''byWeekDay''),
                                    opt_nums (js_get rule ''byMonthDay''),
                                    opt_nums (js_get rule ''byMonth'')) of
                                (Some i, Some c, Some wd, Some md, Some mo) \<Rightarrow>
                                  Some \<lparr>frequency = fr, interval = i, rule_count = c,
                                        until = until_date toDate (js_get rule ''until''),
                                        timezone = opt_zone tz, byWeekDay = wd,
                                        byMonthDay = md, byMonth = mo\<rparr>
                              | _ \<Rightarrow> None)
                         | _ \<Rightarrow> None))))"

section \<open>Rule context\<close>

definition toRuleContextDate :: "format_to_parts \<Rightarrow> int \<Rightarrow> string option \<Rightarrow> int" where
  "toRuleContextDate fmt date tz =
     (case tz of None \<Rightarrow> date
      | Some z \<Rightarrow> partsToTimestamp (parseDateParts fmt date z) (getUTCMilliseconds date))"

text \<open>The correction loop: at most two rounds, stopping when the parts agree.\<close>

fun correct_guess :: "format_to_parts \<Rightarrow> string \<Rightarrow> int \<Rightarrow> int \<Rightarrow> nat \<Rightarrow> int \<Rightarrow> int" where
  "correct_guess fmt z milliseconds targetTimestamp 0 guess = guess"
| "correct_guess fmt z milliseconds targetTimestamp (Suc n) guess =
     (let actualTimestamp = partsToTimestamp (parseDateParts fmt guess z) milliseconds;
          diff = targetTimestamp - actualTimestamp
      in if diff = 0 then guess
         else correct_guess fmt z milliseconds targetTimestamp n (guess + diff))"

definition fromRuleContextDate :: "format_to_parts \<Rightarrow> int \<Rightarrow> string option \<Rightarrow> int" where
  "fromRuleContextDate fmt date tz =
     (case tz of None \<Rightarrow> date
      | Some z \<Rightarrow>
          (let milliseconds = getUTCMilliseconds date;
               targetTimestamp = partsToTimestamp (getUtcParts date) milliseconds
           in correct_guess fmt z milliseconds targetTimestamp 2 targetTimestamp))"

definition isSameRuleDay :: "format_to_parts \<Rightarrow> int \<Rightarrow> int \<Rightarrow> string option \<Rightarrow> bool" where
  "isSameRuleDay fmt left right tz =
     (let leftDate = toRuleContextDate fmt left tz; rightDate = toRuleContextDate fmt right tz
      in getUTCFullYear leftDate = getUTCFullYear rightDate \<and>
         getUTCMonth leftDate = getUTCMonth rightDate \<and>
         getUTCDate leftDate = getUTCDate rightDate)"

section \<open>The next occurrence\<close>

text \<open>The day-by-day search of the weekday rules.\<close>

fun scan_weekday :: "int list \<Rightarrow> nat \<Rightarrow> int \<Rightarrow> int option" where
  "scan_weekday days 0 nextDate = None"
| "scan_weekday days (Suc n) nextDate =
     (if getUTCDay nextDate \<in> set days then Some nextDate
      else scan_weekday days n (addUtcDays nextDate 1))"

definition non_empty :: "'a list option \<Rightarrow> 'a list" where
  "non_empty xs = (case xs of None \<Rightarrow> [] | Some ys \<Rightarrow> ys)"

definition clamp_day :: "int \<Rightarrow> int \<Rightarrow> int" where
  "clamp_day nextDate targetDay =
     setUTCDate nextDate
       (min targetDay (getUtcDaysInMonth (getUTCFullYear nextDate) (getUTCMonth nextDate)))"

definition getNextOccurrence :: "int \<Rightarrow> recurrence_rule \<Rightarrow> int" where
  "getNextOccurrence currentDate rule =
     (case frequency rule of
        Daily \<Rightarrow>
          if non_empty (byWeekDay rule) \<noteq> [] then
            (case scan_weekday (non_empty (byWeekDay rule)) 14 (addUtcDays currentDate 1) of
               Some d \<Rightarrow> d | None \<Rightarrow> addUtcDays currentDate (interval rule))
          else addUtcDays currentDate (interval rule)
      | Weekly \<Rightarrow>
          if non_empty (byWeekDay rule) \<noteq> [] then
            (case scan_weekday (non_empty (byWeekDay rule)) (nat (interval rule * 7))
                    (addUtcDays currentDate 1) of
               Some d \<Rightarrow> d | None \<Rightarrow> addUtcDays currentDate (interval rule * 7))
          else addUtcDays currentDate (interval rule * 7)
      | Monthly \<Rightarrow>
          (case non_empty (byMonthDay rule) of
             [] \<Rightarrow> addUtcMonths currentDate (interval rule)
           | targetDay # _ \<Rightarrow> clamp_day (addUtcMonths currentDate (interval rule)) targetDay)
      | Yearly \<Rightarrow>
          (case non_empty (byMonth rule) of
             [] \<Rightarrow> addUtcYears currentDate (interval rule)
           | m # _ \<Rightarrow>
               (let nextDate = setUTCMonth (addUtcYears currentDate (interval rule)) (m - 1)
                in case non_empty (byMonthDay rule) of
                     [] \<Rightarrow> nextDate
                   | d # _ \<Rightarrow> clamp_day nextDate d)))"

section \<open>Generating instances\<close>

definition not_after :: "int \<Rightarrow> int option \<Rightarrow> bool" where
  "not_after t u \<longleftrightarrow> (case u of None \<Rightarrow> False | Some v \<Rightarrow> t \<le> v)"

definition after :: "int \<Rightarrow> int option \<Rightarrow> bool" where
  "after t u \<longleftrightarrow> (case u of None \<Rightarrow> False | Some v \<Rightarrow> t > v)"

definition isException :: "format_to_parts \<Rightarrow> int list \<Rightarrow> int \<Rightarrow> string option \<Rightarrow> bool" where
  "isException fmt exceptions occ tz \<longleftrightarrow> list_ex (\<lambda>ex. isSameRuleDay fmt ex occ tz) exceptions"

definition count_reached :: "recurrence_rule \<Rightarrow> int \<Rightarrow> bool" where
  "count_reached rule occurrenceCount \<longleftrightarrow>
     (case rule_count rule of None \<Rightarrow> False | Some c \<Rightarrow> c \<noteq> 0 \<and> occurrenceCount \<ge> c)"

definition until_passed :: "recurrence_rule \<Rightarrow> int \<Rightarrow> bool" where
  "until_passed rule occ \<longleftrightarrow> (case until rule of None \<Rightarrow> False | Some u \<Rightarrow> after occ u)"

text \<open>The loop, with the iterations left of \<open>maxIterations\<close>.\<close>

fun gen_loop :: "format_to_parts \<Rightarrow> recurrence_rule \<Rightarrow> string \<Rightarrow> int \<Rightarrow> int \<Rightarrow> int list \<Rightarrow> nat \<Rightarrow>
    int \<Rightarrow> int \<Rightarrow> recurrence_instance list" where
  "gen_loop fmt rule eid rangeStart rangeEnd exceptions 0 currentDate occurrenceCount = []"
| "gen_loop fmt rule eid rangeStart rangeEnd exceptions (Suc n) currentDate occurrenceCount =
     (if count_reached rule occurrenceCount then []
      else
        (let nextDate = getNextOccurrence currentDate rule;
             occ = fromRuleContextDate fmt nextDate (timezone rule);
             rest = gen_loop fmt rule eid rangeStart rangeEnd exceptions n nextDate (occurrenceCount + 1)
         in if until_passed rule occ then []
            else if occ > rangeEnd then []
            else if occ \<ge> rangeStart \<and> occ \<le> rangeEnd \<and> \<not> isException fmt exceptions occ (timezone rule)
            then \<lparr>inst_date = occ, isOriginal = False, originalEventId = eid\<rparr> # rest
            else rest))"

definition maxIterations :: nat where
  "maxIterations = 1000"

definition generate_for_rule :: "format_to_parts \<Rightarrow> recurrence_rule \<Rightarrow> base_event \<Rightarrow> int \<Rightarrow> int \<Rightarrow>
    int list \<Rightarrow> recurrence_instance list" where
  "generate_for_rule fmt rule baseEvent rangeStart rangeEnd exceptions =
     (let tz = timezone rule;
          currentDate = toRuleContextDate fmt (base_start baseEvent) tz;
          occ = fromRuleContextDate fmt currentDate tz;
          first =
            (if occ \<ge> rangeStart \<and> occ \<le> rangeEnd \<and>
                (case until rule of None \<Rightarrow> True | Some u \<Rightarrow> not_after occ u) \<and>
                \<not> isException fmt exceptions occ tz
             then [\<lparr>inst_date = occ, isOriginal = True, originalEventId = base_id baseEvent\<rparr>]
             else [])
      in first @ gen_loop fmt rule (base_id baseEvent) rangeStart rangeEnd exceptions
           maxIterations currentDate 1)"

definition generateInstances :: "(string \<Rightarrow> jsval option) \<Rightarrow> (string \<Rightarrow> int option) \<Rightarrow> format_to_parts \<Rightarrow>
    base_event \<Rightarrow> int \<Rightarrow> int \<Rightarrow> int list \<Rightarrow> recurrence_instance list" where
  "generateInstances parse toDate fmt baseEvent rangeStart rangeEnd exceptions =
     (case parseRecurrenceRule parse toDate (base_recurrence baseEvent) of
        None \<Rightarrow> []
      | Some rule \<Rightarrow> generate_for_rule fmt rule baseEvent rangeStart rangeEnd exceptions)"

section \<open>Validation, description and patterns\<close>

text \<open>On a typed rule; the checks for a missing or misspelt frequency, a time zone that is not a
  string and fields that are not arrays concern values outside the type.\<close>

definition validateRecurrenceRule :: "recurrence_rule \<Rightarrow> string list" where
  "validateRecurrenceRule rule =
     (if interval rule = 0 then [''Interval is required'']
      else if interval rule < 1 \<or> interval rule > 999 then [''Interval must be between 1 and 999'']
      else []) @
     (case rule_count rule of None \<Rightarrow> [] | Some c \<Rightarrow>
        (if c \<noteq> 0 \<and> c < 1 then [''Count must be greater than 0''] else []) @
        (if c \<noteq> 0 \<and> until rule \<noteq> None then [''Cannot specify both count and until date''] else [])) @
     (case byWeekDay rule of None \<Rightarrow> [] | Some ds \<Rightarrow>
        if frequency rule \<noteq> Weekly \<and> frequency rule \<noteq> Daily
        then [''byWeekDay can only be used with weekly or daily frequency'']
        else if list_ex (\<lambda>d. d < 0 \<or> d > 6) ds
        then [''byWeekDay must be an array of numbers 0-6 (Sunday-Saturday)''] else []) @
     (case byMonthDay rule of None \<Rightarrow> [] | Some ds \<Rightarrow>
        if frequency rule \<noteq> Monthly \<and> frequency rule \<noteq> Yearly
        then [''byMonthDay can only be used with monthly or yearly frequency'']
        else if list_ex (\<lambda>d. d < 1 \<or> d > 31) ds
        then [''byMonthDay must be an array of numbers 1-31''] else []) @
     (case byMonth rule of None \<Rightarrow> [] | Some ms \<Rightarrow>
        if frequency rule \<noteq> Yearly then [''byMonth can only be used with yearly frequency'']
        else if list_ex (\<lambda>m. m < 1 \<or> m > 12) ms
        then [''byMonth must be an array of numbers 1-12''] else [])"

definition weekday_name :: "int \<Rightarrow> string" where
  "weekday_name d =
     (if 0 \<le> d \<and> d \<le> 6
      then [''Sun'', ''Mon'', ''Tue'', ''Wed'', ''Thu'', ''Fri'', ''Sat''] ! nat d else [])"

text \<open>\<open>toLocaleDateString\<close> is the argument \<open>localeDate\<close>.\<close>

definition getRecurrenceDescription :: "(int option \<Rightarrow> string) \<Rightarrow> recurrence_rule \<Rightarrow> string" where
  "getRecurrenceDescription localeDate rule =
     (if interval rule = 1
      then (case frequency rule of Daily \<Rightarrow> ''Daily'' | Weekly \<Rightarrow> ''Weekly''
            | Monthly \<Rightarrow> ''Monthly'' | Yearly \<Rightarrow> ''Yearly'')
      else ''Every '' @ int_str (interval rule) @
           (case frequency rule of Daily \<Rightarrow> '' days'' | Weekly \<Rightarrow> '' weeks''
            | Monthly \<Rightarrow> '' months'' | Yearly \<Rightarrow> '' years'')) @
     (if frequency rule = Weekly \<and> non_empty (byWeekDay rule) \<noteq> []
      then '' on '' @ join_with '', '' (map weekday_name (non_empty (byWeekDay rule))) else []) @
     (case rule_count rule of
        Some c \<Rightarrow> if c \<noteq> 0 then '', '' @ int_str c @ '' times''
                  else (case until rule of None \<Rightarrow> [] | Some u \<Rightarrow> '', until '' @ localeDate u)
      | None \<Rightarrow> (case until rule of None \<Rightarrow> [] | Some u \<Rightarrow> '', until '' @ localeDate u))"

definition plain_rule :: "recurrence_frequency \<Rightarrow> int \<Rightarrow> recurrence_rule" where
  "plain_rule f i = \<lparr>frequency = f, interval = i, rule_count = None, until = None, timezone = None,
     byWeekDay = None, byMonthDay = None, byMonth = None\<rparr>"

definition truthy_num :: "int option \<Rightarrow> int list option" where
  "truthy_num n = (case n of None \<Rightarrow> None | Some v \<Rightarrow> if v = 0 then None else Some [v])"

definition pattern_daily :: recurrence_rule where
  "pattern_daily = plain_rule Daily 1"

definition pattern_weekly :: "int list option \<Rightarrow> recurrence_rule" where
  "pattern_weekly weekdays = (plain_rule Weekly 1)\<lparr>byWeekDay := weekdays\<rparr>"

definition pattern_biweekly :: "int list option \<Rightarrow> recurrence_rule" where
  "pattern_biweekly weekdays = (plain_rule Weekly 2)\<lparr>byWeekDay := weekdays\<rparr>"

definition pattern_monthly :: "int option \<Rightarrow> recurrence_rule" where
  "pattern_monthly dayOfMonth = (plain_rule Monthly 1)\<lparr>byMonthDay := truthy_num dayOfMonth\<rparr>"

definition pattern_yearly :: "int option \<Rightarrow> int option \<Rightarrow> recurrence_rule" where
  "pattern_yearly month dayOfMonth =
     (plain_rule Yearly 1)\<lparr>byMonth := truthy_num month, byMonthDay := truthy_num dayOfMonth\<rparr>"

definition pattern_weekdays :: recurrence_rule where
  "pattern_weekdays = (plain_rule Weekly 1)\<lparr>byWeekDay := Some [1, 2, 3, 4, 5]\<rparr>"

section \<open>Date arithmetic is calendar arithmetic\<close>

lemma addUtcDays_eq: "addUtcDays t k = t + k * ms_per_day"
  by (simp add: addUtcDays_def setUTCDate_shift)

lemma full_year_id: "100 \<le> y \<Longrightarrow> full_year y = y"
  by (simp add: full_year_def)

lemma Date_UTC_midnight: "Date_UTC y m d 0 0 0 0 = make_day (full_year y) m d * ms_per_day + 0"
  by (simp add: Date_UTC_def make_time_def)

lemma utc_getters_midnight:
  "getUTCFullYear (n * ms_per_day + 0) = year_of_day n"
  "getUTCMonth (n * ms_per_day + 0) = month_of_day n"
  "getUTCDate (n * ms_per_day + 0) = date_of_day n"
  using utc_day_make [of 0 n] by (simp_all add: getUTCFullYear_def getUTCMonth_def getUTCDate_def)

lemma utc_month_bounds [simp]: "0 \<le> getUTCMonth t" "getUTCMonth t \<le> 11"
  by (simp_all add: getUTCMonth_def)

lemma utc_date_bounds:
  "1 \<le> getUTCDate t" "getUTCDate t \<le> days_in_month (getUTCFullYear t) (getUTCMonth t)"
  by (simp_all add: getUTCDate_def getUTCFullYear_def getUTCMonth_def date_of_day_bounds)

lemma make_day_last:
  assumes "0 \<le> m" "m \<le> 11"
  shows "make_day y (m + 1) 0 = make_day y m (days_in_month y m)"
proof (cases "m = 11")
  case True
  then have "make_day y (m + 1) 0 = make_day (y + 1) 0 0"
    using make_day_carry [of y 0 1 0] by simp
  with True show ?thesis
    by (simp add: make_day_in_year days_in_month_def day_from_year_Suc month_start_def Let_def)
next
  case False
  with assms show ?thesis by (simp add: make_day_in_year days_in_month_def)
qed

lemma getUtcDaysInMonth_eq:
  assumes "100 \<le> y" "0 \<le> m" "m \<le> 11"
  shows "getUtcDaysInMonth y m = days_in_month y m"
proof -
  have "getUtcDaysInMonth y m = date_of_day (make_day y (m + 1) 0)"
    using assms by (simp only: getUtcDaysInMonth_def Date_UTC_midnight utc_getters_midnight full_year_id)
  with assms days_in_month_bounds [OF assms(2,3), of y] show ?thesis
    by (simp add: make_day_last day_of_make_day)
qed

text \<open>The month a number of months away, and its year.\<close>

definition target_year :: "int \<Rightarrow> int \<Rightarrow> int" where
  "target_year t k = getUTCFullYear t + (getUTCMonth t + k) div 12"

definition target_month :: "int \<Rightarrow> int \<Rightarrow> int" where
  "target_month t k = (getUTCMonth t + k) mod 12"

lemma target_month_bounds [simp]: "0 \<le> target_month t k" "target_month t k \<le> 11"
proof -
  have "target_month t k < 12" by (simp add: target_month_def)
  then show "target_month t k \<le> 11" by linarith
qed (simp add: target_month_def)

lemma make_day_norm: "make_day y m d = make_day (y + m div 12) (m mod 12) d"
  by (simp add: make_day_def Let_def)

lemma addUtcMonths_eq:
  assumes "100 \<le> getUTCFullYear t" "0 \<le> k"
  shows "addUtcMonths t k =
    make_day (target_year t k) (target_month t k)
      (min (getUTCDate t) (days_in_month (target_year t k) (target_month t k))) * ms_per_day + ms_in_day t"
proof -
  let ?y = "target_year t k" and ?m = "target_month t k"
  have y: "100 \<le> ?y"
  proof -
    have "0 \<le> (getUTCMonth t + k) div 12" using assms(2) by (simp add: pos_imp_zdiv_nonneg_iff)
    with assms(1) show ?thesis unfolding target_year_def by linarith
  qed
  have first: "Date_UTC (getUTCFullYear t) (getUTCMonth t + k) 1 0 0 0 0 = make_day ?y ?m 1 * ms_per_day + 0"
    using assms(1) make_day_norm [of "getUTCFullYear t" "getUTCMonth t + k" 1]
    by (simp add: Date_UTC_midnight full_year_id target_year_def target_month_def)
  have dim: "1 \<le> days_in_month ?y ?m"
    using days_in_month_bounds(1) [OF target_month_bounds, of ?y t k] by linarith
  have parts: "year_of_day (make_day ?y ?m 1) = ?y" "month_of_day (make_day ?y ?m 1) = ?m"
    using dim by (simp_all add: day_of_make_day)
  have "addUtcMonths t k = Date_UTC ?y ?m (min (getUTCDate t) (days_in_month ?y ?m))
      (getUTCHours t) (getUTCMinutes t) (getUTCSeconds t) (getUTCMilliseconds t)"
    using y by (simp only: addUtcMonths_def Let_def first utc_getters_midnight parts
        getUtcDaysInMonth_eq target_month_bounds)
  also have "\<dots> = make_day ?y ?m (min (getUTCDate t) (days_in_month ?y ?m)) * ms_per_day + ms_in_day t"
    using y by (simp only: Date_UTC_def full_year_id time_of_day_parts)
  finally show ?thesis .
qed

lemma addUtcMonths_parts:
  assumes "100 \<le> getUTCFullYear t" "0 \<le> k"
  shows "getUTCFullYear (addUtcMonths t k) = target_year t k"
    "getUTCMonth (addUtcMonths t k) = target_month t k"
    "getUTCDate (addUtcMonths t k) = min (getUTCDate t) (days_in_month (target_year t k) (target_month t k))"
    "ms_in_day (addUtcMonths t k) = ms_in_day t"
proof -
  let ?d = "min (getUTCDate t) (days_in_month (target_year t k) (target_month t k))"
  have d: "1 \<le> ?d" "?d \<le> days_in_month (target_year t k) (target_month t k)"
    using utc_date_bounds(1) [of t] days_in_month_bounds(1) [OF target_month_bounds, of "target_year t k" t k]
    by linarith+
  then show "getUTCFullYear (addUtcMonths t k) = target_year t k"
    "getUTCMonth (addUtcMonths t k) = target_month t k" "getUTCDate (addUtcMonths t k) = ?d"
    "ms_in_day (addUtcMonths t k) = ms_in_day t"
    using assms
    by (simp_all only: addUtcMonths_eq getUTCFullYear_def [of "_ + _"] getUTCMonth_def [of "_ + _"]
        getUTCDate_def [of "_ + _"] utc_day_make ms_in_day_make ms_in_day_bounds
        day_of_make_day target_month_bounds)
qed

section \<open>Every occurrence is later than the one before\<close>

lemma year_less_day: "getUTCFullYear t < y \<Longrightarrow> utc_day t < day_from_year y"
proof -
  assume "getUTCFullYear t < y"
  then have "day_from_year (getUTCFullYear t + 1) \<le> day_from_year y"
    using day_from_year_less [of "getUTCFullYear t + 1" y] by (cases "getUTCFullYear t + 1 = y") auto
  with year_of_day_spec(2) [of "utc_day t"] show ?thesis by (simp add: getUTCFullYear_def)
qed

lemma year_mono: "s \<le> t \<Longrightarrow> getUTCFullYear s \<le> getUTCFullYear t"
proof (rule ccontr)
  assume "s \<le> t" and "\<not> getUTCFullYear s \<le> getUTCFullYear t"
  then have "utc_day t < day_from_year (getUTCFullYear s)"
    by (intro year_less_day) simp
  also have "\<dots> \<le> utc_day s"
    using year_of_day_spec(1) [of "utc_day s"] by (simp add: getUTCFullYear_def)
  finally show False using \<open>s \<le> t\<close> utc_day_less by force
qed

lemma scan_weekday_later: "scan_weekday ds n t = Some r \<Longrightarrow> t \<le> r"
proof (induction n arbitrary: t)
  case (Suc n)
  then show ?case
    by (auto simp: addUtcDays_eq split: if_splits dest!: Suc.IH) (use ms_per_day_pos in linarith)
qed simp

lemma target_month_count: "12 * target_year t k + target_month t k = 12 * getUTCFullYear t + getUTCMonth t + k"
  unfolding target_year_def target_month_def
  using mult_div_mod_eq [of 12 "getUTCMonth t + k"] by (simp add: algebra_simps)

lemma utc_day_eq_make: "utc_day t = make_day (getUTCFullYear t) (getUTCMonth t) (getUTCDate t)"
  by (simp add: getUTCFullYear_def getUTCMonth_def getUTCDate_def)

lemma later_month:
  assumes "100 \<le> getUTCFullYear t" "1 \<le> k" "1 \<le> d"
  shows "t < make_day (target_year t k) (target_month t k) d * ms_per_day + ms_in_day t"
proof (rule utc_day_less)
  have "utc_day t < make_day (target_year t k) (target_month t k) d"
    unfolding utc_day_eq_make
    using assms target_month_count [of t k] utc_date_bounds(2) [of t]
    by (intro make_day_month_less) simp_all
  then show "utc_day t < utc_day (make_day (target_year t k) (target_month t k) d * ms_per_day + ms_in_day t)"
    by simp
qed

lemma addUtcMonths_later:
  "100 \<le> getUTCFullYear t \<Longrightarrow> 1 \<le> k \<Longrightarrow> t < addUtcMonths t k"
  using later_month [of t k "min (getUTCDate t) (days_in_month (target_year t k) (target_month t k))"]
    utc_date_bounds(1) [of t] days_in_month_bounds(1) [OF target_month_bounds, of "target_year t k" t k]
  by (simp add: addUtcMonths_eq)

lemma clamp_day_eq:
  assumes "100 \<le> getUTCFullYear t"
  shows "clamp_day t d =
    make_day (getUTCFullYear t) (getUTCMonth t) (min d (days_in_month (getUTCFullYear t) (getUTCMonth t))) *
      ms_per_day + ms_in_day t"
  using assms by (simp add: clamp_day_def setUTCDate_def getUtcDaysInMonth_eq)

lemma clamped_ge: "1 \<le> d \<Longrightarrow> 1 \<le> min d (days_in_month (getUTCFullYear t) (getUTCMonth t))"
  using days_in_month_bounds(1) [of "getUTCMonth t" "getUTCFullYear t"] by simp

lemma target_year_ge: "0 \<le> k \<Longrightarrow> getUTCFullYear t \<le> target_year t k"
  by (simp add: target_year_def pos_imp_zdiv_nonneg_iff)

lemma clamp_later_month:
  assumes "100 \<le> getUTCFullYear t" "1 \<le> k" "1 \<le> d"
  shows "t < clamp_day (addUtcMonths t k) d"
proof -
  have "100 \<le> getUTCFullYear (addUtcMonths t k)"
    using assms target_year_ge [of k t] by (simp add: addUtcMonths_parts)
  with assms later_month [OF assms(1,2) clamped_ge [OF assms(3), of "addUtcMonths t k"]]
  show ?thesis by (simp add: clamp_day_eq addUtcMonths_parts)
qed

lemma target_year_years:
  "target_year t (i * 12) = getUTCFullYear t + i" "target_month t (i * 12) = getUTCMonth t"
  using utc_month_bounds [of t]
  by (simp_all add: target_year_def target_month_def div_pos_pos_trivial mod_pos_pos_trivial
      del: utc_month_bounds)

lemma later_year:
  assumes "getUTCFullYear t < y" "0 \<le> m" "m \<le> 11" "1 \<le> d" "d \<le> 31" and r: "0 \<le> r" "r < ms_per_day"
  shows "t < make_day y m d * ms_per_day + r"
proof (rule utc_day_less)
  have "utc_day t < make_day y m d"
    using year_less_day [OF assms(1)] make_day_year_bounds(1) [OF assms(2-5), of y] by simp
  with r show "utc_day t < utc_day (make_day y m d * ms_per_day + r)" by simp
qed

lemma year_of_make:
  assumes "0 \<le> m" "m \<le> 11" "1 \<le> d" "d \<le> 31"
  shows "getUTCFullYear (make_day y m d * ms_per_day + ms_in_day t) = y"
  using year_of_day_unique [OF make_day_year_bounds [OF assms]] by (simp add: getUTCFullYear_def)

lemma yearly_month_step:
  assumes "100 \<le> getUTCFullYear t" "1 \<le> i" "1 \<le> m" "m \<le> 12"
  defines "n \<equiv> setUTCMonth (addUtcYears t i) (m - 1)"
  shows "getUTCFullYear n = getUTCFullYear t + i" "t < n"
proof -
  let ?t = "addUtcYears t i"
  have year: "getUTCFullYear ?t = getUTCFullYear t + i"
    using assms by (simp add: addUtcYears_def addUtcMonths_parts target_year_years)
  have "getUTCDate ?t \<le> 31"
    using utc_date_bounds(2) [of ?t] days_in_month_bounds(2) [of "getUTCMonth ?t" "getUTCFullYear ?t"] by simp
  note d = utc_date_bounds(1) [of ?t] this
  have n: "n = make_day (getUTCFullYear t + i) (m - 1) (getUTCDate ?t) * ms_per_day + ms_in_day ?t"
    by (simp add: n_def setUTCMonth_def year)
  show "getUTCFullYear n = getUTCFullYear t + i"
    unfolding n using assms d by (intro year_of_make) simp_all
  show "t < n"
    unfolding n using assms d by (intro later_year) simp_all
qed

lemma clamp_later_year:
  assumes "100 \<le> getUTCFullYear n" "getUTCFullYear t < getUTCFullYear n" "1 \<le> d"
  shows "t < clamp_day n d"
proof -
  have "min d (days_in_month (getUTCFullYear n) (getUTCMonth n)) \<le> 31"
    using days_in_month_bounds(2) [of "getUTCMonth n" "getUTCFullYear n"] by simp
  with assms clamped_ge [OF assms(3), of n] show ?thesis
    by (simp only: clamp_day_eq) (rule later_year; simp)
qed

lemma valid_rule:
  assumes "validateRecurrenceRule rule = []"
  shows "1 \<le> interval rule"
    and "frequency rule = Monthly \<or> frequency rule = Yearly \<Longrightarrow> d \<in> set (non_empty (byMonthDay rule)) \<Longrightarrow> 1 \<le> d"
    and "frequency rule = Yearly \<Longrightarrow> m \<in> set (non_empty (byMonth rule)) \<Longrightarrow> 1 \<le> m \<and> m \<le> 12"
  using assms
  by (auto simp: validateRecurrenceRule_def non_empty_def list_ex_iff not_less split: option.splits if_splits)

lemma next_occurrence_later_aux:
  assumes v: "validateRecurrenceRule rule = []" and y: "100 \<le> getUTCFullYear t"
  shows "t < getNextOccurrence t rule"
proof -
  note iv = valid_rule(1) [OF v]
  have step: "t < addUtcDays t k" if "1 \<le> k" for k
    using that by (simp add: addUtcDays_eq)
  have scan: "t < d" if "scan_weekday ds n (addUtcDays t 1) = Some d" for ds n d
    using scan_weekday_later [OF that] step [of 1] by simp
  show ?thesis
  proof (cases "frequency rule")
    case Daily
    with iv scan step show ?thesis by (auto simp: getNextOccurrence_def split: option.splits)
  next
    case Weekly
    with iv scan step show ?thesis by (auto simp: getNextOccurrence_def split: option.splits)
  next
    case Monthly
    with iv y valid_rule(2) [OF v] show ?thesis
      by (auto simp: getNextOccurrence_def addUtcMonths_later clamp_later_month split: list.splits)
  next
    case Yearly
    show ?thesis
    proof (cases "non_empty (byMonth rule)")
      case Nil
      with Yearly iv y show ?thesis
        by (simp add: getNextOccurrence_def addUtcYears_def addUtcMonths_later)
    next
      case (Cons m ms)
      with valid_rule(3) [OF v Yearly, of m] have m: "1 \<le> m" "m \<le> 12" by auto
      note step = yearly_month_step [OF y iv m]
      show ?thesis
      proof (cases "non_empty (byMonthDay rule)")
        case Nil
        with Yearly Cons step(2) show ?thesis by (simp add: getNextOccurrence_def)
      next
        case (Cons d ds)
        with valid_rule(2) [OF v, of d] Yearly have "1 \<le> d" by simp
        with step(1) y iv
        have "t < clamp_day (setUTCMonth (addUtcYears t (interval rule)) (m - 1)) d"
          by (intro clamp_later_year) simp_all
        with Yearly Cons \<open>non_empty (byMonth rule) = m # ms\<close> show ?thesis
          by (simp add: getNextOccurrence_def)
      qed
    qed
  qed
qed

section \<open>The occurrence sequence\<close>

text \<open>The specification: the series as iterates of the step, and what a query keeps of it.\<close>

definition occurrence :: "recurrence_rule \<Rightarrow> int \<Rightarrow> nat \<Rightarrow> int" where
  "occurrence rule start k = ((\<lambda>t. getNextOccurrence t rule) ^^ k) start"

definition series_limit :: "recurrence_rule \<Rightarrow> nat" where
  "series_limit rule =
     (case rule_count rule of None \<Rightarrow> 1001
      | Some c \<Rightarrow> if c = 0 then 1001 else min 1001 (max 1 (nat c)))"

definition wanted :: "format_to_parts \<Rightarrow> recurrence_rule \<Rightarrow> int \<Rightarrow> int \<Rightarrow> int list \<Rightarrow> int \<Rightarrow> bool" where
  "wanted fmt rule rangeStart rangeEnd exceptions t \<longleftrightarrow>
     rangeStart \<le> t \<and> t \<le> rangeEnd \<and>
     (case until rule of None \<Rightarrow> True | Some u \<Rightarrow> not_after t u) \<and>
     \<not> isException fmt exceptions t (timezone rule)"

lemma occurrence_0 [simp]: "occurrence rule start 0 = start"
  by (simp add: occurrence_def)

lemma occurrence_Suc: "occurrence rule start (Suc k) = occurrence rule (getNextOccurrence start rule) k"
  by (simp add: occurrence_def funpow_Suc_right del: funpow.simps)

lemma occurrence_later:
  assumes v: "validateRecurrenceRule rule = []" and "100 \<le> getUTCFullYear t"
  shows "t \<le> occurrence rule t k" "0 < k \<Longrightarrow> t < occurrence rule t k"
  using assms(2)
proof (induction k arbitrary: t)
  case (Suc k)
  { case 1
    from next_occurrence_later_aux [OF v 1] have "t < getNextOccurrence t rule" .
    moreover from this 1 have "100 \<le> getUTCFullYear (getNextOccurrence t rule)"
      using year_mono [of t "getNextOccurrence t rule"] by simp
    ultimately show ?case using Suc(1) [of "getNextOccurrence t rule"] by (simp add: occurrence_Suc)
  next
    case 2
    from next_occurrence_later_aux [OF v 2(2)] have "t < getNextOccurrence t rule" .
    moreover from this 2(2) have "100 \<le> getUTCFullYear (getNextOccurrence t rule)"
      using year_mono [of t "getNextOccurrence t rule"] by simp
    ultimately show ?case using Suc(1) [of "getNextOccurrence t rule"] by (simp add: occurrence_Suc)
  }
qed simp_all

lemma year_next:
  assumes "validateRecurrenceRule rule = []" "100 \<le> getUTCFullYear t"
  shows "100 \<le> getUTCFullYear (getNextOccurrence t rule)"
  using next_occurrence_later_aux [OF assms] year_mono [of t "getNextOccurrence t rule"] assms(2) by simp

lemma occurrence_strict_mono:
  assumes v: "validateRecurrenceRule rule = []" and "100 \<le> getUTCFullYear t" "i < j"
  shows "occurrence rule t i < occurrence rule t j"
  using assms(2,3)
proof (induction i arbitrary: t j)
  case 0
  then show ?case using occurrence_later(2) [OF v] by simp
next
  case (Suc i)
  then obtain j' where "j = Suc j'" "i < j'" by (cases j) auto
  with Suc year_next [OF v] show ?case by (simp add: occurrence_Suc)
qed

lemma upt_0_Suc_map: "map f [0..<Suc n] = f 0 # map (\<lambda>k. f (Suc k)) [0..<n]"
  by (simp add: upt_conv_Cons map_Suc_upt [symmetric] del: upt_Suc)

text \<open>How many more rounds the loop makes when neither the range nor the end date stops it.\<close>

definition rounds :: "recurrence_rule \<Rightarrow> nat \<Rightarrow> int \<Rightarrow> nat" where
  "rounds rule n occurrenceCount =
     (case rule_count rule of None \<Rightarrow> n
      | Some c \<Rightarrow> if c = 0 then n else min n (nat (c - occurrenceCount)))"

lemma rounds_Suc:
  "rounds rule (Suc n) c = (if count_reached rule c then 0 else Suc (rounds rule n (c + 1)))"
  by (auto simp: rounds_def count_reached_def split: option.splits)

lemma gen_loop_spec:
  assumes v: "validateRecurrenceRule rule = []" and z: "timezone rule = None"
    and u: "until rule \<noteq> Some None" and "100 \<le> getUTCFullYear t"
  shows "map inst_date (gen_loop fmt rule eid rs re ex n t c) =
    filter (wanted fmt rule rs re ex) (map (\<lambda>k. occurrence rule t (Suc k)) [0..<rounds rule n c])"
  using assms(4)
proof (induction n arbitrary: t c)
  case 0
  then show ?case by (simp add: rounds_def split: option.splits)
next
  case (Suc n)
  let ?next = "getNextOccurrence t rule"
  have later: "?next \<le> occurrence rule ?next k" for k
    using occurrence_later(1) [OF v year_next [OF v Suc.prems]] .
  show ?case
  proof (cases "count_reached rule c")
    case True
    then show ?thesis by (simp add: rounds_Suc)
  next
    case False
    have seq: "map (\<lambda>k. occurrence rule t (Suc k)) [0..<rounds rule (Suc n) c] =
        ?next # map (\<lambda>k. occurrence rule ?next (Suc k)) [0..<rounds rule n (c + 1)]"
      using False by (simp add: rounds_Suc upt_0_Suc_map occurrence_Suc del: upt_Suc)
    show ?thesis
    proof (cases "until_passed rule ?next \<or> re < ?next")
      case True
      have "\<not> wanted fmt rule rs re ex (occurrence rule ?next k)" for k
        using True later [of k]
        by (auto simp: wanted_def until_passed_def after_def not_after_def split: option.splits)
      from this [of 0] this [of "Suc _"] True False z show ?thesis
        unfolding seq by (auto simp: fromRuleContextDate_def Let_def)
    next
      case not_done: False
      then have "wanted fmt rule rs re ex ?next \<longleftrightarrow> rs \<le> ?next \<and> \<not> isException fmt ex ?next None"
        using u z by (auto simp: wanted_def until_passed_def after_def not_after_def split: option.splits)
      with not_done False z Suc.IH [OF year_next [OF v Suc.prems], of "c + 1"] show ?thesis
        unfolding seq by (simp add: fromRuleContextDate_def Let_def)
    qed
  qed
qed

lemma series_limit_rounds: "series_limit rule = Suc (rounds rule 1000 1)"
  by (auto simp: series_limit_def rounds_def min_def max_def split: option.splits)

lemma generate_spec:
  assumes v: "validateRecurrenceRule rule = []" and z: "timezone rule = None"
    and u: "until rule \<noteq> Some None" and y: "100 \<le> getUTCFullYear (base_start ev)"
  shows "map inst_date (generate_for_rule fmt rule ev rs re ex) =
    filter (wanted fmt rule rs re ex) (map (occurrence rule (base_start ev)) [0..<series_limit rule])"
proof -
  have "map (occurrence rule (base_start ev)) [0..<series_limit rule] =
      base_start ev # map (\<lambda>k. occurrence rule (base_start ev) (Suc k)) [0..<rounds rule 1000 1]"
    by (simp add: series_limit_rounds upt_0_Suc_map del: upt_Suc)
  with gen_loop_spec [OF v z u y, of fmt "base_id ev" rs re ex 1000 1] show ?thesis
    using z
    by (simp add: generate_for_rule_def wanted_def toRuleContextDate_def fromRuleContextDate_def Let_def
        maxIterations_def split: option.splits)
qed

lemma gen_loop_sound:
  "i \<in> set (gen_loop fmt rule eid rs re ex n t c) \<Longrightarrow>
    rs \<le> inst_date i \<and> inst_date i \<le> re \<and> \<not> isException fmt ex (inst_date i) (timezone rule) \<and>
    originalEventId i = eid \<and> \<not> until_passed rule (inst_date i)"
proof (induction n arbitrary: t c)
  case (Suc n)
  then show ?case by (auto simp: Let_def split: if_splits)
qed simp

lemma gen_loop_length: "length (gen_loop fmt rule eid rs re ex n t c) \<le> rounds rule n c"
proof (induction n arbitrary: t c)
  case (Suc n)
  show ?case
    using Suc.IH [of "getNextOccurrence t rule" "c + 1"]
    by (auto simp: rounds_Suc Let_def intro: le_SucI)
qed simp

lemma generate_sound:
  assumes "i \<in> set (generate_for_rule fmt rule ev rs re ex)"
  shows "rs \<le> inst_date i \<and> inst_date i \<le> re \<and> originalEventId i = base_id ev \<and>
    (\<forall>u. until rule = Some (Some u) \<longrightarrow> inst_date i \<le> u) \<and>
    (\<forall>e \<in> set ex. \<not> isSameRuleDay fmt e (inst_date i) (timezone rule))"
proof -
  let ?loop = "gen_loop fmt rule (base_id ev) rs re ex maxIterations
    (toRuleContextDate fmt (base_start ev) (timezone rule)) 1"
  from assms consider "i \<in> set ?loop"
    | "rs \<le> inst_date i \<and> inst_date i \<le> re \<and> originalEventId i = base_id ev \<and>
       (\<forall>u. until rule = Some u \<longrightarrow> not_after (inst_date i) u) \<and>
       \<not> isException fmt ex (inst_date i) (timezone rule)"
    by (auto simp: generate_for_rule_def Let_def split: if_splits option.splits)
  then show ?thesis
  proof cases
    case 1
    from gen_loop_sound [OF this] show ?thesis
      by (auto simp: isException_def list_ex_iff until_passed_def after_def not_less split: option.splits)
  next
    case 2
    then show ?thesis by (auto simp: isException_def list_ex_iff not_after_def)
  qed
qed

lemma generate_length: "length (generate_for_rule fmt rule ev rs re ex) \<le> series_limit rule"
proof -
  have "length (gen_loop fmt rule (base_id ev) rs re ex 1000
      (toRuleContextDate fmt (base_start ev) (timezone rule)) 1) \<le> rounds rule 1000 1"
    by (rule gen_loop_length)
  then show ?thesis
    by (auto simp: generate_for_rule_def Let_def series_limit_rounds maxIterations_def)
qed

lemma daily_next: "frequency rule = Daily \<Longrightarrow> byWeekDay rule = None \<Longrightarrow>
    getNextOccurrence t rule = t + interval rule * ms_per_day"
  by (simp add: getNextOccurrence_def non_empty_def addUtcDays_eq)

lemma daily_occurrence:
  "frequency rule = Daily \<Longrightarrow> byWeekDay rule = None \<Longrightarrow>
    occurrence rule t k = t + int k * (interval rule * ms_per_day)"
  by (induction k arbitrary: t) (simp_all add: occurrence_Suc daily_next algebra_simps)

section \<open>Zones\<close>

lemma getUTCMilliseconds_shift: "1000 dvd off \<Longrightarrow> getUTCMilliseconds (t + off) = getUTCMilliseconds t"
proof -
  assume "1000 dvd off"
  moreover have "getUTCMilliseconds x = x mod 1000" for x
    by (simp add: getUTCMilliseconds_def ms_in_day_def ms_per_day_def mod_mod_cancel)
  ultimately show ?thesis by (auto simp: dvd_def)
qed

lemma partsToTimestamp_utc:
  assumes "100 \<le> getUTCFullYear t"
  shows "partsToTimestamp (getUtcParts t) (getUTCMilliseconds t) = t"
  using assms time_of_day_parts [of t] utc_day_eq_make [of t] utc_split [of t]
  by (simp add: partsToTimestamp_def getUtcParts_def Date_UTC_def full_year_id)

text \<open>One round of the correction in a zone whose wall clock is off by whole seconds.\<close>

lemma correct_guess_step:
  assumes "toRuleContextDate fmt g (Some z) = g + off" "getUTCMilliseconds g = getUTCMilliseconds d"
  shows "correct_guess fmt z (getUTCMilliseconds d) d (Suc n) g =
    (if g + off = d then g else correct_guess fmt z (getUTCMilliseconds d) d n (d - off))"
proof -
  from assms have "partsToTimestamp (parseDateParts fmt g z) (getUTCMilliseconds d) = g + off"
    by (simp add: toRuleContextDate_def)
  then show ?thesis by (auto simp: Let_def algebra_simps)
qed

section \<open>Properties of the engine\<close>

text \<open>C19: Every rule that passes \<open>validateRecurrenceRule\<close> makes progress: the next occurrence is
  strictly later than the current one, for each frequency and every combination of the
  by-rules (from the year 100 on, below which \<open>Date.UTC\<close> reads years as 19xx).\<close>

theorem next_occurrence_later:
  assumes "validateRecurrenceRule rule = []" and "100 \<le> getUTCFullYear t"
  shows "t < getNextOccurrence t rule"
  using assms by (rule next_occurrence_later_aux)

theorem next_occurrence_later_witness:
  "1767225600000 < getNextOccurrence 1767225600000 (pattern_yearly (Some 2) (Some 30))"
proof (rule next_occurrence_later)
  show "validateRecurrenceRule (pattern_yearly (Some 2) (Some 30)) = []"
    by (simp add: validateRecurrenceRule_def pattern_yearly_def plain_rule_def truthy_num_def)
  show "100 \<le> getUTCFullYear 1767225600000" by code_simp
qed

text \<open>C5: Without a time zone, \<open>generateInstances\<close> returns exactly the occurrences of the series
  that lie in the query range, are not after the end date and are not on an exception day, in
  order: the iterates of the step from the start, up to the rule's count and at most 1001 of
  them.\<close>

theorem generateInstances_refines_series:
  assumes "parseRecurrenceRule parse toDate (base_recurrence ev) = Some rule"
    and "validateRecurrenceRule rule = []" "timezone rule = None" "until rule \<noteq> Some None"
    and "100 \<le> getUTCFullYear (base_start ev)"
  shows "map inst_date (generateInstances parse toDate fmt ev rangeStart rangeEnd exceptions) =
    filter (wanted fmt rule rangeStart rangeEnd exceptions)
      (map (occurrence rule (base_start ev)) [0..<series_limit rule])"
  using assms generate_spec by (simp add: generateInstances_def)

definition demo_rule_json :: "string \<Rightarrow> jsval option" where
  "demo_rule_json s = Some (JObj [(''frequency'', JStr ''daily''), (''interval'', JNum 2), (''count'', JNum 3)])"

definition demo_event :: base_event where
  "demo_event = \<lparr>base_id = ''e'', base_start = 1767225600000, base_end = 1767229200000,
     base_recurrence = ''r''\<rparr>"

lemma demo_rule:
  "parseRecurrenceRule demo_rule_json (\<lambda>_. None) (base_recurrence demo_event) =
    Some ((plain_rule Daily 2)\<lparr>rule_count := Some 3\<rparr>)"
  by (simp add: parseRecurrenceRule_def demo_rule_json_def frequency_of_def plain_rule_def is_integer_def)

theorem generateInstances_refines_series_witness:
  "map inst_date (generateInstances demo_rule_json (\<lambda>_. None) (\<lambda>_ _. []) demo_event 0 1767400000000 []) =
    filter (wanted (\<lambda>_ _. []) ((plain_rule Daily 2)\<lparr>rule_count := Some 3\<rparr>) 0 1767400000000 [])
      (map (occurrence ((plain_rule Daily 2)\<lparr>rule_count := Some 3\<rparr>) (base_start demo_event))
        [0..<series_limit ((plain_rule Daily 2)\<lparr>rule_count := Some 3\<rparr>)])"
proof (rule generateInstances_refines_series [OF demo_rule])
  show "100 \<le> getUTCFullYear (base_start demo_event)" by code_simp
qed (simp_all add: validateRecurrenceRule_def plain_rule_def)

text \<open>The instances of a series without a time zone come in strictly increasing order, so no
  occurrence is returned twice.\<close>

lemma generateInstances_increasing:
  assumes "parseRecurrenceRule parse toDate (base_recurrence ev) = Some rule"
    and "validateRecurrenceRule rule = []" "timezone rule = None" "until rule \<noteq> Some None"
    and "100 \<le> getUTCFullYear (base_start ev)"
  shows "sorted_wrt (<) (map inst_date (generateInstances parse toDate fmt ev rangeStart rangeEnd exceptions))"
proof -
  have "sorted_wrt (<) (map (occurrence rule (base_start ev)) [0..<series_limit rule])"
    using occurrence_strict_mono [OF assms(2,5)] by (simp add: sorted_wrt_iff_nth_less)
  with assms generate_spec show ?thesis
    by (simp add: generateInstances_def sorted_wrt_filter)
qed

lemma generateInstances_increasing_witness:
  "sorted_wrt (<) (map inst_date
    (generateInstances demo_rule_json (\<lambda>_. None) (\<lambda>_ _. []) demo_event 0 1767400000000 []))"
proof (rule generateInstances_increasing [OF demo_rule])
  show "100 \<le> getUTCFullYear (base_start demo_event)" by code_simp
qed (simp_all add: validateRecurrenceRule_def plain_rule_def)

text \<open>C21: For every rule and every time zone, each instance that \<open>generateInstances\<close> returns lies
  in the query range, belongs to the queried event, is not after a valid end date and does not
  fall on an exception's calendar day; and there are at most as many as the rule's count
  allows, never more than 1001.\<close>

theorem generateInstances_sound:
  assumes "parseRecurrenceRule parse toDate (base_recurrence ev) = Some rule"
  shows "(\<forall>i \<in> set (generateInstances parse toDate fmt ev rangeStart rangeEnd exceptions).
      rangeStart \<le> inst_date i \<and> inst_date i \<le> rangeEnd \<and> originalEventId i = base_id ev \<and>
      (\<forall>u. until rule = Some (Some u) \<longrightarrow> inst_date i \<le> u) \<and>
      (\<forall>ex \<in> set exceptions. \<not> isSameRuleDay fmt ex (inst_date i) (timezone rule))) \<and>
    length (generateInstances parse toDate fmt ev rangeStart rangeEnd exceptions) \<le> series_limit rule"
  using assms generate_sound generate_length by (simp add: generateInstances_def)

theorem generateInstances_sound_witness:
  "length (generateInstances demo_rule_json (\<lambda>_. None) (\<lambda>_ _. []) demo_event 0 1767400000000 []) \<le>
    series_limit ((plain_rule Daily 2)\<lparr>rule_count := Some 3\<rparr>)"
  using generateInstances_sound [OF demo_rule] by blast

text \<open>A daily series without a count goes silent after 1001 occurrences: the loop counts its
  1000 rounds from the start of the series, not from the start of the query range, so a query
  that begins later than that returns nothing although the series never ends.\<close>

lemma daily_series_goes_silent:
  assumes "parseRecurrenceRule parse toDate (base_recurrence ev) = Some (plain_rule Daily i)"
    and "1 \<le> i" "i \<le> 999" "100 \<le> getUTCFullYear (base_start ev)"
    and "rangeStart > base_start ev + 1000 * i * ms_per_day"
  shows "generateInstances parse toDate fmt ev rangeStart rangeEnd exceptions = []"
proof -
  let ?r = "plain_rule Daily i"
  have v: "validateRecurrenceRule ?r = []" "timezone ?r = None" "until ?r \<noteq> Some None"
    using assms(2,3) by (simp_all add: validateRecurrenceRule_def plain_rule_def)
  have "\<not> wanted fmt ?r rangeStart rangeEnd exceptions (occurrence ?r (base_start ev) k)" if "k < 1001" for k
  proof -
    have "int k * (i * ms_per_day) \<le> 1000 * (i * ms_per_day)"
      using that assms(2) by (intro mult_right_mono) (simp_all add: ms_per_day_def)
    moreover have "base_start ev + 1000 * (i * ms_per_day) < rangeStart"
      using assms(5) by (simp add: mult.assoc)
    moreover have "occurrence ?r (base_start ev) k = base_start ev + int k * (i * ms_per_day)"
      by (simp add: daily_occurrence plain_rule_def)
    ultimately have "occurrence ?r (base_start ev) k < rangeStart" by linarith
    then show ?thesis by (simp add: wanted_def)
  qed
  then have "filter (wanted fmt ?r rangeStart rangeEnd exceptions)
      (map (occurrence ?r (base_start ev)) [0..<series_limit ?r]) = []"
    by (auto simp: filter_empty_conv series_limit_def plain_rule_def)
  with assms(1) generate_spec [OF v assms(4), of fmt rangeStart rangeEnd exceptions] show ?thesis
    by (simp add: generateInstances_def)
qed

definition daily_json :: "string \<Rightarrow> jsval option" where
  "daily_json s = Some (JObj [(''frequency'', JStr ''daily''), (''interval'', JNum 1)])"

lemma daily_series_goes_silent_witness:
  "generateInstances daily_json (\<lambda>_. None) (\<lambda>_ _. []) demo_event 1867225600000 1877225600000 [] = []"
proof (rule daily_series_goes_silent)
  show "parseRecurrenceRule daily_json (\<lambda>_. None) (base_recurrence demo_event) = Some (plain_rule Daily 1)"
    by (simp add: parseRecurrenceRule_def daily_json_def frequency_of_def plain_rule_def is_integer_def)
  show "100 \<le> getUTCFullYear (base_start demo_event)" by code_simp
qed (simp_all add: demo_event_def ms_per_day_def)

text \<open>A weekly rule with weekdays ignores its interval: if the start's weekday is the only
  chosen day, the next occurrence is seven days later for every interval, so an
  every-two-weeks rule repeats every week.\<close>

lemma weekly_weekdays_ignore_interval:
  assumes "frequency rule = Weekly" "byWeekDay rule = Some [getUTCDay t]" "1 \<le> interval rule"
  shows "getNextOccurrence t rule = t + 7 * ms_per_day"
proof -
  have day: "getUTCDay (t + k * ms_per_day) = (utc_day t + k + 4) mod 7" for k
    by (simp add: getUTCDay_def weekday_of_day_def utc_day_add)
  have differ: "getUTCDay (t + k * ms_per_day) \<noteq> getUTCDay t" if "1 \<le> k" "k \<le> 6" for k
  proof
    assume "getUTCDay (t + k * ms_per_day) = getUTCDay t"
    then have "(utc_day t + k + 4) mod 7 = (utc_day t + 4) mod 7"
      using day [of k] day [of 0] by simp
    then have "7 dvd k" by (simp add: mod_eq_dvd_iff)
    with that show False by (auto dest: zdvd_imp_le)
  qed
  have same: "getUTCDay (t + 7 * ms_per_day) = getUTCDay t"
    using day [of 7] day [of 0] by (simp add: mod_eq_dvd_iff)
  obtain n where n: "nat (interval rule * 7) = 7 + n"
  proof
    show "nat (interval rule * 7) = 7 + nat (interval rule * 7 - 7)" using assms(3) by simp
  qed
  have "scan_weekday [getUTCDay t] (7 + n) (addUtcDays t 1) = Some (t + 7 * ms_per_day)"
    using differ [of 1] differ [of 2] differ [of 3] differ [of 4] differ [of 5] differ [of 6] same
    by (simp add: eval_nat_numeral addUtcDays_eq algebra_simps)
  with assms n show ?thesis by (simp add: getNextOccurrence_def non_empty_def)
qed

lemma weekly_weekdays_ignore_interval_witness:
  "getNextOccurrence 1767225600000 (pattern_biweekly (Some [4])) = 1767225600000 + 7 * ms_per_day"
proof (rule weekly_weekdays_ignore_interval)
  show "byWeekDay (pattern_biweekly (Some [4])) = Some [getUTCDay 1767225600000]"
    by code_simp
qed (simp_all add: pattern_biweekly_def plain_rule_def)

text \<open>A yearly rule for day 28 of February that starts on January 31st 2026 has its second
  occurrence on March 28th 2027: the month is set while the day is still 31, which carries into
  March before the day is clamped.\<close>

lemma yearly_rule_leaves_its_month:
  "getNextOccurrence (Date_UTC 2026 0 31 0 0 0 0) (pattern_yearly (Some 2) (Some 28)) =
    Date_UTC 2027 2 28 0 0 0 0"
  by code_simp

text \<open>C20: In a zone whose offset changes once around a wall-clock time (for instance at a
  daylight-saving switch), \<open>fromRuleContextDate\<close> finds an instant at which the zone's clock
  shows that time, whenever there is one.\<close>

theorem wall_clock_round_trip:
  assumes zone: "\<And>t. \<bar>t - d\<bar> \<le> w \<Longrightarrow>
      toRuleContextDate fmt t (Some z) = t + (if t < switch then before else behind)"
    and secs: "1000 dvd before" "1000 dvd behind" "\<bar>before\<bar> \<le> w" "\<bar>behind\<bar> \<le> w"
    and exists: "\<bar>x - d\<bar> \<le> w" "toRuleContextDate fmt x (Some z) = d"
    and year: "100 \<le> getUTCFullYear d"
  shows "toRuleContextDate fmt (fromRuleContextDate fmt d (Some z)) (Some z) = d"
proof -
  let ?off = "\<lambda>t. if t < switch then before else behind"
  have ms: "getUTCMilliseconds (d - ?off t) = getUTCMilliseconds d" for t
    using getUTCMilliseconds_shift [of "- ?off t" d] secs by simp
  have near: "\<bar>d - ?off t - d\<bar> \<le> w" for t using secs by simp
  have w: "0 \<le> w" using secs by linarith
  have at_d: "toRuleContextDate fmt d (Some z) = d + ?off d" using zone [of d] w by simp
  have at1: "toRuleContextDate fmt (d - ?off d) (Some z) = d - ?off d + ?off (d - ?off d)"
    using zone [OF near [of d]] .
  have at2: "toRuleContextDate fmt (d - ?off (d - ?off d)) (Some z) =
      d - ?off (d - ?off d) + ?off (d - ?off (d - ?off d))"
    using zone [OF near [of "d - ?off d"]] .
  have x: "x + ?off x = d" using exists zone [of x] by simp
  have start: "fromRuleContextDate fmt d (Some z) = correct_guess fmt z (getUTCMilliseconds d) d 2 d"
    using partsToTimestamp_utc [OF year] by (simp add: fromRuleContextDate_def Let_def)
  show ?thesis
  proof (cases "d + ?off d = d")
    case True
    with start correct_guess_step [OF at_d refl, of 1] at_d show ?thesis by (simp add: numeral_2_eq_2)
  next
    case False
    have "correct_guess fmt z (getUTCMilliseconds d) d (Suc (Suc 0)) d =
        correct_guess fmt z (getUTCMilliseconds d) d (Suc 0) (d - ?off d)"
      using False correct_guess_step [OF at_d refl, of "Suc 0"] by simp
    also have "\<dots> = (if d - ?off d + ?off (d - ?off d) = d then d - ?off d else d - ?off (d - ?off d))"
      using correct_guess_step [OF at1 ms, of 0] by simp
    finally have g: "fromRuleContextDate fmt d (Some z) =
        (if d - ?off d + ?off (d - ?off d) = d then d - ?off d else d - ?off (d - ?off d))"
      using start by (simp add: numeral_2_eq_2)
    show ?thesis
    proof (cases "d - ?off d + ?off (d - ?off d) = d")
      case True
      with g at1 show ?thesis by simp
    next
      case False
      then have "?off (d - ?off (d - ?off d)) = ?off (d - ?off d)"
        using x by (auto split: if_splits)
      with False g at2 show ?thesis by simp
    qed
  qed
qed

text \<open>The offset of Amsterdam around the switch to summer time on March 29th 2026.\<close>

definition amsterdam_2026 :: "int \<Rightarrow> int" where
  "amsterdam_2026 t = (if t < 1774746000000 then 3600000 else 7200000)"

lemma utc_time_nonneg: "0 \<le> getUTCHours t" "0 \<le> getUTCMinutes t" "0 \<le> getUTCSeconds t"
  by (simp_all add: getUTCHours_def getUTCMinutes_def getUTCSeconds_def pos_imp_zdiv_nonneg_iff)

lemma clock_fmt_shows:
  assumes "100 \<le> getUTCFullYear (t + off t)" "1000 dvd off t"
  shows "toRuleContextDate (clock_fmt off) t (Some z) = t + off t"
proof -
  have "parseDateParts (clock_fmt off) t z = getUtcParts (t + off t)"
    using assms(1) utc_date_bounds(1) [of "t + off t"] utc_month_bounds(1) [of "t + off t"]
      utc_time_nonneg [of "t + off t"]
    by (simp add: parseDateParts_def clock_fmt_def Let_def part_number_def opt_or_def getUtcParts_def
        parse_int10_int_str del: utc_month_bounds)
  then show ?thesis
    using assms partsToTimestamp_utc [of "t + off t"] getUTCMilliseconds_shift [of "off t" t]
    by (simp add: toRuleContextDate_def)
qed

theorem wall_clock_round_trip_witness:
  "toRuleContextDate (clock_fmt amsterdam_2026)
    (fromRuleContextDate (clock_fmt amsterdam_2026) 1774753200000 (Some ''Europe/Amsterdam''))
    (Some ''Europe/Amsterdam'') = 1774753200000"
proof (rule wall_clock_round_trip [where w = 7200000 and switch = 1774746000000
      and before = 3600000 and behind = 7200000 and x = 1774746000000])
  have year: "100 \<le> getUTCFullYear 1774700000000" by code_simp
  show clock: "toRuleContextDate (clock_fmt amsterdam_2026) t (Some ''Europe/Amsterdam'') =
      t + (if t < 1774746000000 then 3600000 else 7200000)" if "\<bar>t - 1774753200000\<bar> \<le> 7200000" for t
    using year_mono [of 1774700000000 "t + amsterdam_2026 t"] year that
    by (subst clock_fmt_shows) (auto simp: amsterdam_2026_def)
  show "toRuleContextDate (clock_fmt amsterdam_2026) 1774746000000 (Some ''Europe/Amsterdam'') = 1774753200000"
    by (subst clock) simp_all
  show "100 \<le> getUTCFullYear 1774753200000" by code_simp
qed simp_all

end
