(* ===== verification/Timezone.thy ===== *)
theory Timezone
  imports JsValue JsDate "HOL-Library.Monad_Syntax"
begin

text \<open>
  Zoned dates, \<open>packages/calendar-core/src/timezone.ts\<close>.

  Instants are time values. A \<^emph>\<open>picker date\<close> is a \<open>Date\<close> of which only the local calendar day
  is used; it is the number of that day, counted as in \<open>JsDate\<close>. What the platform,
  \<open>date-fns\<close> and \<open>date-fns-tz\<close> provide is the record \<open>date_env\<close>, an argument of every
  definition that uses it. A computation that throws (\<open>Intl\<close> rejects a zone) has the value
  \<open>None\<close>.
\<close>

section \<open>The environment\<close>

type_synonym pday = int

record date_env =
  intl_accepts :: "string \<Rightarrow> bool"
  hostTimeZone :: "string option"
  formatToParts :: format_to_parts
  localWall :: "int \<Rightarrow> int"
  localDay :: "int \<Rightarrow> pday"
  fromZonedTime :: "int \<Rightarrow> string \<Rightarrow> int"
  formatInTimeZone :: "int \<Rightarrow> string \<Rightarrow> string \<Rightarrow> string"
  formatLocal :: "pday \<Rightarrow> string \<Rightarrow> string"
  addDays :: "pday \<Rightarrow> int \<Rightarrow> pday"
  startOfDay :: "pday \<Rightarrow> int"
  startOfWeek :: "pday \<Rightarrow> int \<Rightarrow> pday"
  endOfWeek :: "pday \<Rightarrow> int \<Rightarrow> pday"
  eachDayOfInterval :: "pday \<Rightarrow> pday \<Rightarrow> pday list"
  differenceInCalendarDays :: "pday \<Rightarrow> pday \<Rightarrow> int"

text \<open>
  \<open>localWall w\<close> is the wall-clock time that a \<open>Date\<close> made from the local components \<open>w\<close> shows:
  \<open>w\<close> itself, except for a time that the host's own zone skips. \<open>localDay t\<close> is the local day of
  an instant. \<open>fromZonedTime w tz\<close> is given the components its \<open>Date\<close> argument shows.
\<close>

section \<open>Resolving a zone\<close>

definition DEFAULT_CALENDAR_TIMEZONE :: string where
  "DEFAULT_CALENDAR_TIMEZONE = ''Europe/Amsterdam''"

definition getDeviceTimezone :: "date_env \<Rightarrow> string" where
  "getDeviceTimezone env =
     (case hostTimeZone env of
        None \<Rightarrow> DEFAULT_CALENDAR_TIMEZONE
      | Some z \<Rightarrow>
          let timezone = trim z
          in if timezone \<noteq> [] \<and> intl_accepts env timezone then timezone
             else DEFAULT_CALENDAR_TIMEZONE)"

text \<open>The support of each zone is asked once and kept in a cache.\<close>

definition isRuntimeTimezone ::
  "date_env \<Rightarrow> (string \<rightharpoonup> bool) \<Rightarrow> string \<Rightarrow> bool \<times> (string \<rightharpoonup> bool)" where
  "isRuntimeTimezone env cache timezone =
     (case cache timezone of
        Some supported \<Rightarrow> (supported, cache)
      | None \<Rightarrow> let supported = intl_accepts env timezone
                in (supported, cache(timezone \<mapsto> supported)))"

definition resolveTimezone_cached ::
  "date_env \<Rightarrow> (string \<rightharpoonup> bool) \<Rightarrow> string option \<Rightarrow> string \<times> (string \<rightharpoonup> bool)" where
  "resolveTimezone_cached env cache timezone =
     (let trimmed = (case timezone of None \<Rightarrow> [] | Some z \<Rightarrow> trim z)
      in if trimmed = [] then (DEFAULT_CALENDAR_TIMEZONE, cache)
         else let (supported, cache') = isRuntimeTimezone env cache trimmed
              in (if supported then trimmed else DEFAULT_CALENDAR_TIMEZONE, cache'))"

text \<open>The value of \<open>resolveTimezone\<close>, the cache left out (see \<open>resolveTimezone_cache\<close> below).\<close>

definition resolveTimezone :: "date_env \<Rightarrow> string option \<Rightarrow> string" where
  "resolveTimezone env timezone =
     (let trimmed = (case timezone of None \<Rightarrow> [] | Some z \<Rightarrow> trim z)
      in if trimmed \<noteq> [] \<and> intl_accepts env trimmed then trimmed else DEFAULT_CALENDAR_TIMEZONE)"

record account_settings =
  set_timezone :: string
  set_createdAt :: "int option"
  set_updatedAt :: "int option"

definition shouldSeedAccountTimezone :: "account_settings \<Rightarrow> bool" where
  "shouldSeedAccountTimezone settings =
     (if trim (set_timezone settings) \<noteq> ''UTC'' then False
      else case (set_createdAt settings, set_updatedAt settings) of
             (Some created, Some updated) \<Rightarrow> \<bar>created - updated\<bar> < 1000
           | _ \<Rightarrow> False)"

definition getAccountTimezoneSeed :: "date_env \<Rightarrow> account_settings \<Rightarrow> string option" where
  "getAccountTimezoneSeed env settings =
     (if \<not> shouldSeedAccountTimezone settings then None
      else let deviceTimezone = getDeviceTimezone env
           in if deviceTimezone = set_timezone settings then None else Some deviceTimezone)"

section \<open>Zoned parts\<close>

record zoned_date_parts =
  z_year :: int
  z_month :: int
  z_day :: int
  z_hours :: int
  z_minutes :: int
  z_seconds :: int

text \<open>The number of the first part of a type; \<open>None\<close> when it is not a number.\<close>

definition read_part :: "(string \<times> string) list \<Rightarrow> string \<Rightarrow> int option" where
  "read_part parts ty =
     parse_int10 (case map_of parts ty of None \<Rightarrow> ''0'' | Some v \<Rightarrow> v)"

definition getZonedDateParts :: "date_env \<Rightarrow> int \<Rightarrow> string \<Rightarrow> zoned_date_parts option" where
  "getZonedDateParts env date timezone =
     (if \<not> intl_accepts env timezone then None
      else do {
        let parts = formatToParts env timezone date;
        hour \<leftarrow> read_part parts ''hour'';
        year \<leftarrow> read_part parts ''year'';
        month \<leftarrow> read_part parts ''month'';
        day \<leftarrow> read_part parts ''day'';
        minute \<leftarrow> read_part parts ''minute'';
        second \<leftarrow> read_part parts ''second'';
        Some \<lparr>z_year = year, z_month = month, z_day = day, z_hours = js_rem hour 24,
              z_minutes = minute, z_seconds = second\<rparr>
      })"

text \<open>
  \<open>new Date(y, m, d, h, mi, s, 0)\<close> shows the components that \<open>Date.UTC\<close> would give, the years
  0 to 99 read as 1900 to 1999, unless the host's clock skips them.
\<close>

definition zonedDateTimeToUtc ::
  "date_env \<Rightarrow> int \<Rightarrow> int \<Rightarrow> int \<Rightarrow> int \<Rightarrow> int \<Rightarrow> int \<Rightarrow> string \<Rightarrow> int" where
  "zonedDateTimeToUtc env year month day hours minutes seconds timezone =
     fromZonedTime env (localWall env (Date_UTC year (month - 1) day hours minutes seconds 0)) timezone"

definition new_picker :: "int \<Rightarrow> int \<Rightarrow> int \<Rightarrow> pday" where
  "new_picker year month day = make_day (full_year year) month day"

definition utcToPickerDate :: "date_env \<Rightarrow> int \<Rightarrow> string \<Rightarrow> pday option" where
  "utcToPickerDate env utc timezone = do {
     p \<leftarrow> getZonedDateParts env utc timezone;
     Some (new_picker (z_year p) (z_month p - 1) (z_day p))
   }"

definition formatWallClockTime :: "date_env \<Rightarrow> int \<Rightarrow> string \<Rightarrow> string" where
  "formatWallClockTime env date timezone = formatInTimeZone env date timezone ''HH:mm''"

definition formatInUserTimezone :: "date_env \<Rightarrow> int \<Rightarrow> string \<Rightarrow> string \<Rightarrow> string" where
  "formatInUserTimezone env date timezone pattern = formatInTimeZone env date timezone pattern"

definition wallClockToUtc :: "date_env \<Rightarrow> pday \<Rightarrow> int \<Rightarrow> int \<Rightarrow> string \<Rightarrow> int" where
  "wallClockToUtc env calendarDay hours minutes timezone =
     zonedDateTimeToUtc env (year_of_day calendarDay) (month_of_day calendarDay + 1)
       (date_of_day calendarDay) hours minutes 0 timezone"

text \<open>\<open>Number\<close> of each field; not a number makes the date invalid, fractions are cut off.\<close>

definition js_trunc :: "rat \<Rightarrow> int" where
  "js_trunc q = (if q < 0 then \<lceil>q\<rceil> else \<lfloor>q\<rfloor>)"

definition pickerDateAndTimeToUtc :: "date_env \<Rightarrow> pday \<Rightarrow> string \<Rightarrow> string \<Rightarrow> int option" where
  "pickerDateAndTimeToUtc env pickerDate timeHHMM timezone =
     (let fields = map js_number (split_on (CHR '':'') timeHHMM);
          hours = (case fields of [] \<Rightarrow> Some 0 | h # _ \<Rightarrow> h);
          minutes = (case fields of _ # m # _ \<Rightarrow> m | _ \<Rightarrow> Some 0)
      in do {
        h \<leftarrow> hours;
        m \<leftarrow> minutes;
        Some (wallClockToUtc env pickerDate (js_trunc h) (js_trunc m) timezone)
      })"

definition pickerDateToAllDayUtcRange ::
  "date_env \<Rightarrow> pday \<Rightarrow> pday \<Rightarrow> string option \<Rightarrow> int \<times> int" where
  "pickerDateToAllDayUtcRange env pickerStart pickerEnd timezone =
     (let resolvedTimezone = resolveTimezone env timezone;
          start = wallClockToUtc env pickerStart 0 0 resolvedTimezone;
          endAt = zonedDateTimeToUtc env (year_of_day pickerEnd) (month_of_day pickerEnd + 1)
                   (date_of_day pickerEnd) 23 59 59 resolvedTimezone
      in (start, endAt))"

definition isStartOfZonedDay :: "date_env \<Rightarrow> int \<Rightarrow> string \<Rightarrow> bool option" where
  "isStartOfZonedDay env instant timezone = do {
     p \<leftarrow> getZonedDateParts env instant timezone;
     Some (z_hours p = 0 \<and> z_minutes p = 0 \<and> z_seconds p = 0)
   }"

definition comparePickerDays :: "pday \<Rightarrow> pday \<Rightarrow> int" where
  "comparePickerDays left right =
     (let yearDelta = year_of_day left - year_of_day right in
      if yearDelta \<noteq> 0 then yearDelta
      else let monthDelta = month_of_day left - month_of_day right in
           if monthDelta \<noteq> 0 then monthDelta
           else date_of_day left - date_of_day right)"

definition isSamePickerDay :: "pday \<Rightarrow> pday \<Rightarrow> bool" where
  "isSamePickerDay left right \<longleftrightarrow> comparePickerDays left right = 0"

section \<open>The days of an event\<close>

definition isUtcMidnight :: "int \<Rightarrow> bool" where
  "isUtcMidnight instant \<longleftrightarrow>
     getUTCHours instant = 0 \<and> getUTCMinutes instant = 0 \<and> getUTCSeconds instant = 0 \<and>
     getUTCMilliseconds instant = 0"

record calendar_day_range_options =
  opt_allDay :: bool
  opt_eventTimezone :: "string option"

definition isUtcEndOfDay :: "int \<Rightarrow> bool" where
  "isUtcEndOfDay instant \<longleftrightarrow>
     getUTCHours instant = 23 \<and> getUTCMinutes instant = 59 \<and> getUTCSeconds instant = 59"

definition getAllDayEventTimezone ::
  "date_env \<Rightarrow> int \<Rightarrow> int \<Rightarrow> string \<Rightarrow> string option \<Rightarrow> string" where
  "getAllDayEventTimezone env start endAt viewerTimezone eventTimezone =
     (if isUtcMidnight start \<and> (isUtcMidnight endAt \<or> isUtcEndOfDay endAt) then ''UTC''
      else let trimmed = (case eventTimezone of None \<Rightarrow> [] | Some z \<Rightarrow> trim z)
           in resolveTimezone env (Some (if trimmed \<noteq> [] then trimmed else viewerTimezone)))"

definition getInclusiveCalendarDayRange ::
  "date_env \<Rightarrow> int \<Rightarrow> int \<Rightarrow> string \<Rightarrow> calendar_day_range_options option \<Rightarrow> (pday \<times> pday) option" where
  "getInclusiveCalendarDayRange env rawStart rawEnd timezone options =
     (if (case options of None \<Rightarrow> False | Some opts \<Rightarrow> opt_allDay opts) then do {
        let allDayTimezone = getAllDayEventTimezone env rawStart rawEnd timezone
              (Option.bind options opt_eventTimezone);
        firstDay \<leftarrow> utcToPickerDate env rawStart allDayTimezone;
        if rawEnd \<le> rawStart then Some (firstDay, firstDay)
        else do {
          endPickerDay \<leftarrow> utcToPickerDate env rawEnd allDayTimezone;
          if isSamePickerDay firstDay endPickerDay then Some (firstDay, firstDay)
          else do {
            atMidnight \<leftarrow> isStartOfZonedDay env rawEnd allDayTimezone;
            if atMidnight \<or> isUtcMidnight rawEnd then Some (firstDay, addDays env endPickerDay (-1))
            else Some (firstDay, endPickerDay)
          }
        }
      }
      else do {
        let resolvedTimezone = resolveTimezone env (Some timezone);
        firstDay \<leftarrow> utcToPickerDate env rawStart resolvedTimezone;
        lastInstant \<leftarrow>
          (if rawEnd > rawStart then do {
             atMidnight \<leftarrow> isStartOfZonedDay env rawEnd resolvedTimezone;
             Some (if atMidnight then rawEnd - 1 else rawEnd)
           }
           else Some rawEnd);
        lastDay \<leftarrow> utcToPickerDate env lastInstant resolvedTimezone;
        Some (firstDay, lastDay)
      })"

definition spansMultipleCalendarDays ::
  "date_env \<Rightarrow> int \<Rightarrow> int \<Rightarrow> string \<Rightarrow> calendar_day_range_options option \<Rightarrow> bool option" where
  "spansMultipleCalendarDays env start endAt timezone options = do {
     (firstDay, lastDay) \<leftarrow> getInclusiveCalendarDayRange env start endAt timezone options;
     Some (\<not> isSamePickerDay firstDay lastDay)
   }"

definition isSameCalendarDayInTimezone :: "date_env \<Rightarrow> int \<Rightarrow> pday \<Rightarrow> string \<Rightarrow> bool option" where
  "isSameCalendarDayInTimezone env instant calendarDay timezone = do {
     p \<leftarrow> getZonedDateParts env instant timezone;
     Some (z_year p = year_of_day calendarDay \<and> z_month p = month_of_day calendarDay + 1 \<and>
           z_day p = date_of_day calendarDay)
   }"

text \<open>\<open>now\<close> is the value of \<open>new Date()\<close>.\<close>

definition isTodayInTimezone :: "date_env \<Rightarrow> int \<Rightarrow> pday \<Rightarrow> string \<Rightarrow> bool option" where
  "isTodayInTimezone env now calendarDay timezone = do {
     today \<leftarrow> utcToPickerDate env now timezone;
     Some (year_of_day calendarDay = year_of_day today \<and> month_of_day calendarDay = month_of_day today \<and>
           date_of_day calendarDay = date_of_day today)
   }"

section \<open>Weeks and days\<close>

definition getWeekCalendarDays :: "date_env \<Rightarrow> int \<Rightarrow> int \<Rightarrow> string \<Rightarrow> pday list option" where
  "getWeekCalendarDays env currentDate weekStartDay timezone = do {
     anchor \<leftarrow> utcToPickerDate env currentDate timezone;
     let weekStartsOn = js_rem (js_rem weekStartDay 7 + 7) 7;
     let weekStart = startOfWeek env anchor weekStartsOn;
     let weekEnd = endOfWeek env anchor weekStartsOn;
     Some (eachDayOfInterval env weekStart weekEnd)
   }"

definition getWeekCalendarRange ::
  "date_env \<Rightarrow> int \<Rightarrow> int \<Rightarrow> string option \<Rightarrow> (pday \<times> pday) option" where
  "getWeekCalendarRange env currentDate weekStartDay timezone = do {
     days \<leftarrow> getWeekCalendarDays env currentDate weekStartDay (resolveTimezone env timezone);
     Some (if days = [] then (localDay env currentDate, localDay env currentDate)
           else (hd days, last days))
   }"

definition getZonedDayUtcBounds :: "date_env \<Rightarrow> pday \<Rightarrow> string \<Rightarrow> int \<times> int" where
  "getZonedDayUtcBounds env calendarDay timezone =
     (let start = wallClockToUtc env calendarDay 0 0 timezone;
          nextCalendarDay = addDays env calendarDay 1;
          endAt = wallClockToUtc env nextCalendarDay 0 0 timezone
      in (start, endAt))"

definition eventOverlapsZonedCalendarDay ::
  "date_env \<Rightarrow> int \<Rightarrow> int \<Rightarrow> pday \<Rightarrow> string \<Rightarrow> calendar_day_range_options option \<Rightarrow> bool option" where
  "eventOverlapsZonedCalendarDay env eventStart eventEnd calendarDay timezone options =
     (if (case options of None \<Rightarrow> False | Some opts \<Rightarrow> opt_allDay opts) then do {
        (firstDay, lastDay) \<leftarrow> getInclusiveCalendarDayRange env eventStart eventEnd timezone options;
        let dayTime = startOfDay env calendarDay;
        let firstTime = startOfDay env firstDay;
        let lastTime = startOfDay env lastDay;
        Some (dayTime \<ge> firstTime \<and> dayTime \<le> lastTime)
      }
      else let (dayStart, dayEnd) = getZonedDayUtcBounds env calendarDay timezone
           in Some (eventStart < dayEnd \<and> eventEnd > dayStart))"

section \<open>Day keys\<close>

definition formatCalendarDayKey :: "pday \<Rightarrow> string" where
  "formatCalendarDayKey calendarDay =
     (let year = year_of_day calendarDay;
          month = pad_zero 2 (int_str (month_of_day calendarDay + 1));
          day = pad_zero 2 (int_str (date_of_day calendarDay))
      in int_str year @ ''-'' @ month @ ''-'' @ day)"

definition formatCalendarMonthKey :: "pday \<Rightarrow> string" where
  "formatCalendarMonthKey calendarDay =
     (let year = year_of_day calendarDay;
          month = pad_zero 2 (int_str (month_of_day calendarDay + 1))
      in int_str year @ ''-'' @ month)"

definition formatCalendarWeekKey ::
  "date_env \<Rightarrow> int \<Rightarrow> int \<Rightarrow> string option \<Rightarrow> string option" where
  "formatCalendarWeekKey env calendarDay weekStartDay timezone = do {
     days \<leftarrow> getWeekCalendarDays env calendarDay weekStartDay (resolveTimezone env timezone);
     let day_at = (\<lambda>i. if i < length days then days ! i else localDay env calendarDay);
     Some (formatCalendarDayKey (day_at 0) @ '':'' @ formatCalendarDayKey (day_at 6))
   }"

definition formatInstantCalendarDayKey :: "date_env \<Rightarrow> int \<Rightarrow> string option \<Rightarrow> string" where
  "formatInstantCalendarDayKey env instant timezone =
     formatInTimeZone env instant (resolveTimezone env timezone) ''yyyy-MM-dd''"

definition formatInstantCalendarMonthKey :: "date_env \<Rightarrow> int \<Rightarrow> string option \<Rightarrow> string" where
  "formatInstantCalendarMonthKey env instant timezone =
     formatInTimeZone env instant (resolveTimezone env timezone) ''yyyy-MM''"

text \<open>The pattern is four digits, a dash, two digits, a dash and two digits.\<close>

definition parseCalendarDayKey :: "string \<Rightarrow> pday option" where
  "parseCalendarDayKey value =
     (let y = take 4 value; m = slice 5 7 value; d = slice 8 10 value in
      if length value = 10 \<and> list_all is_digit y \<and> value ! 4 = CHR ''-'' \<and> list_all is_digit m \<and>
         value ! 7 = CHR ''-'' \<and> list_all is_digit d
      then Some (new_picker (int (nat_of_digits y)) (int (nat_of_digits m) - 1) (int (nat_of_digits d)))
      else None)"

definition wallClockFromCalendarDayKey ::
  "date_env \<Rightarrow> string \<Rightarrow> int \<Rightarrow> int \<Rightarrow> string \<Rightarrow> int option" where
  "wallClockFromCalendarDayKey env dayKey hours minutes timezone = do {
     calendarDay \<leftarrow> parseCalendarDayKey dayKey;
     Some (wallClockToUtc env calendarDay hours minutes timezone)
   }"

section \<open>Facts about picker days\<close>

lemma comparePickerDays_cases:
  "a < b \<Longrightarrow> comparePickerDays a b < 0" "b < a \<Longrightarrow> 0 < comparePickerDays a b"
proof -
  have later: "x < y" if "12 * year_of_day x + month_of_day x < 12 * year_of_day y + month_of_day y" for x y
    using make_day_month_less [OF that, of "date_of_day x" "date_of_day y"] date_of_day_bounds [of x] date_of_day_bounds [of y] by simp
  have same: "x - y = date_of_day x - date_of_day y"
    if "year_of_day x = year_of_day y" "month_of_day x = month_of_day y" for x y
    using make_day_of_day [of x] make_day_of_day [of y] that
      make_day_add [of "year_of_day y" "month_of_day y" "date_of_day y" "date_of_day x - date_of_day y"]
    by simp
  have order: "12 * year_of_day x + month_of_day x \<le> 12 * year_of_day y + month_of_day y" if "x < y" for x y
    using later [of y x] that by linarith
  have years: "year_of_day x \<le> year_of_day y" if "x < y" for x y
    using order [OF that] month_of_day_bounds [of x] month_of_day_bounds [of y] by linarith
  have less: "comparePickerDays x y < 0 \<and> 0 < comparePickerDays y x" if "x < y" for x y
    using order [OF that] years [OF that] same [of x y] that
    by (auto simp: comparePickerDays_def Let_def)
  show "a < b \<Longrightarrow> comparePickerDays a b < 0" "b < a \<Longrightarrow> 0 < comparePickerDays a b"
    using less by blast+
qed

lemma comparePickerDays_self [simp]: "comparePickerDays a a = 0"
  by (simp add: comparePickerDays_def)

lemma comparePickerDays_iff [simp]:
  "comparePickerDays a b < 0 \<longleftrightarrow> a < b" "comparePickerDays a b > 0 \<longleftrightarrow> b < a"
  "comparePickerDays a b = 0 \<longleftrightarrow> a = b"
proof -
  have "(comparePickerDays a b < 0 \<longleftrightarrow> a < b) \<and> (comparePickerDays a b > 0 \<longleftrightarrow> b < a) \<and>
      (comparePickerDays a b = 0 \<longleftrightarrow> a = b)"
    using comparePickerDays_cases(1) [of a b] comparePickerDays_cases(2) [of b a]
    by (cases a b rule: linorder_cases) auto
  then show "comparePickerDays a b < 0 \<longleftrightarrow> a < b" "comparePickerDays a b > 0 \<longleftrightarrow> b < a"
    "comparePickerDays a b = 0 \<longleftrightarrow> a = b" by blast+
qed

lemma comparePickerDays_le [simp]: "comparePickerDays a b \<le> 0 \<longleftrightarrow> a \<le> b"
  by (metis comparePickerDays_iff(2) not_less)

lemma isSamePickerDay_iff [simp]: "isSamePickerDay a b \<longleftrightarrow> a = b"
  by (simp add: isSamePickerDay_def)

interpretation picker_days: js_comparator comparePickerDays
  by unfold_locales (auto simp: not_le)

lemma year_of_day_nonneg:
  assumes "0 \<le> d"
  shows "1970 \<le> year_of_day d"
proof (rule ccontr)
  assume "\<not> 1970 \<le> year_of_day d"
  then have "day_from_year (year_of_day d + 1) \<le> day_from_year 1970"
    using day_from_year_less [of "year_of_day d + 1" 1970] by (cases "year_of_day d + 1 = 1970") auto
  with year_of_day_spec(2) [of d] assms show False by (simp add: day_from_year_def)
qed

lemma new_picker_of_day:
  "100 \<le> year_of_day d \<Longrightarrow> new_picker (year_of_day d) (month_of_day d) (date_of_day d) = d"
  by (simp add: new_picker_def full_year_def)

lemma Date_UTC_of_day:
  "100 \<le> year_of_day d \<Longrightarrow>
    Date_UTC (year_of_day d) (month_of_day d) (date_of_day d) h mi s 0 = d * ms_per_day + make_time h mi s 0"
  by (simp add: Date_UTC_def full_year_def)

section \<open>Resolution\<close>

definition cache_ok :: "date_env \<Rightarrow> (string \<rightharpoonup> bool) \<Rightarrow> bool" where
  "cache_ok env cache \<longleftrightarrow> (\<forall>tz b. cache tz = Some b \<longrightarrow> b = intl_accepts env tz)"

lemma resolveTimezone_cache:
  assumes "cache_ok env cache"
  shows "fst (resolveTimezone_cached env cache tz) = resolveTimezone env tz"
    "cache_ok env (snd (resolveTimezone_cached env cache tz))"
  using assms
  by (auto simp: resolveTimezone_cached_def resolveTimezone_def isRuntimeTimezone_def cache_ok_def
      Let_def split: option.splits)

lemma resolveTimezone_accepted:
  "intl_accepts env DEFAULT_CALENDAR_TIMEZONE \<Longrightarrow> intl_accepts env (resolveTimezone env tz)"
  by (simp add: resolveTimezone_def Let_def)

lemma trim_default: "trim DEFAULT_CALENDAR_TIMEZONE = DEFAULT_CALENDAR_TIMEZONE"
  by code_simp

lemma resolveTimezone_idem [simp]:
  "resolveTimezone env (Some (resolveTimezone env tz)) = resolveTimezone env tz"
  by (auto simp: resolveTimezone_def Let_def trim_default split: option.splits)

lemma resolveTimezone_known:
  "intl_accepts env tz \<Longrightarrow> trim tz = tz \<Longrightarrow> tz \<noteq> [] \<Longrightarrow> resolveTimezone env (Some tz) = tz"
  by (simp add: resolveTimezone_def)

section \<open>What the platform promises\<close>

text \<open>
  The parts that \<open>formatToParts\<close> gives are those of a wall-clock time \<open>w\<close>; the hour may be 24
  for 0.
\<close>

definition shows_clock :: "(string \<times> string) list \<Rightarrow> int \<Rightarrow> bool" where
  "shows_clock parts w \<longleftrightarrow>
     read_part parts ''year'' = Some (getUTCFullYear w) \<and>
     read_part parts ''month'' = Some (getUTCMonth w + 1) \<and>
     read_part parts ''day'' = Some (getUTCDate w) \<and>
     (\<exists>h. read_part parts ''hour'' = Some h \<and> js_rem h 24 = getUTCHours w) \<and>
     read_part parts ''minute'' = Some (getUTCMinutes w) \<and>
     read_part parts ''second'' = Some (getUTCSeconds w)"

text \<open>
  A zone: \<open>wall t\<close> is what its clock shows at the instant \<open>t\<close>. \<open>Intl\<close> knows the zone and formats
  its clock, and \<open>fromZonedTime\<close> gives, for a wall-clock time that the clock does show, an instant
  at which it shows it. Nothing is asked for a time that the clock skips: in some zones
  (Africa/Cairo, America/Havana, America/Santiago) summer time starts at midnight and the
  midnight of that day does not exist. What a theorem needs of the days it is about is among its
  hypotheses, as one of the following, each a fact of the zone's clock alone.
\<close>

definition zone_laws :: "date_env \<Rightarrow> string \<Rightarrow> (int \<Rightarrow> int) \<Rightarrow> bool" where
  "zone_laws env tz wall \<longleftrightarrow>
     intl_accepts env tz \<and> trim tz = tz \<and> tz \<noteq> [] \<and>
     (\<forall>t. 0 \<le> wall t \<longrightarrow> shows_clock (formatToParts env tz t) (wall t)) \<and>
     (\<forall>t. 0 \<le> wall t \<longrightarrow> wall (fromZonedTime env (wall t) tz) = wall t)"

text \<open>At the instant \<open>t\<close> the clock is less than a day from UTC, by whole minutes (every zone since
  1972).\<close>

definition zone_offset :: "(int \<Rightarrow> int) \<Rightarrow> int \<Rightarrow> bool" where
  "zone_offset wall t \<longleftrightarrow> \<bar>wall t - t\<bar> < ms_per_day \<and> 60000 dvd wall t - t"

text \<open>From 1970 on the clock is never set back by as much as 23:59:59 hours.\<close>

definition small_setbacks :: "(int \<Rightarrow> int) \<Rightarrow> bool" where
  "small_setbacks wall \<longleftrightarrow> (\<forall>t u. 0 \<le> wall t \<and> t \<le> u \<longrightarrow> wall t < wall u + 86399000)"

text \<open>Day \<open>d\<close> begins when the clock shows midnight: it shows it once, and less before and more
  after.\<close>

definition clean_midnight :: "(int \<Rightarrow> int) \<Rightarrow> pday \<Rightarrow> bool" where
  "clean_midnight wall d \<longleftrightarrow>
     (\<exists>m. wall m = d * ms_per_day \<and> (\<forall>t<m. wall t < d * ms_per_day) \<and> (\<forall>t>m. d * ms_per_day < wall t))"

text \<open>What \<open>date-fns\<close> counts, whatever the host's own zone.\<close>

definition calendar_laws :: "date_env \<Rightarrow> bool" where
  "calendar_laws env \<longleftrightarrow>
     (\<forall>d n. addDays env d n = d + n) \<and> (\<forall>d e. differenceInCalendarDays env d e = d - e) \<and>
     (\<forall>d e. startOfDay env d \<le> startOfDay env e \<longleftrightarrow> d \<le> e)"

lemma utc_time_parts:
  "make_time (getUTCHours t) (getUTCMinutes t) (getUTCSeconds t) (getUTCMilliseconds t) = ms_in_day t"
  "0 \<le> getUTCHours t" "0 \<le> getUTCMinutes t" "getUTCMinutes t < 60" "0 \<le> getUTCSeconds t"
  "getUTCSeconds t < 60" "0 \<le> getUTCMilliseconds t" "getUTCMilliseconds t < 1000"
  by (rule time_of_day_parts)
    (simp_all add: getUTCHours_def getUTCMinutes_def getUTCSeconds_def getUTCMilliseconds_def
      pos_imp_zdiv_nonneg_iff)

lemma zone_laws_known: "zone_laws env tz wall \<Longrightarrow> resolveTimezone env (Some tz) = tz"
  by (simp add: zone_laws_def resolveTimezone_known)

lemma zone_parts:
  assumes "zone_laws env tz wall" "0 \<le> wall t"
  shows "getZonedDateParts env t tz =
    Some \<lparr>z_year = getUTCFullYear (wall t), z_month = getUTCMonth (wall t) + 1, z_day = getUTCDate (wall t),
      z_hours = getUTCHours (wall t), z_minutes = getUTCMinutes (wall t), z_seconds = getUTCSeconds (wall t)\<rparr>"
  using assms by (auto simp: zone_laws_def shows_clock_def getZonedDateParts_def)

lemma utc_day_nonneg: "0 \<le> w \<Longrightarrow> 0 \<le> utc_day w"
  by (simp add: utc_day_def pos_imp_zdiv_nonneg_iff)

lemma zone_picker:
  assumes "zone_laws env tz wall" "0 \<le> wall t"
  shows "utcToPickerDate env t tz = Some (utc_day (wall t))"
  using year_of_day_nonneg [OF utc_day_nonneg [OF assms(2)]]
  by (simp add: utcToPickerDate_def zone_parts [OF assms] new_picker_def full_year_def
      getUTCFullYear_def getUTCMonth_def getUTCDate_def)

lemma zone_start_of_day:
  assumes "zone_laws env tz wall" "0 \<le> wall t"
  shows "isStartOfZonedDay env t tz = Some (ms_in_day (wall t) < 1000)"
proof -
  have "(getUTCHours (wall t) = 0 \<and> getUTCMinutes (wall t) = 0 \<and> getUTCSeconds (wall t) = 0) \<longleftrightarrow>
      ms_in_day (wall t) < 1000"
    using utc_time_parts [of "wall t"] unfolding make_time_def by linarith
  then show ?thesis by (simp add: isStartOfZonedDay_def zone_parts [OF assms])
qed

lemma wall_clock_midnight:
  assumes "localWall env (d * ms_per_day) = d * ms_per_day" "0 \<le> d"
  shows "wallClockToUtc env d 0 0 tz = fromZonedTime env (d * ms_per_day) tz"
  using assms year_of_day_nonneg [OF assms(2)] Date_UTC_of_day [of d 0 0 0]
  by (simp add: wallClockToUtc_def zonedDateTimeToUtc_def make_time_def)

lemma zone_finds:
  assumes "zone_laws env tz wall" "\<exists>t. wall t = w" "0 \<le> w"
  shows "wall (fromZonedTime env w tz) = w"
  using assms by (auto simp: zone_laws_def)

lemma day_of_clock: "d * ms_per_day \<le> w \<longleftrightarrow> d \<le> utc_day w"
proof
  assume "d * ms_per_day \<le> w"
  then have "d * ms_per_day div ms_per_day \<le> utc_day w"
    unfolding utc_day_def by (rule zdiv_mono1) simp
  then show "d \<le> utc_day w" by (simp add: ms_per_day_def)
next
  assume "d \<le> utc_day w"
  then have "d * ms_per_day \<le> utc_day w * ms_per_day" by (simp add: ms_per_day_def)
  then show "d * ms_per_day \<le> w" using utc_split [of w] ms_in_day_bounds(1) [of w] by linarith
qed

lemma zone_midnight:
  assumes "zone_laws env tz wall" "clean_midnight wall d" "localWall env (d * ms_per_day) = d * ms_per_day" "0 \<le> d"
  shows "wallClockToUtc env d 0 0 tz \<le> t \<longleftrightarrow> d \<le> utc_day (wall t)"
    "wall (wallClockToUtc env d 0 0 tz) = d * ms_per_day"
proof -
  from assms(2) obtain m where m: "wall m = d * ms_per_day" "\<forall>t<m. wall t < d * ms_per_day"
    "\<forall>t>m. d * ms_per_day < wall t"
    unfolding clean_midnight_def by blast
  have nonneg: "0 \<le> d * ms_per_day" using assms(4) by (simp add: ms_per_day_def)
  have eq: "wallClockToUtc env d 0 0 tz = fromZonedTime env (d * ms_per_day) tz"
    by (rule wall_clock_midnight [OF assms(3,4)])
  show found: "wall (wallClockToUtc env d 0 0 tz) = d * ms_per_day"
    unfolding eq using zone_finds [OF assms(1) exI [of _ m] nonneg] m(1) by simp
  with m have "wallClockToUtc env d 0 0 tz = m" by (metis less_irrefl neqE)
  moreover have "m \<le> t \<longleftrightarrow> d * ms_per_day \<le> wall t"
    using m by (metis leD leI nless_le order_refl)
  ultimately show "wallClockToUtc env d 0 0 tz \<le> t \<longleftrightarrow> d \<le> utc_day (wall t)"
    by (simp add: day_of_clock)
qed

text \<open>What a timed event and a day it is shown on need of the clock: the event is one from 1970
  on, and the day and the one after it begin at a midnight that the clock of the zone and the one
  of the host show.\<close>

definition day_bounds_exist :: "date_env \<Rightarrow> (int \<Rightarrow> int) \<Rightarrow> pday \<Rightarrow> bool" where
  "day_bounds_exist env wall d \<longleftrightarrow> (\<forall>x\<in>{d, d + 1}.
     clean_midnight wall x \<and> localWall env (x * ms_per_day) = x * ms_per_day)"

definition timed_since_1970 :: "(int \<Rightarrow> int) \<Rightarrow> int \<Rightarrow> int \<Rightarrow> bool" where
  "timed_since_1970 wall start endAt \<longleftrightarrow> start < endAt \<and> (\<forall>t\<ge>start. 0 \<le> wall t)"

lemma zone_timed_range:
  assumes zone: "zone_laws env tz wall" and event: "timed_since_1970 wall start endAt"
  shows "getInclusiveCalendarDayRange env start endAt tz None =
    Some (utc_day (wall start), utc_day (wall (if ms_in_day (wall endAt) < 1000 then endAt - 1 else endAt)))"
proof -
  have "start < endAt" "0 \<le> wall start" "0 \<le> wall endAt" "0 \<le> wall (endAt - 1)"
    using event by (simp_all add: timed_since_1970_def)
  then show ?thesis
    by (simp add: getInclusiveCalendarDayRange_def zone_laws_known [OF zone] zone_picker [OF zone]
        zone_start_of_day [OF zone])
qed

lemma zone_timed_overlap:
  assumes zone: "zone_laws env tz wall" "calendar_laws env" "day_bounds_exist env wall d" and d: "0 \<le> d"
  shows "eventOverlapsZonedCalendarDay env start endAt d tz None =
    Some (utc_day (wall start) \<le> d \<and>
      d \<le> utc_day (wall (if ms_in_day (wall endAt) < 1000 then endAt - 1 else endAt)))"
proof -
  let ?m = "wallClockToUtc env d 0 0 tz"
  have own: "clean_midnight wall d" "localWall env (d * ms_per_day) = d * ms_per_day"
    and after: "clean_midnight wall (d + 1)" "localWall env ((d + 1) * ms_per_day) = (d + 1) * ms_per_day"
    using zone(3) by (simp_all add: day_bounds_exist_def)
  note m = zone_midnight [OF zone(1) own d]
  have "start < wallClockToUtc env (d + 1) 0 0 tz \<longleftrightarrow> utc_day (wall start) \<le> d"
    using zone_midnight(1) [OF zone(1) after, of start] d by linarith
  moreover have "?m < endAt \<longleftrightarrow> d \<le> utc_day (wall (if ms_in_day (wall endAt) < 1000 then endAt - 1 else endAt))"
  proof (cases "ms_in_day (wall endAt) < 1000")
    case True
    with m(1) [of "endAt - 1"] show ?thesis by simp
  next
    case False
    then have "?m \<noteq> endAt" using m(2) ms_in_day_make [of 0 d] by (auto simp: ms_per_day_def)
    with False m(1) [of endAt] show ?thesis by simp linarith
  qed
  moreover have "addDays env d 1 = d + 1" using zone(2) by (simp add: calendar_laws_def)
  ultimately show ?thesis
    by (simp add: eventOverlapsZonedCalendarDay_def getZonedDayUtcBounds_def)
qed

text \<open>For a timed event the day range and the per-day overlap test agree: the event is shown
  on exactly the days from the first to the last day of its range, an end at midnight not
  counting the day it starts.\<close>

lemma timed_day_range_iff_overlap:
  assumes "zone_laws env tz wall" "calendar_laws env" "timed_since_1970 wall start endAt"
  shows "\<exists>first last. getInclusiveCalendarDayRange env start endAt tz None = Some (first, last) \<and>
    (\<forall>d\<ge>0. day_bounds_exist env wall d \<longrightarrow>
      eventOverlapsZonedCalendarDay env start endAt d tz None = Some (first \<le> d \<and> d \<le> last))"
  using zone_timed_range [OF assms(1,3)] zone_timed_overlap [OF assms(1,2)] by blast

text \<open>
  An environment in which the laws hold: UTC and zones two hours ahead of it all year, on a
  host whose clock skips nothing.
\<close>

definition plain_offset :: "string \<Rightarrow> int" where
  "plain_offset tz = (if tz = ''UTC'' then 0 else 7200000)"

definition plain_env :: date_env where
  "plain_env =
     \<lparr>intl_accepts = (\<lambda>tz. tz \<noteq> []), hostTimeZone = Some ''UTC'',
      formatToParts = (\<lambda>tz. clock_fmt (\<lambda>_. plain_offset tz) tz), localWall = (\<lambda>w. w), localDay = utc_day,
      fromZonedTime = (\<lambda>w tz. w - plain_offset tz), formatInTimeZone = (\<lambda>t tz pat. pat),
      formatLocal = (\<lambda>d pat. pat), addDays = (\<lambda>d n. d + n), startOfDay = (\<lambda>d. d * ms_per_day),
      startOfWeek = (\<lambda>d w. d - (weekday_of_day d - w) mod 7),
      endOfWeek = (\<lambda>d w. d - (weekday_of_day d - w) mod 7 + 6),
      eachDayOfInterval = (\<lambda>a b. [a..b]), differenceInCalendarDays = (\<lambda>a b. a - b)\<rparr>"

lemma calendar_laws_plain: "calendar_laws plain_env"
  by (simp add: calendar_laws_def plain_env_def)

lemma clean_midnight_plain: "clean_midnight (\<lambda>t. t + off) d"
  unfolding clean_midnight_def by (rule exI [of _ "d * ms_per_day - off"]) auto

lemma day_bounds_plain: "day_bounds_exist plain_env (\<lambda>t. t + off) d"
  by (simp add: day_bounds_exist_def clean_midnight_plain) (simp add: plain_env_def)

lemma clock_fmt_parts:
  assumes "0 \<le> t + off t"
  shows "shows_clock (clock_fmt off tz t) (t + off t)"
proof -
  define w where "w = t + off t"
  have pos: "0 \<le> getUTCFullYear w" "0 \<le> getUTCMonth w + 1" "0 \<le> getUTCDate w" "0 \<le> getUTCHours w"
    "0 \<le> getUTCMinutes w" "0 \<le> getUTCSeconds w"
    using year_of_day_nonneg [OF utc_day_nonneg, of w] assms month_of_day_bounds(1) [of "utc_day w"]
      date_of_day_bounds(1) [of "utc_day w"]
    by (simp_all add: w_def getUTCFullYear_def getUTCMonth_def getUTCDate_def getUTCHours_def
        getUTCMinutes_def getUTCSeconds_def pos_imp_zdiv_nonneg_iff)
  moreover have "getUTCHours w < 24"
    using ms_in_day_bounds(2) [of w] by (simp add: getUTCHours_def ms_per_day_def div_less_iff_less_mult)
  ultimately show ?thesis
    by (simp add: shows_clock_def clock_fmt_def Let_def read_part_def parse_int10_int_str js_rem_nonneg
        w_def [symmetric])
qed

lemma zone_laws_plain:
  assumes "trim tz = tz" "tz \<noteq> []"
  shows "zone_laws plain_env tz (\<lambda>t. t + plain_offset tz)"
  using assms clock_fmt_parts [of _ "\<lambda>_. plain_offset tz" tz]
  by (simp add: zone_laws_def plain_env_def)

lemma zone_offset_plain: "zone_offset (\<lambda>t. t + plain_offset tz) t"
  by (simp add: zone_offset_def plain_offset_def ms_per_day_def)

lemma small_setbacks_plain: "small_setbacks (\<lambda>t. t + off)"
  by (simp add: small_setbacks_def)

theorem timed_day_range_iff_overlap_witness:
  "\<exists>first last. getInclusiveCalendarDayRange plain_env 1000 200000000 ''Asia/Amman'' None = Some (first, last) \<and>
    (\<forall>d\<ge>0. day_bounds_exist plain_env (\<lambda>t. t + plain_offset ''Asia/Amman'') d \<longrightarrow>
      eventOverlapsZonedCalendarDay plain_env 1000 200000000 d ''Asia/Amman'' None =
      Some (first \<le> d \<and> d \<le> last))"
proof (rule timed_day_range_iff_overlap [OF zone_laws_plain calendar_laws_plain])
  show "trim ''Asia/Amman'' = ''Asia/Amman''" by code_simp
qed (simp_all add: plain_offset_def timed_since_1970_def)

section \<open>All-day events\<close>

lemma isUtcMidnight_iff: "isUtcMidnight t \<longleftrightarrow> ms_in_day t = 0"
  using utc_time_parts [of t] unfolding isUtcMidnight_def make_time_def by linarith

lemma isUtcEndOfDay_iff: "isUtcEndOfDay t \<longleftrightarrow> 86399000 \<le> ms_in_day t"
proof -
  note parts = utc_time_parts [of t, unfolded make_time_def] ms_in_day_bounds(2) [of t, unfolded ms_per_day_def]
  have "getUTCHours t \<le> 23" using parts by linarith
  then have "86399000 \<le> ms_in_day t \<Longrightarrow> getUTCHours t = 23 \<and> getUTCMinutes t = 59 \<and> getUTCSeconds t = 59"
    using parts by linarith
  moreover have "getUTCHours t = 23 \<Longrightarrow> getUTCMinutes t = 59 \<Longrightarrow> getUTCSeconds t = 59 \<Longrightarrow> 86399000 \<le> ms_in_day t"
    using parts by linarith
  ultimately show ?thesis unfolding isUtcEndOfDay_def by blast
qed

lemma small_day_multiple: "\<bar>k * ms_per_day\<bar> < ms_per_day \<Longrightarrow> k = 0"
  by (simp add: ms_per_day_def)

text \<open>A clock that shows midnight at a UTC midnight is UTC at that instant, and one that shows
  23:59:59 there can only do so at 23:59:59 UTC.\<close>

lemma utc_midnight_offset:
  assumes "zone_offset wall t" "wall t = d * ms_per_day" "isUtcMidnight t"
  shows "t = d * ms_per_day"
proof -
  have t: "t = utc_day t * ms_per_day" using utc_split [of t] assms(3) by (simp add: isUtcMidnight_iff)
  have "\<bar>wall t - t\<bar> < ms_per_day" using assms(1) by (simp add: zone_offset_def)
  moreover have "wall t - t = (d - utc_day t) * ms_per_day"
    using t assms(2) by (simp add: left_diff_distrib)
  ultimately have "d - utc_day t = 0" by (intro small_day_multiple) simp
  with t show ?thesis by simp
qed

lemma end_of_day_offset:
  assumes "zone_offset wall t" "wall t = d * ms_per_day + 86399000"
  shows "\<not> isUtcMidnight t" "isUtcEndOfDay t \<Longrightarrow> t = d * ms_per_day + 86399000"
proof -
  from assms(1) have off: "\<bar>wall t - t\<bar> < ms_per_day" "60000 dvd wall t - t" by (simp_all add: zone_offset_def)
  have diff: "wall t - t = (d - utc_day t) * ms_per_day + (86399000 - ms_in_day t)"
    using utc_split [of t] assms(2) by (simp add: left_diff_distrib)
  have "(60000::int) dvd (d - utc_day t) * ms_per_day" by (simp add: ms_per_day_def)
  with off(2) diff have r: "60000 dvd 86399000 - ms_in_day t" by (metis dvd_add_right_iff)
  show "\<not> isUtcMidnight t"
  proof
    assume "isUtcMidnight t"
    with r have "(60000::int) dvd 86399000" by (simp add: isUtcMidnight_iff)
    then show False by simp
  qed
  assume "isUtcEndOfDay t"
  then have "\<bar>86399000 - ms_in_day t\<bar> < 60000"
    using ms_in_day_bounds(2) [of t] by (simp add: isUtcEndOfDay_iff ms_per_day_def)
  with r dvd_imp_le_int [OF _ r] have "ms_in_day t = 86399000" by linarith
  moreover from this diff off(1) have "d - utc_day t = 0" by (intro small_day_multiple) simp
  ultimately show "t = d * ms_per_day + 86399000" using utc_split [of t] by simp
qed

text \<open>The two times that the encoding of the days \<open>s\<close> to \<open>e\<close> writes exist: the clock of the zone
  shows midnight on the first and 23:59:59 on the last, and the host's own clock skips neither.\<close>

definition day_ends_exist :: "date_env \<Rightarrow> (int \<Rightarrow> int) \<Rightarrow> pday \<Rightarrow> pday \<Rightarrow> bool" where
  "day_ends_exist env wall s e \<longleftrightarrow>
     (\<forall>w\<in>{s * ms_per_day, e * ms_per_day + 86399000}. (\<exists>t. wall t = w) \<and> localWall env w = w)"

lemma all_day_bounds:
  assumes "zone_laws env tz wall" "small_setbacks wall" "day_ends_exist env wall s e" "0 \<le> s" "s \<le> e"
    "(start, endAt) = pickerDateToAllDayUtcRange env s e (Some tz)"
  shows "wall start = s * ms_per_day" "wall endAt = e * ms_per_day + 86399000" "start < endAt"
proof -
  have e: "0 \<le> e" and pos: "0 \<le> s * ms_per_day" "0 \<le> e * ms_per_day"
    using assms(4,5) by (simp_all add: ms_per_day_def)
  have exist: "\<exists>t. wall t = s * ms_per_day" "localWall env (s * ms_per_day) = s * ms_per_day"
    "\<exists>t. wall t = e * ms_per_day + 86399000" "localWall env (e * ms_per_day + 86399000) = e * ms_per_day + 86399000"
    using assms(3) by (auto simp: day_ends_exist_def)
  have eq: "start = fromZonedTime env (s * ms_per_day) tz"
    "endAt = fromZonedTime env (e * ms_per_day + 86399000) tz"
    using assms(6) wall_clock_midnight [OF exist(2) assms(4)] year_of_day_nonneg [OF e]
      Date_UTC_of_day [of e 23 59 59] exist(4)
    by (simp_all add: pickerDateToAllDayUtcRange_def zone_laws_known [OF assms(1)]
        zonedDateTimeToUtc_def make_time_def Let_def)
  show w: "wall start = s * ms_per_day" "wall endAt = e * ms_per_day + 86399000"
    unfolding eq using zone_finds [OF assms(1)] exist(1,3) pos by simp_all
  have "s * ms_per_day \<le> e * ms_per_day" using assms(5) by (simp add: ms_per_day_def)
  moreover have "wall endAt < wall start + 86399000" if "endAt \<le> start"
  proof -
    have "0 \<le> wall endAt" using w(2) pos(2) by simp
    with assms(2) that show ?thesis unfolding small_setbacks_def by blast
  qed
  ultimately show "start < endAt" using w by (metis add_right_mono not_le)
qed

lemma all_day_range_of_clock:
  assumes "zone_laws env z clock" "getAllDayEventTimezone env start endAt viewer eventTz = z"
    "0 \<le> s" "s \<le> e" "clock start = s * ms_per_day" "clock endAt = e * ms_per_day + 86399000"
    "start < endAt" "\<not> isUtcMidnight endAt"
  shows "getInclusiveCalendarDayRange env start endAt viewer
    (Some \<lparr>opt_allDay = True, opt_eventTimezone = eventTz\<rparr>) = Some (s, e)"
proof -
  have pos: "0 \<le> clock start" "0 \<le> clock endAt" using assms(3-6) by (simp_all add: ms_per_day_def)
  have r: "(0::int) \<le> 86399000" "86399000 < ms_per_day" by (simp_all add: ms_per_day_def)
  have "utc_day (clock start) = s" using utc_day_make [of 0 s] assms(5) by simp
  moreover have "utc_day (clock endAt) = e" "ms_in_day (clock endAt) = 86399000"
    using utc_day_make [OF r, of e] ms_in_day_make [OF r, of e] assms(6) by simp_all
  ultimately show ?thesis
    using assms(7,8)
    by (simp add: getInclusiveCalendarDayRange_def assms(2) zone_picker [OF assms(1)]
        zone_start_of_day [OF assms(1)] pos)
qed

lemma all_day_range_round_trip:
  assumes zone: "zone_laws env tz wall" "small_setbacks wall" "zone_laws env ''UTC'' (\<lambda>t. t)"
    and days: "day_ends_exist env wall s e" "0 \<le> s" "s \<le> e"
    and range: "(start, endAt) = pickerDateToAllDayUtcRange env s e (Some tz)"
    and offset: "zone_offset wall start" "zone_offset wall endAt"
  shows "getInclusiveCalendarDayRange env start endAt viewer
    (Some \<lparr>opt_allDay = True, opt_eventTimezone = Some tz\<rparr>) = Some (s, e)"
proof -
  note b = all_day_bounds [OF zone(1,2) days range]
  note off = end_of_day_offset [OF offset(2) b(2)]
  show ?thesis
  proof (cases "isUtcMidnight start \<and> isUtcEndOfDay endAt")
    case True
    then have z: "getAllDayEventTimezone env start endAt viewer (Some tz) = ''UTC''"
      by (simp add: getAllDayEventTimezone_def)
    have "start = s * ms_per_day" "endAt = e * ms_per_day + 86399000"
      using True utc_midnight_offset [OF offset(1) b(1)] off(2) by simp_all
    then show ?thesis
      by (rule all_day_range_of_clock [OF zone(3) z days(2,3) _ _ b(3) off(1)])
  next
    case False
    with off(1) zone(1) have z: "getAllDayEventTimezone env start endAt viewer (Some tz) = tz"
      by (auto simp: getAllDayEventTimezone_def zone_laws_known [OF zone(1)] zone_laws_def)
    show ?thesis by (rule all_day_range_of_clock [OF zone(1) z days(2,3) b off(1)])
  qed
qed

text \<open>C23: The all-day encoding round-trips: the instants stored for the picker days \<open>s\<close> to \<open>e\<close> in a
  zone are read back as exactly these days, whatever zone the viewer is in, provided that the two
  times written exist: the clock of the event's zone shows midnight on day \<open>s\<close> and 23:59:59 on day
  \<open>e\<close>, and the device's own clock skips neither. (On the day that summer time starts at midnight,
  as in Africa/Cairo, that midnight does not exist and nothing is claimed.) The zone's clock is
  less than a day from UTC, by whole minutes, at the two instants, and is never set back by as
  much as 23:59:59.\<close>

theorem all_day_round_trip:
  assumes "zone_laws env tz wall" "small_setbacks wall" "zone_laws env ''UTC'' (\<lambda>t. t)"
    "day_ends_exist env wall s e" "0 \<le> s" "s \<le> e"
    "pickerDateToAllDayUtcRange env s e (Some tz) = (start, endAt)"
    "zone_offset wall start" "zone_offset wall endAt"
  shows "getInclusiveCalendarDayRange env start endAt viewer
    (Some \<lparr>opt_allDay = True, opt_eventTimezone = Some tz\<rparr>) = Some (s, e)"
  by (rule all_day_range_round_trip [OF assms(1-6) assms(7) [symmetric] assms(8,9)])

lemma zone_laws_plain_UTC: "zone_laws plain_env ''UTC'' (\<lambda>t. t)"
proof -
  have "trim ''UTC'' = ''UTC''" by code_simp
  then show ?thesis using zone_laws_plain [of "''UTC''"] by (simp add: plain_offset_def)
qed

lemma zone_laws_plain_Amman: "zone_laws plain_env ''Asia/Amman'' (\<lambda>t. t + plain_offset ''Asia/Amman'')"
proof -
  have "trim ''Asia/Amman'' = ''Asia/Amman''" by code_simp
  then show ?thesis by (intro zone_laws_plain) simp_all
qed

lemma day_ends_plain: "day_ends_exist plain_env (\<lambda>t. t + off) s e"
proof -
  have "\<exists>t. t + off = w" for w by (rule exI [of _ "w - off"]) simp
  then show ?thesis by (simp add: day_ends_exist_def plain_env_def)
qed

theorem all_day_round_trip_witness:
  "getInclusiveCalendarDayRange plain_env (20000 * ms_per_day - 7200000) (20002 * ms_per_day + 79199000)
    ''UTC'' (Some \<lparr>opt_allDay = True, opt_eventTimezone = Some ''Asia/Amman''\<rparr>) = Some (20000, 20002)"
proof (rule all_day_round_trip [OF zone_laws_plain_Amman small_setbacks_plain zone_laws_plain_UTC day_ends_plain])
  show "pickerDateToAllDayUtcRange plain_env 20000 20002 (Some ''Asia/Amman'') =
      (20000 * ms_per_day - 7200000, 20002 * ms_per_day + 79199000)"
    by code_simp
qed (simp_all add: zone_offset_plain)

section \<open>Day keys and errors\<close>

lemma parse_key_parts:
  assumes "length ys = 4" "length ms = 2" "length ds = 2"
    "list_all is_digit ys" "list_all is_digit ms" "list_all is_digit ds"
  shows "parseCalendarDayKey (ys @ ''-'' @ ms @ ''-'' @ ds) =
    Some (new_picker (int (nat_of_digits ys)) (int (nat_of_digits ms) - 1) (int (nat_of_digits ds)))"
  using assms by (simp add: parseCalendarDayKey_def slice_def nth_append)

text \<open>A day key is read back as the day it was made from, for the years 1000 to 9999.\<close>

lemma day_key_round_trip:
  assumes "1000 \<le> year_of_day d" "year_of_day d \<le> 9999"
  shows "parseCalendarDayKey (formatCalendarDayKey d) = Some d"
proof -
  have d: "0 \<le> month_of_day d" "month_of_day d + 1 < 100" "0 \<le> date_of_day d" "date_of_day d < 100"
    using month_of_day_bounds [of d] date_of_day_bounds [of d]
      days_in_month_bounds(2) [OF month_of_day_bounds, of "year_of_day d" d] by linarith+
  note pads = pad_two [of "nat (month_of_day d + 1)"] pad_two [of "nat (date_of_day d)"]
  have "length (nat_str (nat (year_of_day d))) = 4" using assms by (intro length_nat_str4) simp_all
  moreover have "int_str (month_of_day d + 1) = nat_str (nat (month_of_day d + 1))"
    "int_str (date_of_day d) = nat_str (nat (date_of_day d))"
    "int_str (year_of_day d) = nat_str (nat (year_of_day d))"
    using d(1,3) assms(1) by (simp_all add: int_str_nonneg)
  ultimately show ?thesis using assms d pads
    by (simp add: formatCalendarDayKey_def Let_def new_picker_of_day
        parse_key_parts [simplified append_Cons append_Nil])
qed

lemma day_key_round_trip_witness:
  "parseCalendarDayKey (formatCalendarDayKey 20514) = Some 20514"
  by (rule day_key_round_trip; code_simp)

text \<open>\<open>Intl\<close> knows a zone and formats numbers for it.\<close>

definition formats_numbers :: "date_env \<Rightarrow> string \<Rightarrow> bool" where
  "formats_numbers env tz \<longleftrightarrow> intl_accepts env tz \<and>
     (\<forall>t. \<forall>ty \<in> {''year'', ''month'', ''day'', ''hour'', ''minute'', ''second''}.
        read_part (formatToParts env tz t) ty \<noteq> None)"

lemma formats_numbers_parts:
  assumes "formats_numbers env tz"
  shows "\<exists>p. getZonedDateParts env t tz = Some p"
proof -
  define v where "v ty = the (read_part (formatToParts env tz t) ty)" for ty
  have "read_part (formatToParts env tz t) ty = Some (v ty)"
    if "ty \<in> {''year'', ''month'', ''day'', ''hour'', ''minute'', ''second''}" for ty
    using assms that unfolding formats_numbers_def v_def by auto
  with assms show ?thesis by (simp add: getZonedDateParts_def Let_def formats_numbers_def)
qed

text \<open>The day range of an event never throws, whatever zones the event and the viewer name,
  even zones \<open>Intl\<close> rejects, provided it knows the default zone and UTC.\<close>

lemma day_range_never_throws:
  assumes "formats_numbers env DEFAULT_CALENDAR_TIMEZONE" "formats_numbers env ''UTC''"
    "\<And>tz. intl_accepts env tz \<Longrightarrow> formats_numbers env tz"
  shows "getInclusiveCalendarDayRange env start endAt tz options \<noteq> None"
proof -
  have known: "formats_numbers env (resolveTimezone env z)" for z
    using assms(1,3) by (simp add: resolveTimezone_def Let_def)
  have known_all_day: "formats_numbers env (getAllDayEventTimezone env s e v z)" for s e v z
    using assms(2) known by (simp add: getAllDayEventTimezone_def Let_def)
  define day mid where "day t z = the (utcToPickerDate env t z)"
    and "mid t z = the (isStartOfZonedDay env t z)" for t z
  have "utcToPickerDate env t z = Some (day t z)" "isStartOfZonedDay env t z = Some (mid t z)"
    if "formats_numbers env z" for t z
    using formats_numbers_parts [OF that, of t]
    by (auto simp: day_def mid_def utcToPickerDate_def isStartOfZonedDay_def)
  with known known_all_day show ?thesis
    by (simp add: getInclusiveCalendarDayRange_def Let_def)
qed

lemma parse_int10_int_str_Some: "parse_int10 (int_str i) \<noteq> None"
proof (cases "i < 0")
  case True
  have "\<not> is_ws (CHR ''-'')" by (simp add: is_ws_def)
  with True show ?thesis by (simp add: int_str_def parse_int10_def strip_sign_def takeWhile_digits)
qed (simp add: parse_int10_int_str)

lemma formats_numbers_plain: "tz \<noteq> [] \<Longrightarrow> formats_numbers plain_env tz"
  using parse_int10_int_str_Some
  by (simp add: formats_numbers_def plain_env_def read_part_def clock_fmt_def Let_def del: not_None_eq)

lemma day_range_never_throws_witness:
  "getInclusiveCalendarDayRange plain_env 5 3 [] (Some \<lparr>opt_allDay = True, opt_eventTimezone = Some ''?''\<rparr>) \<noteq> None"
proof (rule day_range_never_throws)
  show "formats_numbers plain_env tz" if "intl_accepts plain_env tz" for tz
    using that by (intro formats_numbers_plain) (simp add: plain_env_def)
qed (simp_all add: formats_numbers_plain DEFAULT_CALENDAR_TIMEZONE_def del: not_None_eq)

text \<open>A host in a zone that skips an hour at the start of summer time.\<close>

definition gap_env :: date_env where
  "gap_env = plain_env\<lparr>localWall := (\<lambda>w. if 1774749600000 \<le> w \<and> w < 1774753200000 then w + 3600000 else w)\<rparr>"

text \<open>A wall-clock time of the account's zone is shifted when the host's own zone skips it:
  on a host that skips 02:00 to 03:00 on March 29th 2026, 02:30 in a zone without any clock
  change is stored as 03:30.\<close>

lemma host_gap_shifts_other_zone:
  "formatCalendarDayKey 20541 = ''2026-03-29'' \<and>
   map_option (\<lambda>p. (z_hours p, z_minutes p))
     (getZonedDateParts gap_env (wallClockToUtc gap_env 20541 2 30 ''Asia/Amman'') ''Asia/Amman'') = Some (3, 30)"
  by code_simp

end
