(* ===== verification/EventDate.thy ===== *)
theory EventDate
  imports Timezone
begin

text \<open>
  The days an event covers, \<open>packages/calendar-core/src/event-date.ts\<close>, and the day and range
  tests of the calendar views, \<open>packages/ui/src/components/calendar/utils.ts\<close>, for views that
  have a zone. Events are records of the fields these read; a view's own fields are further
  fields of the record, which the definitions keep.
\<close>

section \<open>Events\<close>

record event_date_input =
  ev_start :: int
  ev_end :: int
  ev_allDay :: bool
  ev_timezone :: "string option"

record picker_date_range_display =
  prd_isSameDay :: bool
  prd_label :: string
  prd_startLabel :: string
  prd_endLabel :: string

text \<open>\<open>timezone ?? event.timezone\<close>.\<close>

definition zone_or_event_zone :: "string option \<Rightarrow> ('a) event_date_input_scheme \<Rightarrow> string option" where
  "zone_or_event_zone timezone event = (case timezone of Some z \<Rightarrow> Some z | None \<Rightarrow> ev_timezone event)"

definition formatPickerDate :: "date_env \<Rightarrow> pday \<Rightarrow> string \<Rightarrow> string" where
  "formatPickerDate env pickerDate pattern = formatLocal env pickerDate pattern"

definition event_range_options :: "('a) event_date_input_scheme \<Rightarrow> calendar_day_range_options" where
  "event_range_options event = \<lparr>opt_allDay = ev_allDay event, opt_eventTimezone = ev_timezone event\<rparr>"

definition getEventCalendarDayRange ::
  "date_env \<Rightarrow> ('a) event_date_input_scheme \<Rightarrow> string option \<Rightarrow> (pday \<times> pday) option" where
  "getEventCalendarDayRange env event timezone =
     getInclusiveCalendarDayRange env (ev_start event) (ev_end event)
       (resolveTimezone env (zone_or_event_zone timezone event)) (Some (event_range_options event))"

definition eventSpansMultipleCalendarDays ::
  "date_env \<Rightarrow> ('a) event_date_input_scheme \<Rightarrow> string option \<Rightarrow> bool option" where
  "eventSpansMultipleCalendarDays env event timezone = do {
     (firstDay, lastDay) \<leftarrow> getEventCalendarDayRange env event timezone;
     Some (\<not> isSamePickerDay firstDay lastDay)
   }"

definition moveAllDayEventToDay ::
  "date_env \<Rightarrow> ('a) event_date_input_scheme \<Rightarrow> pday \<Rightarrow> string option \<Rightarrow> (int \<times> int) option" where
  "moveAllDayEventToDay env event targetDay timezone = do {
     (firstDay, lastDay) \<leftarrow> getEventCalendarDayRange env event timezone;
     let dayCount = differenceInCalendarDays env lastDay firstDay;
     Some (pickerDateToAllDayUtcRange env targetDay (addDays env targetDay dayCount)
             (Some (resolveTimezone env (zone_or_event_zone timezone event))))
   }"

definition getEventPickerDateRange ::
  "date_env \<Rightarrow> ('a) event_date_input_scheme \<Rightarrow> string option \<Rightarrow> (pday \<times> pday) option" where
  "getEventPickerDateRange env event timezone =
     (let resolvedTimezone = resolveTimezone env (zone_or_event_zone timezone event) in
      if ev_allDay event then getEventCalendarDayRange env event (Some resolvedTimezone)
      else do {
        startDate \<leftarrow> utcToPickerDate env (ev_start event) resolvedTimezone;
        endDate \<leftarrow> utcToPickerDate env (ev_end event) resolvedTimezone;
        Some (startDate, endDate)
      })"

definition same_day_parts :: "pday \<Rightarrow> pday \<Rightarrow> bool" where
  "same_day_parts a b \<longleftrightarrow>
     year_of_day a = year_of_day b \<and> month_of_day a = month_of_day b \<and> date_of_day a = date_of_day b"

definition getPickerDateRangeDisplay :: "date_env \<Rightarrow> pday \<Rightarrow> pday \<Rightarrow> picker_date_range_display" where
  "getPickerDateRangeDisplay env startDate endDate =
     (let isSameDay = same_day_parts startDate endDate;
          label = formatPickerDate env startDate ''EEEE, MMMM d, yyyy'';
          startLabel = formatPickerDate env startDate ''EEE, MMM d'';
          endLabel = (if isSameDay then startLabel else formatPickerDate env endDate ''EEE, MMM d, yyyy'')
      in \<lparr>prd_isSameDay = isSameDay, prd_label = label, prd_startLabel = startLabel, prd_endLabel = endLabel\<rparr>)"

text \<open>The en dash of the source is outside Latin-1 and stands as code 0x96 here.\<close>

definition range_dash :: string where
  "range_dash = [CHR '' '', CHR 0x96, CHR '' '']"

definition formatEventSpanLabel ::
  "date_env \<Rightarrow> ('a) event_date_input_scheme \<Rightarrow> string option \<Rightarrow> string option" where
  "formatEventSpanLabel env event timezone = do {
     (startDate, endDate) \<leftarrow> getEventPickerDateRange env event timezone;
     let sameYear = (year_of_day startDate = year_of_day endDate);
     let sameDay = (sameYear \<and> month_of_day startDate = month_of_day endDate \<and>
                    date_of_day startDate = date_of_day endDate);
     Some (if sameDay then formatPickerDate env startDate ''MMM d''
           else if sameYear then
             formatPickerDate env startDate ''MMM d'' @ range_dash @ formatPickerDate env endDate ''MMM d''
           else formatPickerDate env startDate ''MMM d, yyyy'' @ range_dash @
                formatPickerDate env endDate ''MMM d, yyyy'')
   }"

definition formatEventCalendarDate ::
  "date_env \<Rightarrow> ('a) event_date_input_scheme \<Rightarrow> string option \<Rightarrow> string \<Rightarrow> string option" where
  "formatEventCalendarDate env event timezone pattern =
     (let resolvedTimezone = resolveTimezone env (zone_or_event_zone timezone event) in
      if ev_allDay event then do {
        (firstDay, _) \<leftarrow> getEventCalendarDayRange env event (Some resolvedTimezone);
        Some (formatPickerDate env firstDay pattern)
      }
      else Some (formatInUserTimezone env (ev_start event) resolvedTimezone pattern))"

definition eventOverlapsCalendarDay ::
  "date_env \<Rightarrow> ('a) event_date_input_scheme \<Rightarrow> pday \<Rightarrow> string option \<Rightarrow> bool option" where
  "eventOverlapsCalendarDay env event calendarDay timezone =
     eventOverlapsZonedCalendarDay env (ev_start event) (ev_end event) calendarDay
       (resolveTimezone env (zone_or_event_zone timezone event)) (Some (event_range_options event))"

text \<open>\<open>events.filter(p)\<close> for a test that can throw.\<close>

fun filter_opt :: "('a \<Rightarrow> bool option) \<Rightarrow> 'a list \<Rightarrow> 'a list option" where
  "filter_opt p [] = Some []"
| "filter_opt p (x # xs) = do {
     keep \<leftarrow> p x;
     rest \<leftarrow> filter_opt p xs;
     Some (if keep then x # rest else rest)
   }"

definition timed_timeline_event ::
  "date_env \<Rightarrow> string \<Rightarrow> pday \<Rightarrow> bool \<Rightarrow> ('a) event_date_input_scheme \<Rightarrow> bool option" where
  "timed_timeline_event env resolvedTimezone day excludeMultiDay event =
     (if ev_allDay event then Some False
      else do {
        multi \<leftarrow> (if excludeMultiDay
                  then spansMultipleCalendarDays env (ev_start event) (ev_end event) resolvedTimezone
                         (Some \<lparr>opt_allDay = False, opt_eventTimezone = None\<rparr>)
                  else Some False);
        if multi then Some False
        else eventOverlapsZonedCalendarDay env (ev_start event) (ev_end event) day resolvedTimezone None
      })"

definition getTimedTimelineEventsForDay ::
  "date_env \<Rightarrow> ('a) event_date_input_scheme list \<Rightarrow> pday \<Rightarrow> string option \<Rightarrow> bool \<Rightarrow>
   ('a) event_date_input_scheme list option" where
  "getTimedTimelineEventsForDay env events day timezone excludeMultiDay =
     filter_opt (timed_timeline_event env (resolveTimezone env timezone) day excludeMultiDay) events"

section \<open>Day and range tests of the views\<close>

definition isMultiDayEvent ::
  "date_env \<Rightarrow> ('a) event_date_input_scheme \<Rightarrow> string \<Rightarrow> bool option" where
  "isMultiDayEvent env event timezone = eventSpansMultipleCalendarDays env event (Some timezone)"

definition isAllDayRowEvent :: "date_env \<Rightarrow> ('a) event_date_input_scheme \<Rightarrow> string \<Rightarrow> bool option" where
  "isAllDayRowEvent env event timezone =
     (if ev_allDay event then Some True else isMultiDayEvent env event timezone)"

definition getEventSegmentForCalendarDay ::
  "date_env \<Rightarrow> ('a) event_date_input_scheme \<Rightarrow> pday \<Rightarrow> string \<Rightarrow> (bool \<times> bool) option" where
  "getEventSegmentForCalendarDay env event calendarDay timezone = do {
     (firstDay, lastDay) \<leftarrow> getEventCalendarDayRange env event (Some timezone);
     Some (isSamePickerDay calendarDay firstDay, isSamePickerDay calendarDay lastDay)
   }"

datatype granularity = GDay | GTime

definition getEventInterval ::
  "date_env \<Rightarrow> ('a) event_date_input_scheme \<Rightarrow> granularity \<Rightarrow> string \<Rightarrow> (int \<times> int) option" where
  "getEventInterval env event gran timezone =
     (let rawStart = ev_start event; rawEnd = ev_end event in
      case gran of
        GTime \<Rightarrow> Some (if rawStart \<le> rawEnd then rawStart else rawEnd,
                       if rawEnd \<ge> rawStart then rawEnd else rawStart)
      | GDay \<Rightarrow> do {
          (firstDay, lastDay) \<leftarrow> getEventCalendarDayRange env event (Some timezone);
          if \<not> ev_allDay event \<and> isSamePickerDay firstDay lastDay then Some (rawStart, rawEnd)
          else Some (fst (getZonedDayUtcBounds env firstDay timezone),
                     snd (getZonedDayUtcBounds env lastDay timezone))
        })"

text \<open>For the day granularity the range is given by picker days, otherwise by instants.\<close>

definition eventOverlapsRange_days ::
  "date_env \<Rightarrow> ('a) event_date_input_scheme \<Rightarrow> pday \<Rightarrow> pday \<Rightarrow> string \<Rightarrow> bool option" where
  "eventOverlapsRange_days env event rangeStart rangeEnd timezone = do {
     (start, endAt) \<leftarrow> getEventInterval env event GDay timezone;
     let rStart = fst (getZonedDayUtcBounds env rangeStart timezone);
     let rEnd = snd (getZonedDayUtcBounds env rangeEnd timezone);
     Some (start < rEnd \<and> endAt > rStart)
   }"

definition eventOverlapsRange_time ::
  "date_env \<Rightarrow> ('a) event_date_input_scheme \<Rightarrow> int \<Rightarrow> int \<Rightarrow> string \<Rightarrow> bool option" where
  "eventOverlapsRange_time env event rangeStart rangeEnd timezone = do {
     (start, endAt) \<leftarrow> getEventInterval env event GTime timezone;
     Some (start < rangeEnd \<and> endAt > rangeStart)
   }"

definition calendarDayOverlapsEvent ::
  "date_env \<Rightarrow> ('a) event_date_input_scheme \<Rightarrow> pday \<Rightarrow> string \<Rightarrow> bool option" where
  "calendarDayOverlapsEvent env event calendarDay timezone =
     eventOverlapsCalendarDay env event calendarDay (Some timezone)"

definition by_start :: "('a) event_date_input_scheme \<Rightarrow> ('a) event_date_input_scheme \<Rightarrow> int" where
  "by_start a b = ev_start a - ev_start b"

definition getEventsForDay ::
  "date_env \<Rightarrow> ('a) event_date_input_scheme list \<Rightarrow> pday \<Rightarrow> string \<Rightarrow> ('a) event_date_input_scheme list option" where
  "getEventsForDay env events day timezone = do {
     kept \<leftarrow> filter_opt (\<lambda>event.
       if ev_allDay event then do {
         (firstDay, _) \<leftarrow> getEventCalendarDayRange env event (Some timezone);
         Some (isSamePickerDay firstDay day)
       }
       else isSameCalendarDayInTimezone env (ev_start event) day timezone) events;
     Some (js_sort by_start kept)
   }"

definition getAllEventsForDay ::
  "date_env \<Rightarrow> ('a) event_date_input_scheme list \<Rightarrow> pday \<Rightarrow> string \<Rightarrow> ('a) event_date_input_scheme list option" where
  "getAllEventsForDay env events day timezone =
     filter_opt (\<lambda>event. calendarDayOverlapsEvent env event day timezone) events"

definition getAgendaEventsForDay ::
  "date_env \<Rightarrow> ('a) event_date_input_scheme list \<Rightarrow> pday \<Rightarrow> string \<Rightarrow> ('a) event_date_input_scheme list option" where
  "getAgendaEventsForDay env events day timezone = do {
     kept \<leftarrow> filter_opt (\<lambda>event. calendarDayOverlapsEvent env event day timezone) events;
     Some (js_sort by_start kept)
   }"

definition getSpanningEventsForDay ::
  "date_env \<Rightarrow> ('a) event_date_input_scheme list \<Rightarrow> pday \<Rightarrow> string \<Rightarrow> ('a) event_date_input_scheme list option" where
  "getSpanningEventsForDay env events day timezone =
     filter_opt (\<lambda>event. do {
       multi \<leftarrow> isMultiDayEvent env event timezone;
       if \<not> multi then Some False
       else do {
         (firstDay, lastDay) \<leftarrow> getEventCalendarDayRange env event (Some timezone);
         let (dayStart, dayEnd) = getZonedDayUtcBounds env day timezone;
         let intervalStart = fst (getZonedDayUtcBounds env firstDay timezone);
         let intervalEnd = snd (getZonedDayUtcBounds env lastDay timezone);
         Some (\<not> isSamePickerDay day firstDay \<and> intervalStart < dayEnd \<and> intervalEnd > dayStart)
       }
     }) events"

text \<open>
  Multi-day events first, then by start time. The comparison is called for every event of a list
  of two or more, and throws when the day range of one of them does.
\<close>

definition sort_key :: "date_env \<Rightarrow> string \<Rightarrow> ('a) event_date_input_scheme \<Rightarrow> bool" where
  "sort_key env timezone event = (isMultiDayEvent env event timezone = Some True)"

definition by_span_and_start ::
  "date_env \<Rightarrow> string \<Rightarrow> ('a) event_date_input_scheme \<Rightarrow> ('a) event_date_input_scheme \<Rightarrow> int" where
  "by_span_and_start env timezone a b =
     (let aIsMultiDay = sort_key env timezone a; bIsMultiDay = sort_key env timezone b in
      if aIsMultiDay \<and> \<not> bIsMultiDay then -1
      else if \<not> aIsMultiDay \<and> bIsMultiDay then 1
      else ev_start a - ev_start b)"

definition sortEvents ::
  "date_env \<Rightarrow> ('a) event_date_input_scheme list \<Rightarrow> string \<Rightarrow> ('a) event_date_input_scheme list option" where
  "sortEvents env events timezone =
     (if 2 \<le> length events \<and> list_ex (\<lambda>event. isMultiDayEvent env event timezone = None) events then None
      else Some (js_sort (by_span_and_start env timezone) events))"

section \<open>Facts\<close>

lemma filter_opt_Some:
  "(\<And>x. x \<in> set xs \<Longrightarrow> p x = Some (q x)) \<Longrightarrow> filter_opt p xs = Some (filter q xs)"
  by (induction xs) auto

interpretation starts: js_comparator by_start
  by unfold_locales (auto simp: by_start_def)

interpretation spans: js_comparator "by_span_and_start env timezone"
  by unfold_locales (auto simp: by_span_and_start_def Let_def split: if_splits)

lemma timed_range_options:
  "\<not> opt_allDay opts \<Longrightarrow> getInclusiveCalendarDayRange env s e tz (Some opts) = getInclusiveCalendarDayRange env s e tz None"
  "\<not> opt_allDay opts \<Longrightarrow> eventOverlapsZonedCalendarDay env s e d tz (Some opts) = eventOverlapsZonedCalendarDay env s e d tz None"
  by (simp_all add: getInclusiveCalendarDayRange_def eventOverlapsZonedCalendarDay_def)

text \<open>What is asked of an event and a day: nothing if the event is an all-day event; a timed event
  ends after it starts, from 1970 on, and the day has its two midnights.\<close>

definition shows_plainly :: "date_env \<Rightarrow> (int \<Rightarrow> int) \<Rightarrow> ('a) event_date_input_scheme \<Rightarrow> pday \<Rightarrow> bool" where
  "shows_plainly env wall event d \<longleftrightarrow>
     (\<not> ev_allDay event \<longrightarrow> timed_since_1970 wall (ev_start event) (ev_end event) \<and> day_bounds_exist env wall d)"

lemma event_overlap_in_range:
  assumes "zone_laws env tz wall" "calendar_laws env" "shows_plainly env wall event d"
    "getEventCalendarDayRange env event (Some tz) = Some (firstDay, lastDay)" "0 \<le> d"
  shows "eventOverlapsCalendarDay env event d (Some tz) = Some (firstDay \<le> d \<and> d \<le> lastDay)"
proof (cases "ev_allDay event")
  case True
  with assms(2,4) show ?thesis
    by (simp add: eventOverlapsCalendarDay_def getEventCalendarDayRange_def eventOverlapsZonedCalendarDay_def
        event_range_options_def calendar_laws_def)
next
  case False
  with assms(3) have "timed_since_1970 wall (ev_start event) (ev_end event)" "day_bounds_exist env wall d"
    by (simp_all add: shows_plainly_def)
  with zone_timed_range [OF assms(1)] zone_timed_overlap [OF assms(1,2) _ assms(5)] False assms(4)
  show ?thesis
    by (auto simp: eventOverlapsCalendarDay_def getEventCalendarDayRange_def zone_or_event_zone_def
        zone_laws_known [OF assms(1)] timed_range_options event_range_options_def)
qed

text \<open>C29: A day shows an event if and only if it lies in the event's day range. For an all-day event
  this holds on every day. For a timed event it holds if the event ends after it starts (an event
  of length zero at midnight has a range but is shown on no day), on every day that begins and
  ends at a midnight that the clock of the zone shows once and the device's own clock does not
  skip: where summer time starts at midnight, nothing is claimed of that day and the day before.\<close>

theorem overlap_iff_in_day_range:
  assumes "zone_laws env tz wall" "calendar_laws env"
    "\<not> ev_allDay event \<Longrightarrow> timed_since_1970 wall (ev_start event) (ev_end event) \<and> day_bounds_exist env wall d"
    "getEventCalendarDayRange env event (Some tz) = Some (firstDay, lastDay)" "0 \<le> d"
  shows "eventOverlapsCalendarDay env event d (Some tz) = Some (firstDay \<le> d \<and> d \<le> lastDay)"
  using assms(3) by (intro event_overlap_in_range [OF assms(1,2) _ assms(4,5)]) (simp add: shows_plainly_def)

definition sample_event :: event_date_input where
  "sample_event = \<lparr>ev_start = 1728000000000, ev_end = 1728172799000, ev_allDay = True, ev_timezone = None\<rparr>"

lemma sample_range: "getEventCalendarDayRange plain_env sample_event (Some ''Asia/Amman'') = Some (20000, 20001)"
proof -
  have "getInclusiveCalendarDayRange plain_env 1728000000000 1728172799000 ''Asia/Amman''
      (Some \<lparr>opt_allDay = True, opt_eventTimezone = None\<rparr>) = Some (20000, 20001)"
  proof (rule all_day_range_of_clock [OF zone_laws_plain_UTC])
    show "getAllDayEventTimezone plain_env 1728000000000 1728172799000 ''Asia/Amman'' None = ''UTC''" by code_simp
    show "\<not> isUtcMidnight 1728172799000" by code_simp
  qed (simp_all add: ms_per_day_def)
  then show ?thesis
    using zone_laws_known [OF zone_laws_plain_Amman]
    by (simp add: getEventCalendarDayRange_def sample_event_def zone_or_event_zone_def event_range_options_def)
qed

theorem overlap_iff_in_day_range_witness:
  "eventOverlapsCalendarDay plain_env sample_event 20001 (Some ''Asia/Amman'') = Some (20000 \<le> (20001::int) \<and> (20001::int) \<le> 20001)"
  by (rule overlap_iff_in_day_range [OF zone_laws_plain_Amman calendar_laws_plain _ sample_range])
    (simp_all add: sample_event_def)

text \<open>The length matters: an event that starts and ends at a midnight has that day as its range,
  and no day shows it.\<close>

definition midnight_event :: event_date_input where
  "midnight_event = \<lparr>ev_start = 1728000000000, ev_end = 1728000000000, ev_allDay = False, ev_timezone = None\<rparr>"

lemma empty_event_is_never_shown:
  "getEventCalendarDayRange plain_env midnight_event (Some ''UTC'') = Some (20000, 20000)"
  "eventOverlapsCalendarDay plain_env midnight_event 20000 (Some ''UTC'') = Some False"
  by code_simp+

text \<open>Moving an all-day event to a day keeps its number of days: the moved event starts on
  the target day and covers as many days as before, whatever zone it is viewed in.\<close>

lemma move_all_day_keeps_span:
  assumes zone: "zone_laws env tz wall" "small_setbacks wall" "zone_laws env ''UTC'' (\<lambda>t. t)" "calendar_laws env"
    "day_ends_exist env wall target (target + (lastDay - firstDay))"
    and event: "ev_allDay event" "getEventCalendarDayRange env event (Some tz) = Some (firstDay, lastDay)"
      "firstDay \<le> lastDay" "0 \<le> target"
    and moved: "moveAllDayEventToDay env event target (Some tz) = Some (start, endAt)"
      "zone_offset wall start" "zone_offset wall endAt"
  shows "getEventCalendarDayRange env
      (event\<lparr>ev_start := start, ev_end := endAt, ev_timezone := Some tz\<rparr>) viewer =
    Some (target, target + (lastDay - firstDay))"
proof -
  have days: "addDays env a b = a + b" "differenceInCalendarDays env a b = a - b" for a b
    using zone(4) by (simp_all add: calendar_laws_def)
  have "(start, endAt) = pickerDateToAllDayUtcRange env target (target + (lastDay - firstDay)) (Some tz)"
    using moved(1) event(2) by (simp add: moveAllDayEventToDay_def zone_or_event_zone_def
        zone_laws_known [OF zone(1)] days)
  from all_day_range_round_trip [OF zone(1,2,3,5) event(4) _ this moved(2,3)] event(1,3)
  show ?thesis by (simp add: getEventCalendarDayRange_def event_range_options_def)
qed

lemma move_all_day_keeps_span_witness:
  "getEventCalendarDayRange plain_env
      (sample_event\<lparr>ev_start := 1729288800000, ev_end := 1729461599000, ev_timezone := Some ''Asia/Amman''\<rparr>) None =
    Some (20015, 20015 + (20001 - 20000))"
proof (rule move_all_day_keeps_span [OF zone_laws_plain_Amman small_setbacks_plain zone_laws_plain_UTC
      calendar_laws_plain day_ends_plain _ sample_range])
  have "pickerDateToAllDayUtcRange plain_env 20015 20016 (Some ''Asia/Amman'') = (1729288800000, 1729461599000)"
    by code_simp
  moreover have "differenceInCalendarDays plain_env = (\<lambda>a b. a - b)" "addDays plain_env = (\<lambda>a b. a + b)"
    by (simp_all add: plain_env_def)
  ultimately show "moveAllDayEventToDay plain_env sample_event 20015 (Some ''Asia/Amman'') =
      Some (1729288800000, 1729461599000)"
    using zone_laws_known [OF zone_laws_plain_Amman]
    by (simp add: moveAllDayEventToDay_def sample_range zone_or_event_zone_def)
qed (simp_all add: sample_event_def zone_offset_plain)

text \<open>The agenda of a day holds exactly the events whose range has the day, ordered by start
  time, events with the same start in their given order.\<close>

lemma agenda_sorted_and_complete:
  assumes zone: "zone_laws env tz wall" "calendar_laws env" "0 \<le> d"
    and events: "\<And>event. event \<in> set events \<Longrightarrow> shows_plainly env wall event d \<and>
      getEventCalendarDayRange env event (Some tz) = Some (range_of event)"
  shows "\<exists>agenda. getAgendaEventsForDay env events d tz = Some agenda \<and>
    mset agenda = mset (filter (\<lambda>event. fst (range_of event) \<le> d \<and> d \<le> snd (range_of event)) events) \<and>
    sorted_wrt (\<lambda>a b. ev_start a \<le> ev_start b) agenda \<and>
    (\<forall>t. filter (\<lambda>event. ev_start event = t) agenda =
      filter (\<lambda>event. ev_start event = t)
        (filter (\<lambda>event. fst (range_of event) \<le> d \<and> d \<le> snd (range_of event)) events))"
proof -
  let ?shown = "filter (\<lambda>event. fst (range_of event) \<le> d \<and> d \<le> snd (range_of event)) events"
  have "calendarDayOverlapsEvent env event d tz = Some (fst (range_of event) \<le> d \<and> d \<le> snd (range_of event))"
    if "event \<in> set events" for event
    using event_overlap_in_range [OF zone(1,2), of event d "fst (range_of event)" "snd (range_of event)"] events [OF that] zone(3)
    by (simp add: calendarDayOverlapsEvent_def)
  then have eq: "getAgendaEventsForDay env events d tz = Some (js_sort by_start ?shown)"
    by (simp add: getAgendaEventsForDay_def filter_opt_Some)
  have "filter (\<lambda>event. ev_start event = t) (js_sort by_start ?shown) = filter (\<lambda>event. ev_start event = t) ?shown" for t
  proof (cases "\<exists>b \<in> set ?shown. ev_start b = t")
    case True
    then obtain b where "b \<in> set ?shown" "ev_start b = t" by blast
    then have "(\<lambda>a. by_start a b \<le> 0 \<and> by_start b a \<le> 0) = (\<lambda>event. ev_start event = t)"
      by (auto simp: by_start_def)
    with starts.js_sort_stable [of b ?shown] show ?thesis by simp
  next
    case False
    then have "filter (\<lambda>event. ev_start event = t) ?shown = []"
      "filter (\<lambda>event. ev_start event = t) (js_sort by_start ?shown) = []"
      unfolding filter_empty_conv set_js_sort by blast+
    then show ?thesis by simp
  qed
  moreover have "sorted_wrt (\<lambda>a b. ev_start a \<le> ev_start b) (js_sort by_start ?shown)"
    using starts.sorted_js_sort [of ?shown] by (simp add: by_start_def)
  ultimately show ?thesis by (intro exI [of _ "js_sort by_start ?shown"]) (simp add: eq)
qed

lemma agenda_sorted_and_complete_witness:
  "\<exists>agenda. getAgendaEventsForDay plain_env [sample_event] 20001 ''Asia/Amman'' = Some agenda \<and>
    mset agenda = mset (filter (\<lambda>event. fst (20000::int, 20001::int) \<le> 20001 \<and> 20001 \<le> snd (20000::int, 20001::int)) [sample_event]) \<and>
    sorted_wrt (\<lambda>a b. ev_start a \<le> ev_start b) agenda \<and>
    (\<forall>t. filter (\<lambda>event. ev_start event = t) agenda =
      filter (\<lambda>event. ev_start event = t)
        (filter (\<lambda>event. fst (20000::int, 20001::int) \<le> 20001 \<and> 20001 \<le> snd (20000::int, 20001::int)) [sample_event]))"
  by (rule agenda_sorted_and_complete [OF zone_laws_plain_Amman calendar_laws_plain])
    (simp_all add: sample_range shows_plainly_def sample_event_def [symmetric], simp_all add: sample_event_def)

end
