(* ===== verification/Packing.thy ===== *)
theory Packing
  imports Prelude
begin

text \<open>
  First-fit packing, the scheme behind the all-day row and the timeline: items are taken in
  order and put into the first lane none of whose items conflicts with it, or into a new lane.
  \<open>history\<close> is the list of items with the lanes they got. The locale \<open>interval_packing\<close> is the
  contract under which the number of lanes is the least possible: the items are intervals,
  taken in the order of their left ends.
\<close>

section \<open>Placing\<close>

type_synonym 'a history = "('a \<times> nat) list"

definition fits :: "('a \<Rightarrow> 'a \<Rightarrow> bool) \<Rightarrow> 'a \<Rightarrow> 'a list \<Rightarrow> bool" where
  "fits conflict x lane \<longleftrightarrow> (\<forall>y \<in> set lane. \<not> conflict y x)"

definition first_lane :: "('a \<Rightarrow> 'a \<Rightarrow> bool) \<Rightarrow> 'a list list \<Rightarrow> 'a \<Rightarrow> nat" where
  "first_lane conflict lanes x =
     (case find_index (fits conflict x) lanes of Some i \<Rightarrow> i | None \<Rightarrow> length lanes)"

definition put_in :: "nat \<Rightarrow> 'a \<Rightarrow> 'a list list \<Rightarrow> 'a list list" where
  "put_in i x lanes = (if i < length lanes then lanes[i := lanes ! i @ [x]] else lanes @ [[x]])"

fun first_fit :: "('a \<Rightarrow> 'a \<Rightarrow> bool) \<Rightarrow> 'a list list \<Rightarrow> 'a list \<Rightarrow> nat list \<times> 'a list list" where
  "first_fit conflict lanes [] = ([], lanes)"
| "first_fit conflict lanes (x # xs) =
     (let i = first_lane conflict lanes x;
          (is, final) = first_fit conflict (put_in i x lanes) xs
      in (i # is, final))"

section \<open>What a history says\<close>

text \<open>The lanes hold the items of the history, lane by lane and in order, and none is empty.\<close>

definition lanes_of :: "'a history \<Rightarrow> 'a list list \<Rightarrow> bool" where
  "lanes_of h lanes \<longleftrightarrow>
     (\<forall>i < length lanes. lanes ! i = map fst (filter (\<lambda>p. snd p = i) h) \<and> lanes ! i \<noteq> []) \<and>
     (\<forall>p \<in> set h. snd p < length lanes)"

text \<open>The item \<open>x\<close> may go to lane \<open>i\<close> after the history: nothing there conflicts with it, and
  every lower lane has an item that does.\<close>

definition good_lane :: "('a \<Rightarrow> 'a \<Rightarrow> bool) \<Rightarrow> 'a history \<Rightarrow> 'a \<Rightarrow> nat \<Rightarrow> bool" where
  "good_lane conflict h x i \<longleftrightarrow>
     (\<forall>y. (y, i) \<in> set h \<longrightarrow> \<not> conflict y x) \<and> (\<forall>k < i. \<exists>y. (y, k) \<in> set h \<and> conflict y x)"

definition packed :: "('a \<Rightarrow> 'a \<Rightarrow> bool) \<Rightarrow> 'a history \<Rightarrow> bool" where
  "packed conflict h \<longleftrightarrow>
     (\<forall>n < length h. good_lane conflict (take n h) (fst (h ! n)) (snd (h ! n)))"

lemma packed_Nil [simp]: "packed conflict []"
  by (simp add: packed_def)

lemma packed_snoc: "packed conflict (h @ [(x, i)]) \<longleftrightarrow> packed conflict h \<and> good_lane conflict h x i"
  by (auto simp: packed_def nth_append less_Suc_eq)

lemma lanes_of_Nil [simp]: "lanes_of [] []"
  by (simp add: lanes_of_def)

lemma lane_members: "lanes_of h lanes \<Longrightarrow> i < length lanes \<Longrightarrow> y \<in> set (lanes ! i) \<longleftrightarrow> (y, i) \<in> set h"
  by (auto simp: lanes_of_def image_iff)

lemma first_lane_le: "first_lane conflict lanes x \<le> length lanes"
  using find_index_Some [of "fits conflict x" lanes]
  by (auto simp: first_lane_def split: option.splits)

lemma first_lane_good:
  assumes "lanes_of h lanes"
  shows "good_lane conflict h x (first_lane conflict lanes x)"
proof (cases "find_index (fits conflict x) lanes")
  case None
  have range: "snd p < length lanes" if "p \<in> set h" for p using assms that by (simp add: lanes_of_def)
  from None have "\<exists>y \<in> set (lanes ! k). conflict y x" if "k < length lanes" for k
    using that by (auto simp: find_index_None fits_def)
  with lane_members [OF assms] range None show ?thesis
    by (force simp: good_lane_def first_lane_def)
next
  case (Some i)
  from find_index_Some [OF this] have i: "i < length lanes" "fits conflict x (lanes ! i)"
    "\<And>j. j < i \<Longrightarrow> \<not> fits conflict x (lanes ! j)" by auto
  with lane_members [OF assms] Some show ?thesis
    by (auto simp: good_lane_def first_lane_def fits_def) (metis i(1) i(3) fits_def lane_members [OF assms] less_trans)
qed

lemma lanes_of_put:
  assumes "lanes_of h lanes" "i \<le> length lanes"
  shows "lanes_of (h @ [(x, i)]) (put_in i x lanes)"
proof (cases "i = length lanes")
  case True
  have "filter (\<lambda>p. snd p = length lanes) h = []"
    using assms(1) by (auto simp: lanes_of_def filter_empty_conv)
  with assms(1) True show ?thesis
    by (auto simp: lanes_of_def put_in_def nth_append less_Suc_eq)
next
  case False
  with assms show ?thesis
    by (auto simp: lanes_of_def put_in_def nth_list_update)
qed

lemma first_fit_history:
  "first_fit conflict lanes xs = (is, final) \<Longrightarrow> lanes_of h lanes \<Longrightarrow> packed conflict h \<Longrightarrow>
    length is = length xs \<and> lanes_of (h @ zip xs is) final \<and> packed conflict (h @ zip xs is)"
proof (induction xs arbitrary: lanes h "is")
  case Nil
  then show ?case by simp
next
  case (Cons x xs)
  let ?i = "first_lane conflict lanes x"
  obtain js where js: "is = ?i # js" "first_fit conflict (put_in ?i x lanes) xs = (js, final)"
    using Cons.prems(1) by (auto simp: Let_def split: prod.splits)
  have "lanes_of (h @ [(x, ?i)]) (put_in ?i x lanes)"
    using Cons.prems(2) by (intro lanes_of_put first_lane_le)
  moreover have "packed conflict (h @ [(x, ?i)])"
    using Cons.prems(2,3) by (simp add: packed_snoc first_lane_good)
  ultimately show ?case using Cons.IH [OF js(2), of "h @ [(x, ?i)]"] js(1) by simp
qed

section \<open>Packing a list\<close>

lemma set_take_zip:
  "length js = length xs \<Longrightarrow> n \<le> length xs \<Longrightarrow>
    (y, k) \<in> set (take n (zip xs js)) \<longleftrightarrow> (\<exists>m < n. xs ! m = y \<and> js ! m = k)"
  by (auto simp: in_set_conv_nth)

text \<open>Two items in one lane do not conflict, and each lane below an item's lane has an earlier
  item that conflicts with it.\<close>

lemma first_fit_lanes:
  assumes "first_fit conflict [] xs = (is, final)" "n < length xs"
  shows "length is = length xs" "is ! n < length final"
    "m < n \<Longrightarrow> is ! m = is ! n \<Longrightarrow> \<not> conflict (xs ! m) (xs ! n)"
    "k < is ! n \<Longrightarrow> \<exists>m < n. is ! m = k \<and> conflict (xs ! m) (xs ! n)"
proof -
  have h: "length is = length xs" "lanes_of (zip xs is) final" "packed conflict (zip xs is)"
    using first_fit_history [OF assms(1), of "[]"] by simp_all
  then show "length is = length xs" by blast
  have "(xs ! n, is ! n) \<in> set (zip xs is)" using h(1) assms(2) by (force simp: set_zip)
  with h(2) show "is ! n < length final" by (force simp: lanes_of_def)
  have good: "good_lane conflict (take n (zip xs is)) (xs ! n) (is ! n)"
    using h(1,3) assms(2) by (simp add: packed_def)
  note mem = set_take_zip [OF h(1) less_imp_le [OF assms(2)]]
  show "\<not> conflict (xs ! m) (xs ! n)" if "m < n" "is ! m = is ! n"
    using good mem that by (auto simp: good_lane_def)
  show "\<exists>m < n. is ! m = k \<and> conflict (xs ! m) (xs ! n)" if "k < is ! n"
    using good mem that unfolding good_lane_def by metis
qed

lemma first_fit_top:
  assumes "first_fit conflict [] xs = (is, final)" "i < length final"
  shows "\<exists>n < length xs. is ! n = i"
proof -
  have h: "length is = length xs" "lanes_of (zip xs is) final"
    using first_fit_history [OF assms(1), of "[]"] by simp_all
  obtain y where "y \<in> set (final ! i)"
    using h(2) assms(2) by (metis lanes_of_def list.set_intros(1) neq_Nil_conv)
  then have "(y, i) \<in> set (zip xs is)" using lane_members [OF h(2) assms(2)] by blast
  then show ?thesis using h(1) by (auto simp: set_zip)
qed

section \<open>Intervals\<close>

locale interval_packing =
  fixes lo hi :: "'a \<Rightarrow> int" and conflict :: "'a \<Rightarrow> 'a \<Rightarrow> bool"
  assumes conflict_iff: "conflict a b \<longleftrightarrow> lo a < hi b \<and> lo b < hi a"
begin

lemma common_point: "lo a \<le> p \<Longrightarrow> p < hi a \<Longrightarrow> lo b \<le> p \<Longrightarrow> p < hi b \<Longrightarrow> conflict a b"
  by (simp add: conflict_iff)

text \<open>The items that keep an item out of the lower lanes all hold its left end: together with
  it they are as many pairwise conflicting items as there are lanes.\<close>

lemma pairwise_conflicting:
  assumes ff: "first_fit conflict [] xs = (is, final)" and n: "n < length xs"
    and order: "sorted_wrt (\<lambda>a b. lo a \<le> lo b) xs" and nonempty: "\<And>x. x \<in> set xs \<Longrightarrow> lo x < hi x"
  obtains g where "\<And>k. k \<le> is ! n \<Longrightarrow> g k < length xs \<and> is ! g k = k"
    "\<And>j k. j \<le> is ! n \<Longrightarrow> k \<le> is ! n \<Longrightarrow> conflict (xs ! g j) (xs ! g k)"
proof -
  obtain e where e: "\<And>k. k < is ! n \<Longrightarrow> e k < n \<and> is ! e k = k \<and> conflict (xs ! e k) (xs ! n)"
    using first_fit_lanes(4) [OF ff n] by metis
  define g where "g k = (if k < is ! n then e k else n)" for k
  have "g k < length xs \<and> is ! g k = k" if "k \<le> is ! n" for k
    using e [of k] that n by (auto simp: g_def)
  moreover have "lo (xs ! g k) \<le> lo (xs ! n) \<and> lo (xs ! n) < hi (xs ! g k)" if "k \<le> is ! n" for k
    using e [of k] that n nonempty sorted_wrt_nth_less [OF order, of "e k" n]
    by (auto simp: g_def conflict_iff)
  then have "conflict (xs ! g j) (xs ! g k)" if "j \<le> is ! n" "k \<le> is ! n" for j k
    using common_point that by blast
  ultimately show thesis by (rule that)
qed

text \<open>No assignment of lanes without conflicts uses fewer lanes.\<close>

lemma lanes_minimal:
  assumes ff: "first_fit conflict [] xs = (is, final)"
    and order: "sorted_wrt (\<lambda>a b. lo a \<le> lo b) xs" and nonempty: "\<And>x. x \<in> set xs \<Longrightarrow> lo x < hi x"
    and other: "\<And>m n. m < length xs \<Longrightarrow> n < length xs \<Longrightarrow> m \<noteq> n \<Longrightarrow> f m = f n \<Longrightarrow> \<not> conflict (xs ! m) (xs ! n)"
  shows "length final \<le> card (f ` {..<length xs})"
proof (cases final)
  case Nil
  then show ?thesis by simp
next
  case (Cons l ls)
  then obtain n where n: "n < length xs" "is ! n = length final - 1"
    using first_fit_top [OF ff, of "length final - 1"] by auto
  obtain g where g: "\<And>k. k \<le> is ! n \<Longrightarrow> g k < length xs \<and> is ! g k = k"
    "\<And>j k. j \<le> is ! n \<Longrightarrow> k \<le> is ! n \<Longrightarrow> conflict (xs ! g j) (xs ! g k)"
    using pairwise_conflicting [OF ff n(1) order nonempty] by metis
  have "inj_on (\<lambda>k. f (g k)) {..is ! n}"
  proof (rule inj_onI)
    fix j k assume jk: "j \<in> {..is ! n}" "k \<in> {..is ! n}" "f (g j) = f (g k)"
    with g(2) other g(1) have "g j = g k" by (metis atMost_iff)
    with jk g(1) show "j = k" by (metis atMost_iff)
  qed
  then have "card ((\<lambda>k. f (g k)) ` {..is ! n}) = length final"
    using n(2) Cons by (simp add: card_image)
  moreover have "(\<lambda>k. f (g k)) ` {..is ! n} \<subseteq> f ` {..<length xs}" using g(1) by auto
  ultimately show ?thesis by (metis card_mono finite_imageI finite_lessThan)
qed

end

end
