(* ===== verification/AllDayLayout.thy ===== *)
theory AllDayLayout
  imports EventDate Packing
begin

text \<open>
  The all-day row, \<open>packages/ui/src/components/calendar/all-day-layout.ts\<close>: events are clipped
  to the visible days and packed into lanes. The optimality of the packing comes from the
  locale \<open>interval_packing\<close>, interpreted here on the drafts of the layout.
\<close>

section \<open>Data\<close>

record 'e all_day_draft =
  dr_event :: 'e
  startIndex :: nat
  span :: nat
  continuesBefore :: bool
  continuesAfter :: bool

record 'e all_day_placement = "'e all_day_draft" +
  lane :: nat

record 'e all_day_layout =
  placements :: "'e all_day_placement list"
  laneCount :: nat

section \<open>Clipping\<close>

function advance_start :: "pday list \<Rightarrow> pday \<Rightarrow> nat \<Rightarrow> nat" where
  "advance_start days firstDay i =
     (if i < length days \<and> comparePickerDays (days ! i) firstDay < 0
      then advance_start days firstDay (i + 1) else i)"
  by pat_completeness auto
termination by (relation "measure (\<lambda>(days, _, i). length days - i)") auto

function retreat_end :: "pday list \<Rightarrow> pday \<Rightarrow> int \<Rightarrow> int" where
  "retreat_end days lastDay i =
     (if i \<ge> 0 \<and> comparePickerDays (days ! nat i) lastDay > 0
      then retreat_end days lastDay (i - 1) else i)"
  by pat_completeness auto
termination by (relation "measure (\<lambda>(_, _, i). nat (i + 1))") auto

declare advance_start.simps [simp del] retreat_end.simps [simp del]

text \<open>\<open>Some None\<close>: no visible day is in the event's range; \<open>None\<close>: a zone was rejected.\<close>

definition clipEventToVisibleDays ::
  "date_env \<Rightarrow> ('a) event_date_input_scheme \<Rightarrow> pday list \<Rightarrow> string \<Rightarrow>
   ('a) event_date_input_scheme all_day_draft option option" where
  "clipEventToVisibleDays env event days timezone =
     (if days = [] then Some None
      else do {
        let firstVisible = days ! 0;
        let lastVisible = days ! (length days - 1);
        (firstDay, lastDay) \<leftarrow> getEventCalendarDayRange env event (Some timezone);
        let startAt = advance_start days firstDay 0;
        let endAt = retreat_end days lastDay (int (length days) - 1);
        Some (if int startAt > endAt then None
              else Some \<lparr>dr_event = event, startIndex = startAt, span = nat (endAt - int startAt + 1),
                         continuesBefore = comparePickerDays firstDay firstVisible < 0,
                         continuesAfter = comparePickerDays lastDay lastVisible > 0\<rparr>)
      })"

section \<open>Packing\<close>

definition rangesOverlap :: "nat \<Rightarrow> nat \<Rightarrow> nat \<Rightarrow> nat \<Rightarrow> bool" where
  "rangesOverlap leftStart leftSpan rightStart rightSpan \<longleftrightarrow>
     leftStart < rightStart + rightSpan \<and> rightStart < leftStart + leftSpan"

text \<open>The body of the loop over the events.\<close>

definition draft_of ::
  "date_env \<Rightarrow> pday list \<Rightarrow> string \<Rightarrow> ('a) event_date_input_scheme \<Rightarrow>
   ('a) event_date_input_scheme all_day_draft option option" where
  "draft_of env days timezone event = do {
     inRow \<leftarrow> isAllDayRowEvent env event timezone;
     visible \<leftarrow> (if \<not> inRow then Some False
                 else eventOverlapsRange_days env event (days ! 0) (days ! (length days - 1)) timezone);
     if \<not> visible then Some None else clipEventToVisibleDays env event days timezone
   }"

fun collect_drafts ::
  "date_env \<Rightarrow> pday list \<Rightarrow> string \<Rightarrow> ('a) event_date_input_scheme list \<Rightarrow>
   ('a) event_date_input_scheme all_day_draft list option" where
  "collect_drafts env days timezone [] = Some []"
| "collect_drafts env days timezone (event # events) = do {
     clipped \<leftarrow> draft_of env days timezone event;
     drafts \<leftarrow> collect_drafts env days timezone events;
     Some (case clipped of None \<Rightarrow> drafts | Some draft \<Rightarrow> draft # drafts)
   }"

definition compare_drafts ::
  "('a) event_date_input_scheme all_day_draft \<Rightarrow> ('a) event_date_input_scheme all_day_draft \<Rightarrow> int" where
  "compare_drafts left right =
     (if startIndex left \<noteq> startIndex right then int (startIndex left) - int (startIndex right)
      else if span left \<noteq> span right then int (span right) - int (span left)
      else ev_start (dr_event left) - ev_start (dr_event right))"

type_synonym occupancy = "(nat \<times> nat) list list"

fun place_drafts :: "occupancy \<Rightarrow> 'e all_day_draft list \<Rightarrow> 'e all_day_placement list \<times> occupancy" where
  "place_drafts laneOccupancy [] = ([], laneOccupancy)"
| "place_drafts laneOccupancy (draft # drafts) =
     (let found = find_index (\<lambda>occupied. \<forall>item \<in> set occupied.
            \<not> rangesOverlap (fst item) (snd item) (startIndex draft) (span draft)) laneOccupancy;
          (ln, grown) = (case found of Some i \<Rightarrow> (i, laneOccupancy)
                         | None \<Rightarrow> (length laneOccupancy, laneOccupancy @ [[]]));
          occupied = grown[ln := grown ! ln @ [(startIndex draft, span draft)]];
          placed = all_day_draft.extend draft \<lparr>lane = ln\<rparr>;
          (rest, final) = place_drafts occupied drafts
      in (placed # rest, final))"

definition layoutAllDayRowEvents ::
  "date_env \<Rightarrow> ('a) event_date_input_scheme list \<Rightarrow> pday list \<Rightarrow> string \<Rightarrow>
   ('a) event_date_input_scheme all_day_layout option" where
  "layoutAllDayRowEvents env events days timezone =
     (if days = [] then Some \<lparr>placements = [], laneCount = 0\<rparr>
      else do {
        drafts \<leftarrow> collect_drafts env days timezone events;
        let (placed, laneOccupancy) = place_drafts [] (js_sort compare_drafts drafts);
        Some \<lparr>placements = placed, laneCount = length laneOccupancy\<rparr>
      })"

section \<open>Facts about clipping\<close>

lemma advance_start_spec:
  "i \<le> length days \<Longrightarrow>
    i \<le> advance_start days f i \<and> advance_start days f i \<le> length days \<and>
    (\<forall>k. i \<le> k \<longrightarrow> k < advance_start days f i \<longrightarrow> days ! k < f) \<and>
    (advance_start days f i < length days \<longrightarrow> f \<le> days ! advance_start days f i)"
proof (induction days f i rule: advance_start.induct)
  case (1 days f i)
  show ?case
  proof (cases "i < length days \<and> days ! i < f")
    case True
    with 1 have "advance_start days f i = advance_start days f (i + 1)"
      by (subst advance_start.simps) simp
    moreover have "i + 1 \<le> advance_start days f (i + 1)" "advance_start days f (i + 1) \<le> length days"
      "\<And>k. i + 1 \<le> k \<Longrightarrow> k < advance_start days f (i + 1) \<Longrightarrow> days ! k < f"
      "advance_start days f (i + 1) < length days \<Longrightarrow> f \<le> days ! advance_start days f (i + 1)"
      using "1.IH" True by auto
    moreover have "k = i \<or> i + 1 \<le> k" if "i \<le> k" for k using that by linarith
    ultimately show ?thesis using True by (metis add_leD1)
  next
    case False
    then have "advance_start days f i = i" by (subst advance_start.simps) auto
    with 1 False show ?thesis by auto
  qed
qed

lemma retreat_end_spec:
  "-1 \<le> i \<Longrightarrow>
    -1 \<le> retreat_end days l i \<and> retreat_end days l i \<le> i \<and>
    (\<forall>k. retreat_end days l i < int k \<longrightarrow> int k \<le> i \<longrightarrow> l < days ! k) \<and>
    (0 \<le> retreat_end days l i \<longrightarrow> days ! nat (retreat_end days l i) \<le> l)"
proof (induction days l i rule: retreat_end.induct)
  case (1 days l i)
  show ?case
  proof (cases "0 \<le> i \<and> l < days ! nat i")
    case True
    then have "retreat_end days l i = retreat_end days l (i - 1)"
      by (subst retreat_end.simps) simp
    moreover have "-1 \<le> retreat_end days l (i - 1)" "retreat_end days l (i - 1) \<le> i - 1"
      "\<And>k. retreat_end days l (i - 1) < int k \<Longrightarrow> int k \<le> i - 1 \<Longrightarrow> l < days ! k"
      "0 \<le> retreat_end days l (i - 1) \<Longrightarrow> days ! nat (retreat_end days l (i - 1)) \<le> l"
      using "1.IH" True by auto
    moreover have "k = nat i \<or> int k \<le> i - 1" if "int k \<le> i" for k using that by linarith
    moreover have "l < days ! k" if "retreat_end days l (i - 1) < int k" "int k \<le> i" for k
      using calculation(4,6) True that by blast
    ultimately show ?thesis by simp
  next
    case False
    then have "retreat_end days l i = i" by (subst retreat_end.simps) auto
    with 1 False show ?thesis by auto
  qed
qed

lemma strict_sorted_nth_le:
  "sorted_wrt (<) (days :: pday list) \<Longrightarrow> i \<le> k \<Longrightarrow> k < length days \<Longrightarrow> days ! i \<le> days ! k"
  by (metis le_less order_refl sorted_wrt_nth_less)

text \<open>The clip of the range \<open>f\<close> to \<open>l\<close> is exactly the set of visible days in it.\<close>

lemma clip_window:
  assumes days: "sorted_wrt (<) days" and k: "k < length days"
  shows "advance_start days f 0 \<le> k \<and> int k \<le> retreat_end days l (int (length days) - 1) \<longleftrightarrow>
    f \<le> days ! k \<and> days ! k \<le> l"
proof -
  let ?a = "advance_start days f 0" and ?e = "retreat_end days l (int (length days) - 1)"
  note a = advance_start_spec [of 0 days f, simplified]
  have e: "-1 \<le> ?e" "?e \<le> int (length days) - 1" "\<And>k. ?e < int k \<Longrightarrow> k < length days \<Longrightarrow> l < days ! k"
    "0 \<le> ?e \<Longrightarrow> days ! nat ?e \<le> l"
    using retreat_end_spec [of "int (length days) - 1" days l] by auto
  have "?a \<le> k \<longleftrightarrow> f \<le> days ! k"
  proof
    assume "?a \<le> k"
    then show "f \<le> days ! k" using a k strict_sorted_nth_le [OF days, of ?a k] by auto
  next
    assume "f \<le> days ! k"
    then show "?a \<le> k" using a by (metis not_less)
  qed
  moreover have "int k \<le> ?e \<longleftrightarrow> days ! k \<le> l"
  proof
    assume "int k \<le> ?e"
    then have "0 \<le> ?e" "k \<le> nat ?e" "nat ?e < length days" using e(2) by linarith+
    then show "days ! k \<le> l" using e(4) strict_sorted_nth_le [OF days, of k "nat ?e"] by auto
  next
    assume "days ! k \<le> l"
    then show "int k \<le> ?e" using e(3) [of k] k by (metis not_less)
  qed
  ultimately show ?thesis by simp
qed

section \<open>Facts about packing\<close>

abbreviation window :: "('e, 'z) all_day_draft_scheme \<Rightarrow> nat \<times> nat" where
  "window d \<equiv> (startIndex d, span d)"

definition windows_overlap :: "nat \<times> nat \<Rightarrow> nat \<times> nat \<Rightarrow> bool" where
  "windows_overlap p q = rangesOverlap (fst p) (snd p) (fst q) (snd q)"

interpretation lanes: interval_packing "\<lambda>p. int (fst p)" "\<lambda>p. int (fst p + snd p)" windows_overlap
  by unfold_locales (auto simp: windows_overlap_def rangesOverlap_def)

interpretation drafts: js_comparator compare_drafts
  by unfold_locales (auto simp: compare_drafts_def split: if_splits)

lemma place_drafts_first_fit:
  "place_drafts occupied drafts = (placed, final) \<Longrightarrow>
    first_fit windows_overlap occupied (map window drafts) = (map lane placed, final) \<and>
    map all_day_draft.truncate placed = drafts"
proof (induction drafts arbitrary: occupied placed)
  case Nil
  then show ?case by simp
next
  case (Cons d ds)
  let ?i = "first_lane windows_overlap occupied (window d)"
  have fits: "(\<lambda>lane. \<forall>item \<in> set lane. \<not> rangesOverlap (fst item) (snd item) (startIndex d) (span d)) =
      fits windows_overlap (window d)"
    by (simp add: fits_def windows_overlap_def fun_eq_iff)
  obtain rest where rest: "placed = all_day_draft.extend d \<lparr>lane = ?i\<rparr> # rest"
    "place_drafts (put_in ?i (window d) occupied) ds = (rest, final)"
    using Cons.prems find_index_Some [of "fits windows_overlap (window d)" occupied]
    by (auto simp: fits Let_def first_lane_def put_in_def split: option.splits prod.splits)
  from Cons.IH [OF rest(2)] rest(1) show ?case
    by (simp add: all_day_draft.defs all_day_placement.defs)
qed

lemma clip_some:
  assumes "clipEventToVisibleDays env event days timezone = Some (Some d)"
  obtains f l where "getEventCalendarDayRange env event (Some timezone) = Some (f, l)" "days \<noteq> []"
    "dr_event d = event" "startIndex d = advance_start days f 0"
    "int (span d) = retreat_end days l (int (length days) - 1) - int (advance_start days f 0) + 1"
    "continuesBefore d = (f < days ! 0)" "continuesAfter d = (days ! (length days - 1) < l)"
    "int (advance_start days f 0) \<le> retreat_end days l (int (length days) - 1)"
proof -
  obtain f l where "getEventCalendarDayRange env event (Some timezone) = Some (f, l)" "days \<noteq> []"
    using assms by (auto simp: clipEventToVisibleDays_def bind_eq_Some_conv split: if_splits)
  with assms that show thesis
    by (auto simp: clipEventToVisibleDays_def Let_def split: if_splits)
qed

lemma collect_drafts_member:
  "collect_drafts env days timezone events = Some drafts \<Longrightarrow> d \<in> set drafts \<Longrightarrow>
    dr_event d \<in> set events \<and> clipEventToVisibleDays env (dr_event d) days timezone = Some (Some d)"
proof (induction events arbitrary: drafts)
  case Nil
  then show ?case by simp
next
  case (Cons event events)
  obtain clipped rest where step: "collect_drafts env days timezone events = Some rest"
    "draft_of env days timezone event = Some clipped"
    "drafts = (case clipped of None \<Rightarrow> rest | Some draft \<Rightarrow> draft # rest)"
    using Cons.prems(1) by (auto simp: bind_eq_Some_conv)
  have "clipEventToVisibleDays env event days timezone = Some (Some draft)"
    if "draft_of env days timezone event = Some (Some draft)" for draft
    using that by (auto simp: draft_of_def bind_eq_Some_conv split: if_splits)
  moreover have "dr_event draft = event"
    if "clipEventToVisibleDays env event days timezone = Some (Some draft)" for draft
    using that by (rule clip_some)
  ultimately have new: "dr_event d = event \<and> clipEventToVisibleDays env event days timezone = Some (Some d)"
    if "clipped = Some d"
    using that step(2) by blast
  from step(3) Cons.prems(2) consider "d \<in> set rest" | "clipped = Some d"
    by (cases clipped) auto
  then show ?case
  proof cases
    case 1
    with Cons.IH [OF step(1)] show ?thesis by simp
  next
    case 2
    with new show ?thesis by simp
  qed
qed

lemma layout_steps:
  assumes "layoutAllDayRowEvents env events days timezone = Some layout" "days \<noteq> []"
  obtains drafts final where "collect_drafts env days timezone events = Some drafts"
    "first_fit windows_overlap [] (map window (js_sort compare_drafts drafts)) =
      (map lane (placements layout), final)"
    "laneCount layout = length final"
    "map all_day_draft.truncate (placements layout) = js_sort compare_drafts drafts"
proof -
  obtain drafts where d: "collect_drafts env days timezone events = Some drafts"
    using assms by (auto simp: layoutAllDayRowEvents_def bind_eq_Some_conv)
  obtain placed final where p: "place_drafts [] (js_sort compare_drafts drafts) = (placed, final)"
    by (cases "place_drafts [] (js_sort compare_drafts drafts)")
  have s: "collect_drafts env days timezone events = Some drafts"
    "place_drafts [] (js_sort compare_drafts drafts) = (placed, final)"
    "layout = \<lparr>placements = placed, laneCount = length final\<rparr>"
    using assms d p by (simp_all add: layoutAllDayRowEvents_def)
  with place_drafts_first_fit [OF s(2)] show thesis by (intro that [OF s(1)]) simp_all
qed

lemma window_truncate: "map window placed = map window (map all_day_draft.truncate placed)"
  by (simp add: all_day_draft.truncate_def)

text \<open>C28: Two placements of the all-day row in the same lane never overlap, and every lane is
  below the lane count.\<close>

theorem all_day_lanes_disjoint:
  assumes "layoutAllDayRowEvents env events days timezone = Some layout"
    "n < length (placements layout)"
  shows "lane (placements layout ! n) < laneCount layout \<and>
    (\<forall>m < n. lane (placements layout ! m) = lane (placements layout ! n) \<longrightarrow>
      \<not> rangesOverlap (startIndex (placements layout ! m)) (span (placements layout ! m))
        (startIndex (placements layout ! n)) (span (placements layout ! n)))"
proof -
  have "days \<noteq> []" using assms by (auto simp: layoutAllDayRowEvents_def)
  with assms(1) obtain drafts final where s:
    "first_fit windows_overlap [] (map window (js_sort compare_drafts drafts)) =
      (map lane (placements layout), final)" "laneCount layout = length final"
    "map all_day_draft.truncate (placements layout) = js_sort compare_drafts drafts"
    by (rule layout_steps)
  have w: "map window (js_sort compare_drafts drafts) = map window (placements layout)"
    using s(3) window_truncate by metis
  note ff = first_fit_lanes [OF s(1) [unfolded w], of n]
  show ?thesis
    using ff(2,3) assms(2) s(2) by (auto simp: windows_overlap_def)
qed

text \<open>The all-day row uses as few lanes as possible: no other assignment of lanes to the same
  placements that keeps overlapping placements apart has fewer.\<close>

lemma all_day_lanes_minimal:
  assumes layout: "layoutAllDayRowEvents env events days timezone = Some layout"
    and other: "\<And>m n. m < length (placements layout) \<Longrightarrow> n < length (placements layout) \<Longrightarrow> m \<noteq> n \<Longrightarrow>
      f m = f n \<Longrightarrow> \<not> rangesOverlap (startIndex (placements layout ! m)) (span (placements layout ! m))
        (startIndex (placements layout ! n)) (span (placements layout ! n))"
  shows "laneCount layout \<le> card (f ` {..<length (placements layout)})"
proof (cases "days = []")
  case True
  with layout show ?thesis by (auto simp: layoutAllDayRowEvents_def)
next
  case False
  with layout obtain drafts final where s: "collect_drafts env days timezone events = Some drafts"
    "first_fit windows_overlap [] (map window (js_sort compare_drafts drafts)) =
      (map lane (placements layout), final)" "laneCount layout = length final"
    "map all_day_draft.truncate (placements layout) = js_sort compare_drafts drafts"
    by (rule layout_steps)
  have w: "map window (js_sort compare_drafts drafts) = map window (placements layout)"
    using s(4) window_truncate by metis
  have len: "length (placements layout) = length (js_sort compare_drafts drafts)"
    using s(4) by (metis length_map)
  have "0 < span d" if "d \<in> set drafts" for d
    using clip_some [of env "dr_event d" days timezone d] collect_drafts_member [OF s(1) that]
    by (metis of_nat_0_less_iff zless_add1_eq diff_ge_0_iff_ge le_less)
  moreover have "sorted_wrt (\<lambda>a b. startIndex a \<le> startIndex b) (js_sort compare_drafts drafts)"
    by (rule sorted_wrt_mono_rel [OF _ drafts.sorted_js_sort])
      (auto simp: compare_drafts_def split: if_splits)
  ultimately have "length final \<le> card (f ` {..<length (map window (js_sort compare_drafts drafts))})"
  proof (intro lanes.lanes_minimal [OF s(2)])
    fix m n
    assume "m < length (map window (js_sort compare_drafts drafts))"
      "n < length (map window (js_sort compare_drafts drafts))" "m \<noteq> n" "f m = f n"
    with other [of m n] show "\<not> windows_overlap (map window (js_sort compare_drafts drafts) ! m)
        (map window (js_sort compare_drafts drafts) ! n)"
      unfolding w by (simp add: windows_overlap_def)
  qed (auto simp: sorted_wrt_map)
  with s(3) len show ?thesis by simp
qed

text \<open>On visible days in increasing order a placement covers exactly the columns whose day is
  in the event's day range, and its continuation flags say whether the range goes on outside.\<close>

lemma all_day_placement_exact:
  assumes "layoutAllDayRowEvents env events days timezone = Some layout" "sorted_wrt (<) days"
    "p \<in> set (placements layout)"
  shows "dr_event p \<in> set events \<and> (\<exists>f l. getEventCalendarDayRange env (dr_event p) (Some timezone) = Some (f, l) \<and>
    (\<forall>k < length days. startIndex p \<le> k \<and> k < startIndex p + span p \<longleftrightarrow> f \<le> days ! k \<and> days ! k \<le> l) \<and>
    startIndex p + span p \<le> length days \<and> 0 < span p \<and>
    continuesBefore p = (f < hd days) \<and> continuesAfter p = (last days < l))"
proof -
  have ne: "days \<noteq> []" using assms(1,3) by (auto simp: layoutAllDayRowEvents_def)
  with assms(1) obtain drafts final where s: "collect_drafts env days timezone events = Some drafts"
    "map all_day_draft.truncate (placements layout) = js_sort compare_drafts drafts"
    by (rule layout_steps)
  let ?d = "all_day_draft.truncate p"
  have "?d \<in> set (js_sort compare_drafts drafts)" using assms(3) s(2) by (metis image_eqI list.set_map)
  then have d: "dr_event ?d \<in> set events" "clipEventToVisibleDays env (dr_event ?d) days timezone = Some (Some ?d)"
    using collect_drafts_member [OF s(1), of ?d] by simp_all
  have eq: "dr_event ?d = dr_event p" "startIndex ?d = startIndex p" "span ?d = span p"
    "continuesBefore ?d = continuesBefore p" "continuesAfter ?d = continuesAfter p"
    by (simp_all add: all_day_draft.truncate_def)
  from d(2) show ?thesis
  proof (rule clip_some, unfold eq)
    fix f l
    assume c: "getEventCalendarDayRange env (dr_event p) (Some timezone) = Some (f, l)"
      "startIndex p = advance_start days f 0"
      "int (span p) = retreat_end days l (int (length days) - 1) - int (advance_start days f 0) + 1"
      "continuesBefore p = (f < days ! 0)" "continuesAfter p = (days ! (length days - 1) < l)"
      "int (advance_start days f 0) \<le> retreat_end days l (int (length days) - 1)"
    have "startIndex p \<le> k \<and> k < startIndex p + span p \<longleftrightarrow> f \<le> days ! k \<and> days ! k \<le> l" if "k < length days" for k
      using clip_window [OF assms(2) that, of f l] c(2,3) by linarith
    moreover have "startIndex p + span p \<le> length days"
      using retreat_end_spec [of "int (length days) - 1" days l] c(2,3) ne by (simp add: Suc_le_eq)
    moreover have "0 < span p" using c(3,6) by linarith
    ultimately show ?thesis using c(1,4,5) ne d(1) eq(1) by (simp add: hd_conv_nth last_conv_nth)
  qed
qed

text \<open>Two copies of a two-day event in a row of four days.\<close>

definition sample_days :: "pday list" where
  "sample_days = [19999, 20000, 20001, 20002]"

definition sample_draft :: "event_date_input all_day_draft" where
  "sample_draft = \<lparr>dr_event = sample_event, startIndex = 1, span = 2, continuesBefore = False, continuesAfter = False\<rparr>"

definition sample_layout :: "event_date_input all_day_layout" where
  "sample_layout =
     \<lparr>placements = [all_day_draft.extend sample_draft \<lparr>lane = 0\<rparr>, all_day_draft.extend sample_draft \<lparr>lane = 1\<rparr>],
      laneCount = 2\<rparr>"

lemma sample_draft_of: "draft_of plain_env sample_days ''Asia/Amman'' sample_event = Some (Some sample_draft)"
proof -
  have "clipEventToVisibleDays plain_env sample_event sample_days ''Asia/Amman'' = Some (Some sample_draft)"
    unfolding clipEventToVisibleDays_def sample_range sample_days_def sample_draft_def by code_simp
  moreover have "getZonedDayUtcBounds plain_env 20000 ''Asia/Amman'' = (1727992800000, 1728079200000)"
    "getZonedDayUtcBounds plain_env 20001 ''Asia/Amman'' = (1728079200000, 1728165600000)"
    "getZonedDayUtcBounds plain_env 19999 ''Asia/Amman'' = (1727906400000, 1727992800000)"
    "getZonedDayUtcBounds plain_env 20002 ''Asia/Amman'' = (1728165600000, 1728252000000)"
    by code_simp+
  ultimately show ?thesis
    by (simp add: draft_of_def isAllDayRowEvent_def eventOverlapsRange_days_def getEventInterval_def sample_range
        Let_def sample_days_def) (simp add: sample_event_def)
qed

lemma sample_layout:
  "layoutAllDayRowEvents plain_env [sample_event, sample_event] sample_days ''Asia/Amman'' = Some sample_layout"
proof -
  have "js_sort compare_drafts [sample_draft, sample_draft] = [sample_draft, sample_draft]"
    "place_drafts [] [sample_draft, sample_draft] = (placements sample_layout, [[(1, 2)], [(1, 2)]])"
    by (simp_all add: compare_drafts_def sample_layout_def sample_draft_def rangesOverlap_def
        all_day_draft.extend_def)
  then show ?thesis
    by (simp add: layoutAllDayRowEvents_def sample_draft_of) (simp add: sample_layout_def sample_days_def)
qed

theorem all_day_lanes_disjoint_witness:
  "lane (placements sample_layout ! 1) < laneCount sample_layout \<and>
   lane (placements sample_layout ! 0) \<noteq> lane (placements sample_layout ! 1)"
proof -
  have "rangesOverlap (startIndex (placements sample_layout ! 0)) (span (placements sample_layout ! 0))
      (startIndex (placements sample_layout ! 1)) (span (placements sample_layout ! 1))"
    by code_simp
  moreover have "1 < length (placements sample_layout)" by (simp add: sample_layout_def)
  note all_day_lanes_disjoint [OF sample_layout this]
  ultimately show ?thesis by blast
qed

lemma all_day_lanes_minimal_witness:
  "laneCount sample_layout \<le> card ((\<lambda>n. n + 5) ` {..<length (placements sample_layout)})"
  by (rule all_day_lanes_minimal [OF sample_layout]) simp

lemma all_day_placement_exact_witness:
  "dr_event (placements sample_layout ! 0) \<in> set [sample_event, sample_event] \<and>
   (\<exists>f l. getEventCalendarDayRange plain_env (dr_event (placements sample_layout ! 0)) (Some ''Asia/Amman'') = Some (f, l) \<and>
    (\<forall>k < length sample_days. startIndex (placements sample_layout ! 0) \<le> k \<and>
      k < startIndex (placements sample_layout ! 0) + span (placements sample_layout ! 0) \<longleftrightarrow>
      f \<le> sample_days ! k \<and> sample_days ! k \<le> l) \<and>
    startIndex (placements sample_layout ! 0) + span (placements sample_layout ! 0) \<le> length sample_days \<and>
    0 < span (placements sample_layout ! 0) \<and>
    continuesBefore (placements sample_layout ! 0) = (f < hd sample_days) \<and>
    continuesAfter (placements sample_layout ! 0) = (last sample_days < l))"
  by (rule all_day_placement_exact [OF sample_layout]) (simp_all add: sample_layout_def sample_days_def)

end
