(* ===== verification/OverlapClusters.thy ===== *)
theory OverlapClusters
  imports Prelude "HOL-Library.Monad_Syntax"
begin

text \<open>
  \<open>buildOverlapClusters\<close> of \<open>packages/ui/src/components/calendar/timeline-layout.ts\<close>: events are
  grouped by a union-find structure over the pairs that overlap. Events are object references
  of some type \<open>'e\<close>, compared by identity; \<open>overlaps\<close> is the test of the two loops. The search
  for a root may run forever on an arbitrary parent map, so it is a partial function; the
  lemmas show that it returns on the maps the loops build, and that the clusters are the
  connected components of the overlap relation.
\<close>

section \<open>The structure\<close>

partial_function (option) find_root :: "('e \<rightharpoonup> 'e) \<Rightarrow> 'e \<Rightarrow> 'e option" where
  "find_root parent event =
     (case parent event of
        None \<Rightarrow> None
      | Some p \<Rightarrow> if p = event then Some event else find_root parent p)"

declare find_root.simps [code]

definition union_roots :: "('e \<rightharpoonup> 'e) \<Rightarrow> 'e \<Rightarrow> 'e \<Rightarrow> ('e \<rightharpoonup> 'e) option" where
  "union_roots parent a b = do {
     rootA \<leftarrow> find_root parent a;
     rootB \<leftarrow> find_root parent b;
     Some (if rootA \<noteq> rootB then parent(rootB \<mapsto> rootA) else parent)
   }"

fun union_row :: "('e \<Rightarrow> 'e \<Rightarrow> bool) \<Rightarrow> 'e \<Rightarrow> 'e list \<Rightarrow> ('e \<rightharpoonup> 'e) \<Rightarrow> ('e \<rightharpoonup> 'e) option" where
  "union_row overlaps left [] parent = Some parent"
| "union_row overlaps left (right # rights) parent = do {
     parent' \<leftarrow> (if overlaps left right then union_roots parent left right else Some parent);
     union_row overlaps left rights parent'
   }"

fun union_pairs :: "('e \<Rightarrow> 'e \<Rightarrow> bool) \<Rightarrow> 'e list \<Rightarrow> ('e \<rightharpoonup> 'e) \<Rightarrow> ('e \<rightharpoonup> 'e) option" where
  "union_pairs overlaps [] parent = Some parent"
| "union_pairs overlaps (left # rights) parent = do {
     parent' \<leftarrow> union_row overlaps left rights parent;
     union_pairs overlaps rights parent'
   }"

definition seed_parents :: "'e list \<Rightarrow> ('e \<rightharpoonup> 'e)" where
  "seed_parents events = foldl (\<lambda>parent event. parent(event \<mapsto> event)) Map.empty events"

fun group_by_root :: "('e \<rightharpoonup> 'e) \<Rightarrow> 'e list \<Rightarrow> ('e \<rightharpoonup> 'e list) \<Rightarrow> ('e \<rightharpoonup> 'e list) option" where
  "group_by_root parent [] clusters = Some clusters"
| "group_by_root parent (event # events) clusters = do {
     rt \<leftarrow> find_root parent event;
     let cluster = (case clusters rt of None \<Rightarrow> [] | Some es \<Rightarrow> es);
     group_by_root parent events (clusters(rt \<mapsto> cluster @ [event]))
   }"

fun cluster_of_events ::
  "('e \<rightharpoonup> 'e) \<Rightarrow> ('e \<rightharpoonup> 'e list) \<Rightarrow> 'e list \<Rightarrow> ('e \<rightharpoonup> 'e list) \<Rightarrow> ('e \<rightharpoonup> 'e list) option" where
  "cluster_of_events parent clusters [] eventCluster = Some eventCluster"
| "cluster_of_events parent clusters (event # events) eventCluster = do {
     rt \<leftarrow> find_root parent event;
     cluster_of_events parent clusters events
       (eventCluster(event \<mapsto> (case clusters rt of None \<Rightarrow> [event] | Some es \<Rightarrow> es)))
   }"

definition buildOverlapClusters :: "('e \<Rightarrow> 'e \<Rightarrow> bool) \<Rightarrow> 'e list \<Rightarrow> ('e \<rightharpoonup> 'e list) option" where
  "buildOverlapClusters overlaps events = do {
     parent \<leftarrow> union_pairs overlaps events (seed_parents events);
     clustersByRoot \<leftarrow> group_by_root parent events Map.empty;
     cluster_of_events parent clustersByRoot events Map.empty
   }"

section \<open>Roots\<close>

inductive root_of :: "('e \<rightharpoonup> 'e) \<Rightarrow> 'e \<Rightarrow> 'e \<Rightarrow> bool" for parent where
  here: "parent x = Some x \<Longrightarrow> root_of parent x x"
| up: "parent x = Some y \<Longrightarrow> y \<noteq> x \<Longrightarrow> root_of parent y r \<Longrightarrow> root_of parent x r"

inductive_cases root_of_cases: "root_of parent x r"

lemma find_root_root_of: "root_of parent x r \<Longrightarrow> find_root parent x = Some r"
  by (induction rule: root_of.induct) (subst find_root.simps, simp)+

lemma root_of_unique: "root_of parent x r \<Longrightarrow> root_of parent x s \<Longrightarrow> s = r"
  by (drule find_root_root_of)+ simp

lemma root_of_root: "root_of parent x r \<Longrightarrow> parent r = Some r"
  by (induction rule: root_of.induct)

lemma root_of_link:
  assumes "root_of parent x r" "parent ra = Some ra" "parent rb = Some rb" "ra \<noteq> rb"
  shows "root_of (parent(rb \<mapsto> ra)) x (if r = rb then ra else r)"
  using assms(1)
proof (induction rule: root_of.induct)
  case (here x)
  show ?case
  proof (cases "x = rb")
    case True
    have "root_of (parent(rb \<mapsto> ra)) ra ra" using assms by (intro root_of.here) simp
    then have "root_of (parent(rb \<mapsto> ra)) rb ra" using assms(4) by (intro root_of.up [of _ rb ra]) simp_all
    with True show ?thesis by (simp del: fun_upd_apply)
  next
    case False
    with here show ?thesis by (auto intro: root_of.here)
  qed
next
  case (up x y r)
  then have "x \<noteq> rb" using assms(3) by auto
  with up show ?case by (auto intro: root_of.up)
qed

text \<open>Every event of the set has a root in it.\<close>

definition rooted :: "'e set \<Rightarrow> ('e \<rightharpoonup> 'e) \<Rightarrow> bool" where
  "rooted S parent \<longleftrightarrow> (\<forall>x \<in> S. \<exists>r. root_of parent x r)"

definition same_root :: "('e \<rightharpoonup> 'e) \<Rightarrow> 'e \<Rightarrow> 'e \<Rightarrow> bool" where
  "same_root parent x y \<longleftrightarrow> (\<exists>r. root_of parent x r \<and> root_of parent y r)"

lemma same_root_iff:
  assumes "root_of parent x s" "root_of parent y t"
  shows "same_root parent x y \<longleftrightarrow> s = t"
proof
  assume "same_root parent x y"
  then obtain r where "root_of parent x r" "root_of parent y r" unfolding same_root_def by blast
  with root_of_unique [OF assms(1)] root_of_unique [OF assms(2)] show "s = t" by simp
next
  assume "s = t"
  with assms show "same_root parent x y" unfolding same_root_def by blast
qed

lemma union_roots_spec:
  assumes "rooted S parent" "a \<in> S" "b \<in> S"
  obtains parent' where "union_roots parent a b = Some parent'" "rooted S parent'"
    "\<And>x y. x \<in> S \<Longrightarrow> y \<in> S \<Longrightarrow> same_root parent' x y \<longleftrightarrow>
      same_root parent x y \<or> same_root parent x a \<and> same_root parent b y \<or>
      same_root parent x b \<and> same_root parent a y"
proof -
  obtain ra rb where r: "root_of parent a ra" "root_of parent b rb"
    using assms unfolding rooted_def by blast
  show thesis
  proof (cases "ra = rb")
    case True
    with r have "same_root parent x y \<longleftrightarrow>
      same_root parent x y \<or> same_root parent x a \<and> same_root parent b y \<or>
      same_root parent x b \<and> same_root parent a y" for x y
      unfolding same_root_def by (metis root_of_unique)
    with True r assms(1) show thesis
      by (intro that [of parent]) (simp_all add: union_roots_def find_root_root_of)
  next
    case False
    let ?p = "parent(rb \<mapsto> ra)"
    have link: "root_of ?p x (if s = rb then ra else s)" if "root_of parent x s" for x s
      using root_of_link [OF that root_of_root [OF r(1)] root_of_root [OF r(2)] False] .
    have "same_root ?p x y \<longleftrightarrow> same_root parent x y \<or> same_root parent x a \<and> same_root parent b y \<or>
      same_root parent x b \<and> same_root parent a y" if xy: "x \<in> S" "y \<in> S" for x y
    proof -
      obtain s t where st: "root_of parent x s" "root_of parent y t"
        using assms(1) xy unfolding rooted_def by blast
      have "same_root ?p x y \<longleftrightarrow> (if s = rb then ra else s) = (if t = rb then ra else t)"
        by (rule same_root_iff [OF link [OF st(1)] link [OF st(2)]])
      also have "\<dots> \<longleftrightarrow> s = t \<or> s = ra \<and> rb = t \<or> s = rb \<and> ra = t" using False by auto
      also have "\<dots> \<longleftrightarrow> same_root parent x y \<or> same_root parent x a \<and> same_root parent b y \<or>
          same_root parent x b \<and> same_root parent a y"
        using st r by (simp add: same_root_iff)
      finally show ?thesis .
    qed
    moreover have "rooted S ?p" using assms(1) link unfolding rooted_def by blast
    ultimately show thesis using r False
      by (intro that [of ?p]) (simp_all add: union_roots_def find_root_root_of)
  qed
qed

section \<open>Connected components\<close>

definition conn :: "('e \<times> 'e) set \<Rightarrow> ('e \<times> 'e) set" where
  "conn E = (E \<union> E\<inverse>)\<^sup>*"

lemma conn_sym: "(x, y) \<in> conn E \<Longrightarrow> (y, x) \<in> conn E"
  unfolding conn_def by (metis converse_Un converse_converse rtrancl_converseI sup_commute)

lemma conn_trans: "(x, y) \<in> conn E \<Longrightarrow> (y, z) \<in> conn E \<Longrightarrow> (x, z) \<in> conn E"
  unfolding conn_def by (rule rtrancl_trans)

lemma conn_right: "(a, b) \<in> conn E \<Longrightarrow> (x, a) \<in> conn E \<longleftrightarrow> (x, b) \<in> conn E"
  using conn_trans [of x a E b] conn_trans [of x b E a] conn_sym [of a b E] by blast

lemma conn_insert:
  "(x, y) \<in> conn (insert (a, b) E) \<longleftrightarrow>
    (x, y) \<in> conn E \<or> (x, a) \<in> conn E \<and> (b, y) \<in> conn E \<or> (x, b) \<in> conn E \<and> (a, y) \<in> conn E"
proof -
  have "insert (a, b) E \<union> (insert (a, b) E)\<inverse> = insert (a, b) (insert (b, a) (E \<union> E\<inverse>))" by auto
  then have "(x, y) \<in> conn (insert (a, b) E) \<longleftrightarrow>
      (x, y) \<in> (insert (a, b) (insert (b, a) (E \<union> E\<inverse>)))\<^sup>*" by (simp add: conn_def)
  also have "\<dots> \<longleftrightarrow> (x, y) \<in> conn E \<or> (x, b) \<in> conn E \<and> (a, y) \<in> conn E \<or>
      ((x, a) \<in> conn E \<or> (x, b) \<in> conn E \<and> (a, a) \<in> conn E) \<and>
      ((b, y) \<in> conn E \<or> (b, b) \<in> conn E \<and> (a, y) \<in> conn E)"
    unfolding rtrancl_insert conn_def by blast
  also have "\<dots> \<longleftrightarrow> (x, y) \<in> conn E \<or> (x, a) \<in> conn E \<and> (b, y) \<in> conn E \<or> (x, b) \<in> conn E \<and> (a, y) \<in> conn E"
    using conn_sym conn_trans by (metis (no_types, opaque_lifting) conn_def rtrancl.rtrancl_refl)
  finally show ?thesis .
qed

definition represents :: "'e set \<Rightarrow> ('e \<times> 'e) set \<Rightarrow> ('e \<rightharpoonup> 'e) \<Rightarrow> bool" where
  "represents S E parent \<longleftrightarrow>
     rooted S parent \<and> (\<forall>x \<in> S. \<forall>y \<in> S. same_root parent x y \<longleftrightarrow> (x, y) \<in> conn E)"

fun overlap_edges :: "('e \<Rightarrow> 'e \<Rightarrow> bool) \<Rightarrow> 'e list \<Rightarrow> ('e \<times> 'e) set" where
  "overlap_edges overlaps [] = {}"
| "overlap_edges overlaps (e # es) = {(e, x) | x. x \<in> set es \<and> overlaps e x} \<union> overlap_edges overlaps es"

lemma represents_edge:
  assumes "represents S E parent" "a \<in> S" "b \<in> S"
  obtains parent' where "union_roots parent a b = Some parent'" "represents S (insert (a, b) E) parent'"
proof -
  obtain parent' where p: "union_roots parent a b = Some parent'" "rooted S parent'"
    "\<And>x y. x \<in> S \<Longrightarrow> y \<in> S \<Longrightarrow> same_root parent' x y \<longleftrightarrow>
      same_root parent x y \<or> same_root parent x a \<and> same_root parent b y \<or>
      same_root parent x b \<and> same_root parent a y"
    using assms union_roots_spec unfolding represents_def by metis
  have "same_root parent x y \<longleftrightarrow> (x, y) \<in> conn E" if "x \<in> S" "y \<in> S" for x y
    using assms(1) that by (simp add: represents_def)
  with assms(2,3) p(2,3) have "represents S (insert (a, b) E) parent'"
    by (simp add: represents_def conn_insert)
  with p(1) that show thesis by blast
qed

lemma union_row_represents:
  "represents S E parent \<Longrightarrow> left \<in> S \<Longrightarrow> set rights \<subseteq> S \<Longrightarrow>
    \<exists>parent'. union_row overlaps left rights parent = Some parent' \<and>
      represents S ({(left, x) | x. x \<in> set rights \<and> overlaps left x} \<union> E) parent'"
proof (induction rights arbitrary: parent E)
  case Nil
  then show ?case by simp
next
  case (Cons r rs)
  let ?row = "{(left, x) | x. x \<in> set rs \<and> overlaps left x}"
  show ?case
  proof (cases "overlaps left r")
    case True
    obtain p where p: "union_roots parent left r = Some p" "represents S (insert (left, r) E) p"
      using represents_edge [OF Cons.prems(1)] Cons.prems(2,3) by (metis list.set_intros(1) subsetD)
    have "{(left, x) | x. x \<in> set (r # rs) \<and> overlaps left x} \<union> E = ?row \<union> insert (left, r) E"
      using True by auto
    with p Cons.IH [OF p(2)] Cons.prems(2,3) True show ?thesis by simp
  next
    case False
    then have "{(left, x) | x. x \<in> set (r # rs) \<and> overlaps left x} = ?row" by auto
    with Cons.IH [OF Cons.prems(1)] Cons.prems(2,3) False show ?thesis by simp
  qed
qed

lemma union_pairs_represents:
  "represents S E parent \<Longrightarrow> set events \<subseteq> S \<Longrightarrow>
    \<exists>parent'. union_pairs overlaps events parent = Some parent' \<and>
      represents S (overlap_edges overlaps events \<union> E) parent'"
proof (induction events arbitrary: parent E)
  case Nil
  then show ?case by simp
next
  case (Cons e es)
  then obtain p where p: "union_row overlaps e es parent = Some p"
    "represents S ({(e, x) | x. x \<in> set es \<and> overlaps e x} \<union> E) p"
    using union_row_represents [OF Cons.prems(1), of e es overlaps] by auto
  have "overlap_edges overlaps (e # es) \<union> E =
      overlap_edges overlaps es \<union> ({(e, x) | x. x \<in> set es \<and> overlaps e x} \<union> E)" by auto
  with p(1) Cons.IH [OF p(2)] Cons.prems(2) show ?case by simp
qed

lemma seed_parents_apply: "seed_parents events x = (if x \<in> set events then Some x else None)"
proof -
  have "foldl (\<lambda>p e. p(e \<mapsto> e)) p events x = (if x \<in> set events then Some x else p x)" for p :: "'a \<rightharpoonup> 'a"
    by (induction events arbitrary: p) auto
  then show ?thesis by (simp add: seed_parents_def)
qed

lemma seed_represents: "represents (set events) {} (seed_parents events)"
proof -
  have "root_of (seed_parents events) x x" if "x \<in> set events" for x
    using that by (intro root_of.here) (simp add: seed_parents_apply)
  moreover from this have "same_root (seed_parents events) x y \<longleftrightarrow> x = y" if "x \<in> set events" "y \<in> set events" for x y
    unfolding same_root_def using that by (metis root_of_unique)
  ultimately show ?thesis by (auto simp: represents_def rooted_def conn_def)
qed

definition add_members :: "('e \<rightharpoonup> 'e list) \<Rightarrow> ('e \<rightharpoonup> 'e) \<Rightarrow> 'e list \<Rightarrow> ('e \<rightharpoonup> 'e list)" where
  "add_members clusters parent events r =
     (let new = filter (\<lambda>x. root_of parent x r) events
      in if new = [] then clusters r
         else Some ((case clusters r of None \<Rightarrow> [] | Some es \<Rightarrow> es) @ new))"

lemma group_by_root_spec:
  assumes "rooted S parent"
  shows "set events \<subseteq> S \<Longrightarrow> group_by_root parent events clusters = Some (add_members clusters parent events)"
proof (induction events arbitrary: clusters)
  case Nil
  then show ?case by (simp add: add_members_def fun_eq_iff)
next
  case (Cons e es)
  then obtain r where r: "root_of parent e r" using assms unfolding rooted_def by auto
  then have only: "root_of parent e s \<longleftrightarrow> s = r" for s using root_of_unique by metis
  have "add_members (clusters(r \<mapsto> (case clusters r of None \<Rightarrow> [] | Some es \<Rightarrow> es) @ [e])) parent es =
      add_members clusters parent (e # es)"
  proof
    fix s
    show "add_members (clusters(r \<mapsto> (case clusters r of None \<Rightarrow> [] | Some es \<Rightarrow> es) @ [e])) parent es s =
        add_members clusters parent (e # es) s"
      by (cases "s = r") (simp_all add: add_members_def only Let_def)
  qed
  with Cons r show ?case by (simp add: find_root_root_of Let_def)
qed

definition cluster_at :: "('e \<rightharpoonup> 'e) \<Rightarrow> ('e \<rightharpoonup> 'e list) \<Rightarrow> 'e \<Rightarrow> 'e list" where
  "cluster_at parent clusters x =
     (case clusters (the (find_root parent x)) of None \<Rightarrow> [x] | Some es \<Rightarrow> es)"

lemma cluster_of_events_spec:
  assumes "rooted S parent"
  shows "set events \<subseteq> S \<Longrightarrow> cluster_of_events parent clusters events before =
    Some (\<lambda>x. if x \<in> set events then Some (cluster_at parent clusters x) else before x)"
proof (induction events arbitrary: before)
  case Nil
  then show ?case by simp
next
  case (Cons e es)
  then obtain r where r: "find_root parent e = Some r"
    using assms find_root_root_of unfolding rooted_def by (metis list.set_intros(1) subsetD)
  then have "(case clusters r of None \<Rightarrow> [e] | Some es \<Rightarrow> es) = cluster_at parent clusters e"
    by (simp add: cluster_at_def)
  with Cons r show ?case by (auto simp: fun_eq_iff)
qed

text \<open>The clusters exist and are the connected components of the overlap relation.\<close>

lemma clusters_are_components:
  "\<exists>clusters. buildOverlapClusters overlaps events = Some clusters \<and>
    (\<forall>e \<in> set events. clusters e =
      Some (filter (\<lambda>x. (x, e) \<in> conn (overlap_edges overlaps events)) events))"
proof -
  obtain parent where p: "union_pairs overlaps events (seed_parents events) = Some parent"
    "represents (set events) (overlap_edges overlaps events) parent"
    using union_pairs_represents [OF seed_represents subset_refl, of overlaps events] by auto
  then have rooted: "rooted (set events) parent" by (simp add: represents_def)
  let ?byRoot = "add_members Map.empty parent events"
  have g: "group_by_root parent events Map.empty = Some ?byRoot"
    by (rule group_by_root_spec [OF rooted subset_refl])
  have c: "cluster_of_events parent ?byRoot events Map.empty =
      Some (\<lambda>x. if x \<in> set events then Some (cluster_at parent ?byRoot x) else None)"
    using cluster_of_events_spec [OF rooted subset_refl] by simp
  have "cluster_at parent ?byRoot e = filter (\<lambda>x. (x, e) \<in> conn (overlap_edges overlaps events)) events"
    if e: "e \<in> set events" for e
  proof -
    obtain r where r: "root_of parent e r" using rooted e unfolding rooted_def by blast
    have "root_of parent x r \<longleftrightarrow> (x, e) \<in> conn (overlap_edges overlaps events)" if "x \<in> set events" for x
    proof -
      have "root_of parent x r \<longleftrightarrow> same_root parent x e"
        unfolding same_root_def using r root_of_unique by metis
      with p(2) that e show ?thesis by (simp add: represents_def)
    qed
    then have "filter (\<lambda>x. root_of parent x r) events =
        filter (\<lambda>x. (x, e) \<in> conn (overlap_edges overlaps events)) events"
      by (intro filter_cong) simp_all
    moreover have "filter (\<lambda>x. root_of parent x r) events \<noteq> []"
      using r e by (auto simp: filter_empty_conv)
    ultimately show ?thesis by (simp add: cluster_at_def find_root_root_of [OF r] add_members_def)
  qed
  with p(1) g c show ?thesis by (simp add: buildOverlapClusters_def)
qed

text \<open>C24: Building the overlap clusters always returns, and the cluster of an event is its
  connected component: the events it reaches through overlapping pairs, in order.\<close>

theorem overlap_clusters_total:
  "\<exists>clusters. buildOverlapClusters overlaps events = Some clusters \<and>
    (\<forall>e \<in> set events. clusters e =
      Some (filter (\<lambda>x. (x, e) \<in> conn (overlap_edges overlaps events)) events))"
  by (rule clusters_are_components)

theorem overlap_clusters_total_witness:
  "\<exists>clusters. buildOverlapClusters (\<lambda>a b. b = a + 1) [1, 2, 3, 7 :: nat] = Some clusters \<and>
    (\<forall>e \<in> set [1, 2, 3, 7 :: nat]. clusters e =
      Some (filter (\<lambda>x. (x, e) \<in> conn (overlap_edges (\<lambda>a b. b = a + 1) [1, 2, 3, 7])) [1, 2, 3, 7]))"
  by (rule overlap_clusters_total)

end
