(* ===== verification/TimelineLayout.thy ===== *)
theory TimelineLayout
  imports EventDate Packing OverlapClusters
begin

text \<open>
  The timeline of a day, \<open>packages/ui/src/components/calendar/timeline-layout.ts\<close>: events are
  clipped to the day, put into columns by first fit, and each column count is that of the
  event's overlap cluster. The code keys its maps by event objects, so an event is an object
  reference (a number) and \<open>obj\<close> reads the object. Widths and positions, doubles in the source,
  are rationals. The functions of \<open>date-fns\<close> used here are fields of \<open>timeline_env\<close>.
\<close>

section \<open>Data\<close>

record timeline_env =
  te_dates :: date_env
  areIntervalsOverlapping :: "int \<times> int \<Rightarrow> int \<times> int \<Rightarrow> bool"
  differenceInMinutes :: "int \<Rightarrow> int \<Rightarrow> int"
  isSameDay :: "pday \<Rightarrow> int \<Rightarrow> bool"
  addHours :: "int \<Rightarrow> int \<Rightarrow> int"

datatype timeline_width_strategy = Desktop_cascade | No_overflow | Simple_no_overflow | Mobile_cascade

record timeline_layout_options =
  cellHeight :: rat
  startHour :: rat
  minHeight :: rat
  sortByDurationOnTie :: bool
  widthStrategy :: timeline_width_strategy
  tl_timezone :: "string option"

record positioned_timeline_event =
  pe_event :: nat
  pe_top :: rat
  pe_height :: rat
  pe_left :: rat
  pe_width :: rat
  pe_zIndex :: int

type_synonym objects = "nat \<Rightarrow> event_date_input"
type_synonym timeline_column_event = "nat \<times> int \<times> int"

section \<open>Intervals and order\<close>

definition getAdjustedEventInterval ::
  "timeline_env \<Rightarrow> event_date_input \<Rightarrow> pday \<Rightarrow> string option \<Rightarrow> (int \<times> int) option" where
  "getAdjustedEventInterval te event day timezone =
     (let eventStart = ev_start event; eventEnd = ev_end event; env = te_dates te;
          zone = (case timezone of None \<Rightarrow> [] | Some z \<Rightarrow> z) in
      if zone \<noteq> [] then do {
        let (dayStart, dayEnd) = getZonedDayUtcBounds env day zone;
        startsHere \<leftarrow> isSameCalendarDayInTimezone env eventStart day zone;
        endsHere \<leftarrow> isSameCalendarDayInTimezone env eventEnd day zone;
        Some (if startsHere then eventStart else dayStart, if endsHere then eventEnd else dayEnd)
      }
      else let dayStart = startOfDay env day
           in Some (if isSameDay te day eventStart then eventStart else dayStart,
                    if isSameDay te day eventEnd then eventEnd else addHours te dayStart 24))"

definition compare_timeline :: "timeline_env \<Rightarrow> objects \<Rightarrow> bool \<Rightarrow> nat \<Rightarrow> nat \<Rightarrow> int" where
  "compare_timeline te obj byDuration a b =
     (let aStart = ev_start (obj a); bStart = ev_start (obj b) in
      if aStart < bStart then -1
      else if aStart > bStart then 1
      else if \<not> byDuration then 0
      else differenceInMinutes te (ev_end (obj b)) bStart - differenceInMinutes te (ev_end (obj a)) aStart)"

definition sortTimelineEvents :: "timeline_env \<Rightarrow> objects \<Rightarrow> nat list \<Rightarrow> bool \<Rightarrow> nat list" where
  "sortTimelineEvents te obj events byDuration = js_sort (compare_timeline te obj byDuration) events"

section \<open>Widths\<close>

definition calculateEqualColumns :: "nat \<Rightarrow> nat \<Rightarrow> rat \<times> rat" where
  "calculateEqualColumns columnCount columnIndex =
     (let width = 1 / of_nat columnCount in (width, of_nat columnIndex * width))"

definition getClusterColumnCount :: "nat list \<Rightarrow> (nat \<rightharpoonup> nat) \<Rightarrow> nat" where
  "getClusterColumnCount cluster eventColumnMapping =
     foldl (\<lambda>maxColumnIndex event.
        max maxColumnIndex (case eventColumnMapping event of None \<Rightarrow> 0 | Some i \<Rightarrow> i)) 0 cluster + 1"

text \<open>The pair of width and left edge.\<close>

definition calculateWidth :: "timeline_width_strategy \<Rightarrow> nat \<Rightarrow> nat \<Rightarrow> rat \<times> rat" where
  "calculateWidth strategy columnCount columnIndex =
     (let n = of_nat columnCount :: rat; i = of_nat columnIndex :: rat in
      if columnCount = 1 then
        if strategy = Mobile_cascade then (95/100, 2/100) else (1, 0)
      else if strategy = No_overflow \<or> strategy = Simple_no_overflow then
        calculateEqualColumns columnCount columnIndex
      else if strategy = Desktop_cascade then
        if columnCount \<le> 3 then (1 / n * (95/100), i * (1 / n) + i * (1/100))
        else let baseWidth = 75/100;
                 widthDecrement = min (1/10) (5/10 / n);
                 offsetIncrement = min (15/100) (8/10 / n)
             in (baseWidth - i * widthDecrement, i * offsetIncrement)
      else if strategy = Mobile_cascade then
        if columnCount = 2 then
          (if columnIndex = 0 then 92/100 else 78/100, if columnIndex = 0 then 2/100 else 18/100)
        else if columnCount = 3 then
          let widths = [88/100, 74/100, 6/10]; positions = [2/100, 12/100, 28/100]
          in (if columnIndex < 3 then widths ! columnIndex else 55/100,
              if columnIndex < 3 then positions ! columnIndex else 38/100)
        else (max (55/100) (72/100 - i * (6/100)), min (i * (1/10)) (35/100))
      else let gap = 5/1000; totalGap = (n - 1) * gap; availableWidth = 1 - totalGap;
               width = availableWidth / n
           in (width, if columnIndex = 0 then 0 else i * (width + gap)))"

section \<open>Columns\<close>

function find_column ::
  "timeline_env \<Rightarrow> int \<times> int \<Rightarrow> timeline_column_event list list \<Rightarrow> nat \<Rightarrow> nat" where
  "find_column te adjustedInterval columns columnIndex =
     (let column = (if columnIndex < length columns then columns ! columnIndex else []) in
      if column = [] then columnIndex
      else if list_ex (\<lambda>columnEvent. areIntervalsOverlapping te adjustedInterval (snd columnEvent)) column
      then find_column te adjustedInterval columns (columnIndex + 1)
      else columnIndex)"
  by pat_completeness auto
termination by (relation "measure (\<lambda>(_, _, columns, i). length columns - i)") (auto split: if_splits)

declare find_column.simps [simp del]

fun place_events ::
  "timeline_env \<Rightarrow> objects \<Rightarrow> pday \<Rightarrow> string option \<Rightarrow> nat list \<Rightarrow> timeline_column_event list list \<Rightarrow>
   (nat \<rightharpoonup> nat) \<Rightarrow> (timeline_column_event list list \<times> (nat \<rightharpoonup> nat)) option" where
  "place_events te obj day timezone [] columns mapping = Some (columns, mapping)"
| "place_events te obj day timezone (event # events) columns mapping = do {
     adjustedInterval \<leftarrow> getAdjustedEventInterval te (obj event) day timezone;
     let columnIndex = find_column te adjustedInterval columns 0;
     let grown = (if columnIndex < length columns then columns else columns @ [[]]);
     let columns' = grown[columnIndex := grown ! columnIndex @ [(event, adjustedInterval)]];
     place_events te obj day timezone events columns' (mapping(event \<mapsto> columnIndex))
   }"

text \<open>The intervals have been computed once for every event when they are read again.\<close>

definition adjusted :: "timeline_env \<Rightarrow> objects \<Rightarrow> pday \<Rightarrow> string option \<Rightarrow> nat \<Rightarrow> int \<times> int" where
  "adjusted te obj day timezone event =
     (case getAdjustedEventInterval te (obj event) day timezone of None \<Rightarrow> (0, 0) | Some iv \<Rightarrow> iv)"

definition position_event ::
  "timeline_env \<Rightarrow> objects \<Rightarrow> pday \<Rightarrow> timeline_layout_options \<Rightarrow> (nat \<rightharpoonup> nat) \<Rightarrow> (nat \<rightharpoonup> nat) \<Rightarrow>
   nat \<Rightarrow> positioned_timeline_event" where
  "position_event te obj day opts mapping counts event =
     (let (adjStart, adjEnd) = adjusted te obj day (tl_timezone opts) event;
          dayStart = (case tl_timezone opts of
              None \<Rightarrow> startOfDay (te_dates te) day
            | Some z \<Rightarrow> if z = [] then startOfDay (te_dates te) day
                        else fst (getZonedDayUtcBounds (te_dates te) day z));
          start = of_int (differenceInMinutes te adjStart dayStart) / 60;
          endAt = of_int (differenceInMinutes te adjEnd dayStart) / 60;
          top = (start - startHour opts) * cellHeight opts;
          height = max ((endAt - start) * cellHeight opts) (minHeight opts);
          columnIndex = (case mapping event of None \<Rightarrow> 0 | Some i \<Rightarrow> i);
          columnCount = (case counts event of None \<Rightarrow> 1 | Some n \<Rightarrow> n);
          (width, left) = calculateWidth (widthStrategy opts) columnCount columnIndex
      in \<lparr>pe_event = event, pe_top = top, pe_height = height, pe_left = left, pe_width = width,
          pe_zIndex = 10 + int columnIndex\<rparr>)"

definition layoutTimelineEvents ::
  "timeline_env \<Rightarrow> objects \<Rightarrow> nat list \<Rightarrow> pday \<Rightarrow> timeline_layout_options \<Rightarrow>
   positioned_timeline_event list option" where
  "layoutTimelineEvents te obj events day opts = do {
     let sortedEvents = sortTimelineEvents te obj events (sortByDurationOnTie opts);
     (columns, eventColumnMapping) \<leftarrow> place_events te obj day (tl_timezone opts) sortedEvents [] Map.empty;
     let adj = adjusted te obj day (tl_timezone opts);
     eventClusters \<leftarrow> buildOverlapClusters
       (\<lambda>left right. areIntervalsOverlapping te (adj left) (adj right)) sortedEvents;
     let clusterColumnCounts = foldl (\<lambda>counts event. counts(event \<mapsto>
           getClusterColumnCount (case eventClusters event of None \<Rightarrow> [event] | Some es \<Rightarrow> es)
             eventColumnMapping)) Map.empty sortedEvents;
     Some (map (position_event te obj day opts eventColumnMapping clusterColumnCounts) sortedEvents)
   }"

section \<open>Columns are a first fit\<close>

interpretation timeline: js_comparator "compare_timeline te obj byDuration"
  by unfold_locales (auto simp: compare_timeline_def Let_def split: if_splits)

definition column_conflict ::
  "timeline_env \<Rightarrow> timeline_column_event \<Rightarrow> timeline_column_event \<Rightarrow> bool" where
  "column_conflict te y x = areIntervalsOverlapping te (snd x) (snd y)"

lemma find_column_index:
  assumes "\<forall>column \<in> set columns. column \<noteq> []" "i \<le> length columns"
  shows "find_column te iv columns i =
    (case find_index (fits (column_conflict te) (e, iv)) (drop i columns) of
       None \<Rightarrow> length columns | Some k \<Rightarrow> i + k)"
  using assms
proof (induction te iv columns i rule: find_column.induct)
  case (1 te iv columns i)
  show ?case
  proof (cases "i < length columns")
    case True
    then have d: "drop i columns = columns ! i # drop (i + 1) columns" by (simp add: Cons_nth_drop_Suc)
    have ne: "columns ! i \<noteq> []" using True 1(2) nth_mem by blast
    have fit: "fits (column_conflict te) (e, iv) (columns ! i) \<longleftrightarrow>
        \<not> list_ex (\<lambda>c. areIntervalsOverlapping te iv (snd c)) (columns ! i)"
      by (auto simp: fits_def column_conflict_def list_ex_iff)
    show ?thesis
    proof (cases "fits (column_conflict te) (e, iv) (columns ! i)")
      case True
      with ne fit \<open>i < length columns\<close> show ?thesis by (subst find_column.simps) (simp add: d)
    next
      case False
      with ne fit \<open>i < length columns\<close> have "find_column te iv columns i = find_column te iv columns (i + 1)"
        by (subst find_column.simps) simp
      moreover have "find_column te iv columns (i + 1) =
          (case find_index (fits (column_conflict te) (e, iv)) (drop (i + 1) columns) of
             None \<Rightarrow> length columns | Some k \<Rightarrow> (i + 1) + k)"
        using 1 ne False fit \<open>i < length columns\<close> by simp
      ultimately show ?thesis using False by (simp add: d split: option.splits)
    qed
  next
    case False
    with 1(3) show ?thesis by (subst find_column.simps) simp
  qed
qed

lemma find_column_first_lane:
  "\<forall>column \<in> set columns. column \<noteq> [] \<Longrightarrow>
    find_column te iv columns 0 = first_lane (column_conflict te) columns (e, iv)"
  using find_column_index [of columns 0 te iv e] by (simp add: first_lane_def split: option.splits)

lemma put_in_nonempty: "\<forall>c \<in> set cs. c \<noteq> [] \<Longrightarrow> \<forall>c \<in> set (put_in i x cs). c \<noteq> []"
  by (auto simp: put_in_def dest!: set_update_subset_insert [THEN subsetD])

definition tagged :: "timeline_env \<Rightarrow> objects \<Rightarrow> pday \<Rightarrow> string option \<Rightarrow> nat \<Rightarrow> timeline_column_event" where
  "tagged te obj day timezone event = (event, adjusted te obj day timezone event)"

lemma place_events_first_fit:
  "place_events te obj day timezone events columns mapping = Some (columns', mapping') \<Longrightarrow>
    \<forall>column \<in> set columns. column \<noteq> [] \<Longrightarrow> distinct events \<Longrightarrow>
    \<exists>is. first_fit (column_conflict te) columns (map (tagged te obj day timezone) events) = (is, columns') \<and>
      (\<forall>n < length events. mapping' (events ! n) = Some (is ! n)) \<and>
      (\<forall>e. e \<notin> set events \<longrightarrow> mapping' e = mapping e)"
proof (induction events arbitrary: columns mapping)
  case Nil
  then show ?case by simp
next
  case (Cons e es)
  let ?i = "first_lane (column_conflict te) columns (tagged te obj day timezone e)"
  from Cons.prems(1) obtain iv where iv: "getAdjustedEventInterval te (obj e) day timezone = Some iv"
    by (auto simp: bind_eq_Some_conv)
  then have t: "tagged te obj day timezone e = (e, iv)" by (simp add: tagged_def adjusted_def)
  have c: "find_column te iv columns 0 = ?i" unfolding t by (rule find_column_first_lane [OF Cons.prems(2)])
  have "(let grown = (if ?i < length columns then columns else columns @ [[]])
      in grown[?i := grown ! ?i @ [(e, iv)]]) = put_in ?i (e, iv) columns"
    using first_lane_le [of "column_conflict te" columns "tagged te obj day timezone e"]
    by (auto simp: put_in_def)
  with Cons.prems(1) iv c have step: "place_events te obj day timezone es (put_in ?i (e, iv) columns)
      (mapping(e \<mapsto> ?i)) = Some (columns', mapping')"
    by (simp add: Let_def)
  obtain "is" where "is": "first_fit (column_conflict te) (put_in ?i (e, iv) columns)
      (map (tagged te obj day timezone) es) = (is, columns')"
    "\<forall>n < length es. mapping' (es ! n) = Some (is ! n)"
    "\<forall>x. x \<notin> set es \<longrightarrow> mapping' x = (mapping(e \<mapsto> ?i)) x"
    using Cons.IH [OF step put_in_nonempty [OF Cons.prems(2)]] Cons.prems(3) by auto
  have "\<forall>n < length (e # es). mapping' ((e # es) ! n) = Some ((?i # is) ! n)"
    using "is"(2,3) Cons.prems(3) by (auto simp: nth_Cons split: nat.splits)
  moreover have "first_fit (column_conflict te) columns (map (tagged te obj day timezone) (e # es)) = (?i # is, columns')"
    using "is"(1) t by (simp add: Let_def)
  ultimately show ?case using "is"(3) by (intro exI [of _ "?i # is"]) simp
qed

section \<open>Column counts\<close>

lemma foldl_max_ge: "x \<in> set xs \<Longrightarrow> f x \<le> foldl (\<lambda>m e. max m (f e)) (k :: nat) xs"
proof (induction xs arbitrary: k)
  case (Cons y ys)
  have "j \<le> foldl (\<lambda>m e. max m (f e)) j ys" for j
    by (induction ys arbitrary: j) (auto intro: order_trans [OF max.cobounded1])
  with Cons show ?case by (auto intro: order_trans [OF max.cobounded2])
qed simp

lemma cluster_column_less:
  "e \<in> set cluster \<Longrightarrow> mapping e = Some i \<Longrightarrow> i < getClusterColumnCount cluster mapping"
  using foldl_max_ge [of e cluster "\<lambda>e. case mapping e of None \<Rightarrow> 0 | Some i \<Rightarrow> i" 0]
  by (simp add: getClusterColumnCount_def)

lemma foldl_upd: "foldl (\<lambda>m e. m(e \<mapsto> f e)) m xs x = (if x \<in> set xs then Some (f x) else m x)"
  by (induction xs arbitrary: m) auto

lemma overlap_edges_nth:
  "m < n \<Longrightarrow> n < length xs \<Longrightarrow> overlaps (xs ! m) (xs ! n) \<Longrightarrow> (xs ! m, xs ! n) \<in> overlap_edges overlaps xs"
proof (induction xs arbitrary: m n)
  case (Cons x xs)
  then show ?case by (cases m; cases n) auto
qed simp

lemma conn_edge: "(a, b) \<in> E \<Longrightarrow> (a, b) \<in> conn E"
  unfolding conn_def by auto

lemma conn_refl: "(a, a) \<in> conn E"
  unfolding conn_def by simp

text \<open>The parts of a layout: the sorted events, their columns by first fit, and column counts
  that exceed the columns and agree on overlapping events.\<close>

lemma layout_parts:
  assumes layout: "layoutTimelineEvents te obj events day opts = Some placed" and distinct: "distinct events"
  defines "xs \<equiv> sortTimelineEvents te obj events (sortByDurationOnTie opts)"
    and "adj \<equiv> adjusted te obj day (tl_timezone opts)"
  obtains "is" columns mapping counts where
    "first_fit (column_conflict te) [] (map (tagged te obj day (tl_timezone opts)) xs) = (is, columns)"
    "placed = map (position_event te obj day opts mapping counts) xs"
    "\<forall>n < length xs. mapping (xs ! n) = Some (is ! n)"
    "\<forall>n < length xs. \<exists>k. counts (xs ! n) = Some k \<and> is ! n < k"
    "\<forall>n < length xs. \<forall>m < n. areIntervalsOverlapping te (adj (xs ! m)) (adj (xs ! n)) \<longrightarrow>
      counts (xs ! m) = counts (xs ! n)"
proof -
  let ?ov = "\<lambda>left right. areIntervalsOverlapping te (adj left) (adj right)"
  have d: "distinct xs" using distinct by (simp add: xs_def sortTimelineEvents_def)
  obtain columns mapping where p: "place_events te obj day (tl_timezone opts) xs [] Map.empty = Some (columns, mapping)"
    using layout by (auto simp: layoutTimelineEvents_def xs_def bind_eq_Some_conv Let_def)
  obtain clusters where c: "buildOverlapClusters ?ov xs = Some clusters"
    "\<And>e. e \<in> set xs \<Longrightarrow> clusters e = Some (filter (\<lambda>x. (x, e) \<in> conn (overlap_edges ?ov xs)) xs)"
    using clusters_are_components [of ?ov xs] by blast
  define counts where "counts = foldl (\<lambda>counts event. counts(event \<mapsto>
      getClusterColumnCount (case clusters event of None \<Rightarrow> [event] | Some es \<Rightarrow> es) mapping)) Map.empty xs"
  have counts: "counts e = Some (getClusterColumnCount (filter (\<lambda>x. (x, e) \<in> conn (overlap_edges ?ov xs)) xs) mapping)"
    if "e \<in> set xs" for e
    using that by (simp add: counts_def foldl_upd c(2))
  obtain "is" where ff: "first_fit (column_conflict te) [] (map (tagged te obj day (tl_timezone opts)) xs) = (is, columns)"
    "\<And>n. n < length xs \<Longrightarrow> mapping (xs ! n) = Some (is ! n)"
    using place_events_first_fit [OF p _ d] by auto
  have "\<exists>k. counts (xs ! n) = Some k \<and> is ! n < k" if "n < length xs" for n
    using that ff(2) [OF that] counts [of "xs ! n"] cluster_column_less [of "xs ! n" _ mapping "is ! n"]
    by (simp add: conn_refl)
  moreover have "counts (xs ! m) = counts (xs ! n)" if mn: "m < n" "n < length xs" "?ov (xs ! m) (xs ! n)" for m n
  proof -
    have "(xs ! m, xs ! n) \<in> conn (overlap_edges ?ov xs)"
      using mn by (intro conn_edge overlap_edges_nth)
    then have "(x, xs ! m) \<in> conn (overlap_edges ?ov xs) \<longleftrightarrow> (x, xs ! n) \<in> conn (overlap_edges ?ov xs)" for x
      by (rule conn_right)
    with mn show ?thesis by (simp add: counts)
  qed
  moreover have "placed = map (position_event te obj day opts mapping counts) xs"
    using layout p c(1) by (simp add: layoutTimelineEvents_def xs_def [symmetric] counts_def adj_def)
  ultimately show thesis using ff by (intro that [of "is" columns mapping counts]) auto
qed

section \<open>Properties\<close>

lemma equal_columns_apart:
  assumes "i < k" "k < n"
  shows "of_nat i * (1 / of_nat n) + 1 / of_nat n \<le> of_nat k * (1 / of_nat n :: rat)"
proof -
  have "of_nat i + 1 \<le> (of_nat k :: rat)" using assms(1) by (metis Suc_leI of_nat_Suc of_nat_mono add.commute)
  then have "(of_nat i + 1) * (1 / of_nat n) \<le> of_nat k * (1 / of_nat n :: rat)"
    by (intro mult_right_mono) simp_all
  then show ?thesis by (simp add: add_divide_distrib)
qed

lemma equal_columns_bounds:
  assumes "i < n"
  shows "0 \<le> of_nat i * (1 / of_nat n :: rat)" "of_nat i * (1 / of_nat n) + 1 / of_nat n \<le> (1 :: rat)"
proof -
  have "of_nat i + 1 \<le> (of_nat n :: rat)" using assms by (metis Suc_leI of_nat_Suc of_nat_mono add.commute)
  then have "(of_nat i + 1) * (1 / of_nat n) \<le> of_nat n * (1 / of_nat n :: rat)"
    by (intro mult_right_mono) simp_all
  with assms show "of_nat i * (1 / of_nat n) + 1 / of_nat n \<le> (1 :: rat)" by (simp add: add_divide_distrib)
qed simp

lemma no_overflow_width:
  assumes "strategy \<in> {No_overflow, Simple_no_overflow}" "i < n"
  shows "calculateWidth strategy n i = (1 / of_nat n, of_nat i * (1 / of_nat n))"
  using assms by (auto simp: calculateWidth_def calculateEqualColumns_def Let_def)

lemma position_event_columns:
  assumes "mapping e = Some i" "counts e = Some n" "widthStrategy opts \<in> {No_overflow, Simple_no_overflow}" "i < n"
  shows "pe_left (position_event te obj day opts mapping counts e) = of_nat i * (1 / of_nat n)"
    "pe_width (position_event te obj day opts mapping counts e) = 1 / of_nat n"
  using assms no_overflow_width [OF assms(3,4)]
  by (simp_all add: position_event_def Let_def split: prod.splits)

text \<open>C18: With a no-overflow strategy, events that overlap in time are drawn side by side: their
  horizontal extents do not overlap, and every extent lies in the day's column.\<close>

theorem timeline_side_by_side:
  assumes layout: "layoutTimelineEvents te obj events day opts = Some placed" "distinct events"
    and strategy: "widthStrategy opts \<in> {No_overflow, Simple_no_overflow}"
    and sym: "\<And>a b. areIntervalsOverlapping te a b = areIntervalsOverlapping te b a"
    and n: "n < length placed"
  shows "0 \<le> pe_left (placed ! n) \<and> pe_left (placed ! n) + pe_width (placed ! n) \<le> 1 \<and>
    (\<forall>m < n. areIntervalsOverlapping te
        (adjusted te obj day (tl_timezone opts) (pe_event (placed ! m)))
        (adjusted te obj day (tl_timezone opts) (pe_event (placed ! n))) \<longrightarrow>
      pe_left (placed ! m) + pe_width (placed ! m) \<le> pe_left (placed ! n) \<or>
      pe_left (placed ! n) + pe_width (placed ! n) \<le> pe_left (placed ! m))"
proof -
  let ?xs = "sortTimelineEvents te obj events (sortByDurationOnTie opts)"
  let ?adj = "adjusted te obj day (tl_timezone opts)"
  obtain "is" columns mapping counts where l:
    "first_fit (column_conflict te) [] (map (tagged te obj day (tl_timezone opts)) ?xs) = (is, columns)"
    "placed = map (position_event te obj day opts mapping counts) ?xs"
    "\<forall>n < length ?xs. mapping (?xs ! n) = Some (is ! n)"
    "\<forall>n < length ?xs. \<exists>k. counts (?xs ! n) = Some k \<and> is ! n < k"
    "\<forall>n < length ?xs. \<forall>m < n. areIntervalsOverlapping te (?adj (?xs ! m)) (?adj (?xs ! n)) \<longrightarrow>
      counts (?xs ! m) = counts (?xs ! n)"
    by (rule layout_parts [OF layout])
  have len: "n < length ?xs" using n l(2) by simp
  obtain k where k: "counts (?xs ! n) = Some k" "is ! n < k" using l(4) len by blast
  have at: "pe_left (placed ! j) = of_nat (is ! j) * (1 / of_nat c)" "pe_width (placed ! j) = 1 / of_nat c"
    "pe_event (placed ! j) = ?xs ! j"
    if "j < length ?xs" "counts (?xs ! j) = Some c" "is ! j < c" for j c
    using that l(3) strategy
      position_event_columns [of mapping "?xs ! j" "is ! j" counts c opts te obj day]
    by (simp_all add: l(2) position_event_def Let_def split: prod.splits)
  have "pe_left (placed ! m) + pe_width (placed ! m) \<le> pe_left (placed ! n) \<or>
      pe_left (placed ! n) + pe_width (placed ! n) \<le> pe_left (placed ! m)"
    if m: "m < n" and ov: "areIntervalsOverlapping te (?adj (pe_event (placed ! m))) (?adj (pe_event (placed ! n)))" for m
  proof -
    have mlen: "m < length ?xs" using m len by simp
    obtain c where c: "counts (?xs ! m) = Some c" "is ! m < c" using l(4) mlen by blast
    with ov at [OF len k] at [OF mlen] have ov': "areIntervalsOverlapping te (?adj (?xs ! m)) (?adj (?xs ! n))"
      by simp
    then have "counts (?xs ! m) = counts (?xs ! n)" using l(5) m len by blast
    with c k have cm: "counts (?xs ! m) = Some k" "is ! m < k" by simp_all
    have "column_conflict te (tagged te obj day (tl_timezone opts) (?xs ! m)) (tagged te obj day (tl_timezone opts) (?xs ! n))"
      using ov' sym by (simp add: column_conflict_def tagged_def)
    then have "is ! m \<noteq> is ! n"
      using first_fit_lanes(3) [OF l(1), of n m] m len mlen by auto
    then consider "is ! m < is ! n" | "is ! n < is ! m" by linarith
    then show ?thesis
      using at [OF len k] at [OF mlen cm] equal_columns_apart k(2) cm(2) by cases simp_all
  qed
  with at [OF len k] equal_columns_bounds [OF k(2)] show ?thesis by simp
qed

definition sample_te :: timeline_env where
  "sample_te =
     \<lparr>te_dates = plain_env,
      areIntervalsOverlapping = (\<lambda>a b. fst a < snd b \<and> fst b < snd a),
      differenceInMinutes = (\<lambda>a b. (a - b) div 60000),
      isSameDay = (\<lambda>day t. utc_day t = day), addHours = (\<lambda>t h. t + h * 3600000)\<rparr>"

definition sample_objects :: objects where
  "sample_objects e = \<lparr>ev_start = 3600000 * int e, ev_end = 3600000 * int e + 5400000, ev_allDay = False, ev_timezone = None\<rparr>"

definition sample_options :: timeline_layout_options where
  "sample_options = \<lparr>cellHeight = 64, startHour = 0, minHeight = 22, sortByDurationOnTie = True,
     widthStrategy = No_overflow, tl_timezone = None\<rparr>"

definition sample_timeline :: "positioned_timeline_event list" where
  "sample_timeline =
     [\<lparr>pe_event = 1, pe_top = 64, pe_height = 96, pe_left = 0, pe_width = 1/2, pe_zIndex = 10\<rparr>,
      \<lparr>pe_event = 2, pe_top = 128, pe_height = 96, pe_left = 1/2, pe_width = 1/2, pe_zIndex = 11\<rparr>]"

lemma sample_timeline: "layoutTimelineEvents sample_te sample_objects [2, 1] 0 sample_options = Some sample_timeline"
  by code_simp

theorem timeline_side_by_side_witness:
  "0 \<le> pe_left (sample_timeline ! 1) \<and> pe_left (sample_timeline ! 1) + pe_width (sample_timeline ! 1) \<le> 1 \<and>
    (pe_left (sample_timeline ! 0) + pe_width (sample_timeline ! 0) \<le> pe_left (sample_timeline ! 1) \<or>
     pe_left (sample_timeline ! 1) + pe_width (sample_timeline ! 1) \<le> pe_left (sample_timeline ! 0))"
proof -
  have "areIntervalsOverlapping sample_te
      (adjusted sample_te sample_objects 0 (tl_timezone sample_options) (pe_event (sample_timeline ! 0)))
      (adjusted sample_te sample_objects 0 (tl_timezone sample_options) (pe_event (sample_timeline ! 1)))"
    by code_simp
  moreover have "distinct [2, 1 :: nat]" "widthStrategy sample_options \<in> {No_overflow, Simple_no_overflow}"
    "\<And>a b. areIntervalsOverlapping sample_te a b = areIntervalsOverlapping sample_te b a" "1 < length sample_timeline"
    by (auto simp: sample_options_def sample_te_def sample_timeline_def)
  note timeline_side_by_side [OF sample_timeline this]
  ultimately show ?thesis by blast
qed

lemma cascade_share:
  assumes "i < n" "(0 :: rat) \<le> c"
  shows "of_nat i * (c / of_nat n) \<le> c"
proof -
  have "of_nat i * c \<le> of_nat n * c" using assms by (intro mult_right_mono) simp_all
  with assms show ?thesis by (simp add: divide_le_eq mult.commute)
qed

lemma desktop_cascade_bounds:
  assumes "i < n" "3 < n"
  shows "0 < 75/100 - of_nat i * min (1/10) (5/10 / of_nat n :: rat)"
    "of_nat i * min (15/100) (8/10 / of_nat n) + (75/100 - of_nat i * min (1/10) (5/10 / of_nat n)) \<le> (21/20 :: rat)"
proof -
  have "of_nat i * min (1/10) (5/10 / of_nat n) \<le> of_nat i * (5/10 / of_nat n :: rat)"
    by (intro mult_left_mono) simp_all
  also have "\<dots> \<le> 5/10" using assms(1) by (intro cascade_share) simp_all
  finally show "0 < 75/100 - of_nat i * min (1/10) (5/10 / of_nat n :: rat)" by simp
  show "of_nat i * min (15/100) (8/10 / of_nat n) + (75/100 - of_nat i * min (1/10) (5/10 / of_nat n)) \<le> (21/20 :: rat)"
  proof (cases "n \<le> 5")
    case True
    with assms have "n = 4 \<or> n = 5" by linarith
    moreover have "of_nat i \<le> (4 :: rat)" using assms(1) True by simp
    ultimately show ?thesis by auto
  next
    case False
    then have "(5/10 :: rat) / of_nat n \<le> 1/10" by (simp add: divide_le_eq)
    then have "of_nat i * min (1/10) (5/10 / of_nat n) = of_nat i * (5/10 / of_nat n :: rat)" by (simp add: min_def)
    moreover have "of_nat i * min (15/100) (8/10 / of_nat n) \<le> of_nat i * (8/10 / of_nat n :: rat)"
      by (intro mult_left_mono) simp_all
    moreover have "of_nat i * (8/10 / of_nat n) - of_nat i * (5/10 / of_nat n) = of_nat i * (3/10 / of_nat n :: rat)"
      by (simp add: right_diff_distrib [symmetric] diff_divide_distrib [symmetric])
    moreover have "of_nat i * (3/10 / of_nat n) \<le> (3/10 :: rat)" using assms(1) by (intro cascade_share) simp_all
    ultimately show ?thesis by linarith
  qed
qed

lemma equal_width_bounds:
  assumes "i < n" "strategy \<in> {No_overflow, Simple_no_overflow}" "calculateWidth strategy n i = (width, left)"
  shows "0 < width \<and> 0 \<le> left \<and> left + width \<le> 21/20"
proof -
  have "width = 1 / of_nat n" "left = of_nat i * (1 / of_nat n)"
    using no_overflow_width [OF assms(2,1)] assms(3) by simp_all
  moreover from this have "left + width \<le> 1" "0 \<le> left" "0 < width"
    using equal_columns_bounds [OF assms(1)] assms(1) by simp_all
  ultimately show ?thesis by linarith
qed

text \<open>For every strategy, a column of a cluster has a positive width, starts in the day's
  column and ends at most five percent beyond it.\<close>

lemma timeline_width_bounds:
  assumes "columnIndex < columnCount" "calculateWidth strategy columnCount columnIndex = (width, left)"
  shows "0 < width \<and> 0 \<le> left \<and> left + width \<le> 21/20"
proof (cases "columnCount = 1")
  case True
  with assms show ?thesis by (auto simp: calculateWidth_def Let_def split: if_splits)
next
  case several: False
  show ?thesis
  proof (cases strategy)
    case Desktop_cascade
    show ?thesis
    proof (cases "columnCount \<le> 3")
      case True
      with several assms(1) have "columnCount = 2 \<and> columnIndex \<in> {0, 1} \<or> columnCount = 3 \<and> columnIndex \<in> {0, 1, 2}" by auto
      with assms(2) Desktop_cascade show ?thesis by (auto simp: calculateWidth_def Let_def)
    next
      case False
      with assms Desktop_cascade several desktop_cascade_bounds [of columnIndex columnCount] show ?thesis
        by (auto simp: calculateWidth_def Let_def)
    qed
  next
    case Mobile_cascade
    consider "columnCount = 2" "columnIndex \<in> {0, 1}" | "columnCount = 3" "columnIndex \<in> {0, 1, 2}" | "3 < columnCount"
      using several assms(1) by fastforce
    then show ?thesis
    proof cases
      case 3
      have "(0 :: rat) \<le> of_nat columnIndex" by simp
      with 3 assms(2) Mobile_cascade show ?thesis
        by (auto simp: calculateWidth_def Let_def max_def min_def split: if_splits)
    qed (use assms(2) Mobile_cascade in \<open>auto simp: calculateWidth_def Let_def\<close>)
  next
    case No_overflow
    with assms show ?thesis using equal_width_bounds [of columnIndex columnCount strategy] by simp
  next
    case Simple_no_overflow
    with assms show ?thesis using equal_width_bounds [of columnIndex columnCount strategy] by simp
  qed
qed

lemma timeline_width_bounds_witness: "0 < (5/16 :: rat) \<and> 0 \<le> (7/10 :: rat) \<and> 7/10 + 5/16 \<le> (21/20 :: rat)"
  by (rule timeline_width_bounds [of 7 8 Desktop_cascade]) (simp, code_simp)

end
