(* ===== verification/IcsBuild.thy ===== *)
theory IcsBuild
  imports JsValue JsDate
begin

text \<open>
  The iCalendar writer, \<open>packages/calendar-ics/src/index.ts\<close>: escaping, folding, recurrence
  rules, event lines and the calendar file, with the method, identifier and zone helpers.

  Parameters: \<open>fmt tz t\<close> is \<open>formatToParts\<close> of the zone's date formatter (\<open>None\<close> when \<open>Intl\<close>
  rejects the zone), \<open>toDate\<close> the \<open>Date\<close> constructor on a string, \<open>uuid\<close> the value of
  \<open>crypto.randomUUID()\<close> for an event without identifier, and \<open>dtStamp\<close> the current time.
  Dates of an event are \<open>None\<close> when invalid. The cache of formatters is left out.
\<close>

section \<open>Data\<close>

definition CALENDAR_METHOD_TYPES :: "string list" where
  "CALENDAR_METHOD_TYPES =
     [''PUBLISH'', ''REQUEST'', ''REPLY'', ''ADD'', ''CANCEL'', ''REFRESH'', ''COUNTER'', ''DECLINECOUNTER'']"

definition DEFAULT_CALENDAR_METHOD :: string where
  "DEFAULT_CALENDAR_METHOD = ''PUBLISH''"

datatype ics_frequency = FDaily | FWeekly | FMonthly | FYearly

record ics_recurrence_rule =
  r_frequency :: ics_frequency
  r_interval :: int
  r_count :: "int option"
  r_until :: "string option"
  r_timezone :: "string option"
  r_byWeekDay :: "int list option"
  r_byMonthDay :: "int list option"
  r_byMonth :: "int list option"

datatype ics_role = Organizer | Attendee
datatype ics_status = Pending | Accepted | Declined | Tentative

record ics_participant =
  pt_email :: string
  pt_displayName :: "string option"
  pt_role :: "ics_role option"
  pt_status :: "ics_status option"

record ics_calendar_metadata =
  cal_name :: "string option"
  cal_description :: "string option"
  cal_timezone :: "string option"
  cal_method :: "string option"
  cal_productId :: "string option"
  cal_sourceUrl :: "string option"

datatype event_status = CONFIRMED | TENTATIVE | CANCELLED

record ics_build_event_input =
  be_uid :: "string option"
  be_title :: string
  be_description :: "string option"
  be_start :: "int option"
  be_end :: "int option"
  be_allDay :: bool
  be_timezone :: "string option"
  be_location :: "string option"
  be_recurrence :: "ics_recurrence_rule option"
  be_createdAt :: "int option"
  be_updatedAt :: "int option"
  be_status :: "event_status option"
  be_sequence :: "rat option"
  be_sourceUrl :: "string option"
  be_participants :: "ics_participant list"

datatype ics_error = Invalid_start | Invalid_end

type_synonym date_formatter = "string \<Rightarrow> int \<Rightarrow> (string \<times> string) list option"

text \<open>\<open>value?.trim()\<close>, the empty string when absent.\<close>

definition trimmed :: "string option \<Rightarrow> string" where
  "trimmed v = (case v of None \<Rightarrow> [] | Some s \<Rightarrow> trim s)"

definition or_else :: "string \<Rightarrow> string \<Rightarrow> string" where
  "or_else s d = (if s = [] then d else s)"

section \<open>Methods, identifiers and zones\<close>

definition isCalendarMethodType :: "string \<Rightarrow> bool" where
  "isCalendarMethodType value \<longleftrightarrow> value \<in> set CALENDAR_METHOD_TYPES"

definition is_upper :: "char \<Rightarrow> bool" where
  "is_upper c \<longleftrightarrow> 65 \<le> (of_char c :: nat) \<and> (of_char c :: nat) \<le> 90"

text \<open>The first match of the pattern: \<open>METHOD:\<close> at the start of a line, then capital letters.\<close>

fun method_match :: "bool \<Rightarrow> string \<Rightarrow> string option" where
  "method_match lineStart [] = None"
| "method_match lineStart (c # s) =
     (let word = takeWhile is_upper (drop 7 (c # s)) in
      if lineStart \<and> starts_with (c # s) ''METHOD:'' \<and> word \<noteq> [] then Some word
      else method_match (c = LF \<or> c = CR) s)"

definition parseCalendarMethod :: "string \<Rightarrow> string" where
  "parseCalendarMethod icsContent =
     (case method_match True icsContent of
        None \<Rightarrow> DEFAULT_CALENDAR_METHOD
      | Some m \<Rightarrow> if isCalendarMethodType m then m else DEFAULT_CALENDAR_METHOD)"

definition RECURRENCE_EXTERNAL_ID_SEPARATOR :: string where
  "RECURRENCE_EXTERNAL_ID_SEPARATOR = ''::RECURRENCE::''"

definition buildIcsExternalId :: "string \<Rightarrow> string option \<Rightarrow> string" where
  "buildIcsExternalId uid recurrenceId =
     (let normalizedUid = trim uid in
      if normalizedUid = [] then normalizedUid
      else case recurrenceId of
             None \<Rightarrow> normalizedUid
           | Some r \<Rightarrow> if r = [] then normalizedUid
                       else normalizedUid @ RECURRENCE_EXTERNAL_ID_SEPARATOR @ r)"

definition ICS_TO_IANA_TIMEZONE_MAP :: "(string \<times> string) list" where
  "ICS_TO_IANA_TIMEZONE_MAP =
     [(''W. Europe Standard Time'', ''Europe/Amsterdam''),
      (''Central European Standard Time'', ''Europe/Paris''),
      (''Eastern Standard Time'', ''America/New_York''),
      (''Pacific Standard Time'', ''America/Los_Angeles''),
      (''Central Standard Time'', ''America/Chicago''),
      (''Mountain Standard Time'', ''America/Denver''),
      (''GMT Standard Time'', ''Europe/London''),
      (''UTC'', ''UTC''),
      (''Greenwich Standard Time'', ''UTC'')]"

text \<open>\<open>replace(/^"(.*)"$/, "$1")\<close>; the dot does not match line breaks.\<close>

definition unquote :: "string \<Rightarrow> string" where
  "unquote s =
     (let body = butlast (tl s) in
      if 2 \<le> length s \<and> hd s = CHR 0x22 \<and> last s = CHR 0x22 \<and> LF \<notin> set body \<and> CR \<notin> set body
      then body else s)"

definition normalizeIcsTimezone :: "string option \<Rightarrow> string option" where
  "normalizeIcsTimezone timezone =
     (case timezone of
        None \<Rightarrow> None
      | Some z \<Rightarrow>
          if z = [] then None
          else let t = unquote (trim z) in
               if t = [] then None
               else if t = ''tzone://Microsoft/Utc'' then Some ''UTC''
               else case map_of ICS_TO_IANA_TIMEZONE_MAP t of Some i \<Rightarrow> Some i | None \<Rightarrow> Some t)"

section \<open>Text\<close>

definition WEEKDAY_INDEX_TO_CODE :: "string list" where
  "WEEKDAY_INDEX_TO_CODE = [''SU'', ''MO'', ''TU'', ''WE'', ''TH'', ''FR'', ''SA'']"

definition ICS_LINE_BREAK :: string where "ICS_LINE_BREAK = [CR, LF]"
definition DEFAULT_PRODUCT_ID :: string where
  "DEFAULT_PRODUCT_ID = ''-//Solace Calendar//Calendar Export//EN''"
definition ICS_MAX_LINE_OCTETS :: nat where "ICS_MAX_LINE_OCTETS = 75"
definition ICS_CONTINUATION_MAX_LINE_OCTETS :: nat where "ICS_CONTINUATION_MAX_LINE_OCTETS = 74"

definition backslash :: char where "backslash = CHR 0x5C"

definition escapeIcsText :: "string \<Rightarrow> string" where
  "escapeIcsText value =
     replace_char (CHR '';'') [backslash, CHR '';'']
      (replace_char (CHR '','') [backslash, CHR '','']
       (replace_newlines [backslash, CHR ''n'']
        (replace_char backslash [backslash, backslash] value)))"

definition escapeIcsParamValue :: "string \<Rightarrow> string" where
  "escapeIcsParamValue value =
     replace_char (CHR '';'') [backslash, CHR '';'']
      (replace_char (CHR '','') [backslash, CHR '','']
       (replace_char (CHR 0x22) [backslash, CHR 0x22]
        (replace_newlines '' ''
         (replace_char backslash [backslash, backslash] value))))"

definition sanitizeIcsUri :: "string \<Rightarrow> string" where
  "sanitizeIcsUri value = trim (replace_newlines [] value)"

definition pad2 :: "int \<Rightarrow> string" where
  "pad2 value = pad_zero 2 (int_str value)"

definition formatDateStamp :: "int \<Rightarrow> string" where
  "formatDateStamp date =
     int_str (getUTCFullYear date) @ pad2 (getUTCMonth date + 1) @ pad2 (getUTCDate date)"

definition formatDateTimeStamp :: "int \<Rightarrow> string" where
  "formatDateTimeStamp date =
     formatDateStamp date @ ''T'' @ pad2 (getUTCHours date) @ pad2 (getUTCMinutes date) @
     pad2 (getUTCSeconds date) @ ''Z''"

text \<open>The zone or UTC: \<open>normalizeIcsTimezone(timezone) || "UTC"\<close>.\<close>

definition zone_or_utc :: "string option \<Rightarrow> string" where
  "zone_or_utc timezone = (case normalizeIcsTimezone timezone of None \<Rightarrow> ''UTC'' | Some z \<Rightarrow> z)"

definition formatDateStampInTimeZone :: "date_formatter \<Rightarrow> int \<Rightarrow> string \<Rightarrow> string" where
  "formatDateStampInTimeZone fmt date timezone =
     (let resolvedTimezone = zone_or_utc (Some timezone) in
      case fmt (zone_or_utc (Some resolvedTimezone)) date of
        None \<Rightarrow> formatDateStamp date
      | Some parts \<Rightarrow>
          let lookup = (\<lambda>ty. case map_of parts ty of None \<Rightarrow> [] | Some v \<Rightarrow> v);
              year = lookup ''year''; month = lookup ''month''; day = lookup ''day''
          in if year \<noteq> [] \<and> month \<noteq> [] \<and> day \<noteq> [] then year @ month @ day else formatDateStamp date)"

definition addDaysToDateStamp :: "string \<Rightarrow> int \<Rightarrow> string" where
  "addDaysToDateStamp dateStamp days =
     (if \<not> (length dateStamp = 8 \<and> list_all is_digit dateStamp) then dateStamp
      else let year = int (nat_of_digits (slice 0 4 dateStamp));
               month = int (nat_of_digits (slice 4 6 dateStamp));
               day = int (nat_of_digits (slice 6 8 dateStamp));
               copy = Date_UTC year (month - 1) day 0 0 0 0
           in formatDateStamp (setUTCDate copy (getUTCDate copy + days)))"

definition addDaysUtc :: "int \<Rightarrow> int \<Rightarrow> int" where
  "addDaysUtc date days = setUTCDate date (getUTCDate date + days)"

section \<open>Folding\<close>

text \<open>The number of bytes of a character in UTF-8.\<close>

definition char_octets :: "char \<Rightarrow> nat" where
  "char_octets c = (if (of_char c :: nat) < 128 then 1 else 2)"

definition octets :: "string \<Rightarrow> nat" where
  "octets s = sum_list (map char_octets s)"

fun fold_loop :: "string \<Rightarrow> string list \<Rightarrow> string \<Rightarrow> nat \<Rightarrow> nat \<Rightarrow> string list" where
  "fold_loop [] segments currentSegment currentOctets limit =
     (if currentSegment \<noteq> [] \<or> segments = [] then segments @ [currentSegment] else segments)"
| "fold_loop (character # rest) segments currentSegment currentOctets limit =
     (let characterOctets = char_octets character in
      if currentOctets > 0 \<and> currentOctets + characterOctets > limit
      then fold_loop rest (segments @ [currentSegment]) [character] characterOctets
             ICS_CONTINUATION_MAX_LINE_OCTETS
      else fold_loop rest segments (currentSegment @ [character]) (currentOctets + characterOctets) limit)"

definition foldIcsLine :: "string \<Rightarrow> string list" where
  "foldIcsLine line =
     (case fold_loop line [] [] 0 ICS_MAX_LINE_OCTETS of
        [] \<Rightarrow> []
      | segment # segments \<Rightarrow> segment # map (\<lambda>s. CHR '' '' # s) segments)"

definition foldIcsLines :: "string list \<Rightarrow> string list" where
  "foldIcsLines lines = concat (map foldIcsLine lines)"

section \<open>Events\<close>

definition normalizeEventRange :: "int option \<Rightarrow> int option \<Rightarrow> bool \<Rightarrow> ics_error + (int \<times> int)" where
  "normalizeEventRange eventStart eventEnd allDay =
     (case eventStart of
        None \<Rightarrow> Inl Invalid_start
      | Some start \<Rightarrow>
          case eventEnd of
            None \<Rightarrow> Inl Invalid_end
          | Some endAt \<Rightarrow>
              Inr (start,
                if allDay then (if endAt < start then start else endAt)
                else if endAt \<le> start then start + 60 * 60 * 1000 else endAt))"

fun frequency_name :: "ics_frequency \<Rightarrow> string" where
  "frequency_name FDaily = ''daily''"
| "frequency_name FWeekly = ''weekly''"
| "frequency_name FMonthly = ''monthly''"
| "frequency_name FYearly = ''yearly''"

text \<open>One list of a rule: the valid entries, printed, without repetitions.\<close>

definition rrule_list :: "string \<Rightarrow> (int \<Rightarrow> bool) \<Rightarrow> (int \<Rightarrow> string) \<Rightarrow> int list option \<Rightarrow> string list" where
  "rrule_list name valid code values =
     (case values of
        None \<Rightarrow> []
      | Some vs \<Rightarrow>
          let codes = map code (filter valid vs)
          in if codes = [] then [] else [name @ ''='' @ join_with '','' (uniq codes)])"

definition rrule_segments :: "(string \<Rightarrow> int option) \<Rightarrow> ics_recurrence_rule \<Rightarrow> string list" where
  "rrule_segments toDate recurrence =
     [''FREQ='' @ to_upper (frequency_name (r_frequency recurrence))] @
     (if r_interval recurrence > 1 then [''INTERVAL='' @ int_str (r_interval recurrence)] else []) @
     (case r_count recurrence of
        None \<Rightarrow> []
      | Some n \<Rightarrow> if n > 0 then [''COUNT='' @ int_str n] else []) @
     (case r_until recurrence of
        None \<Rightarrow> []
      | Some u \<Rightarrow> if u = [] then []
                  else case toDate u of None \<Rightarrow> [] | Some t \<Rightarrow> [''UNTIL='' @ formatDateTimeStamp t]) @
     rrule_list ''BYDAY'' (\<lambda>d. 0 \<le> d \<and> d \<le> 6) (\<lambda>d. WEEKDAY_INDEX_TO_CODE ! nat d) (r_byWeekDay recurrence) @
     rrule_list ''BYMONTHDAY'' (\<lambda>d. 1 \<le> d \<and> d \<le> 31) int_str (r_byMonthDay recurrence) @
     rrule_list ''BYMONTH'' (\<lambda>m. 1 \<le> m \<and> m \<le> 12) int_str (r_byMonth recurrence)"

definition buildRruleString :: "(string \<Rightarrow> int option) \<Rightarrow> ics_recurrence_rule \<Rightarrow> string" where
  "buildRruleString toDate recurrence = join_with '';'' (rrule_segments toDate recurrence)"

definition organizer_line :: "ics_participant \<Rightarrow> string" where
  "organizer_line organizer =
     (let name = trimmed (pt_displayName organizer);
          params = (if name \<noteq> [] then '';CN='' @ escapeIcsParamValue name else [])
      in ''ORGANIZER'' @ params @ '':mailto:'' @ sanitizeIcsUri (trim (pt_email organizer)))"

definition attendee_params :: "ics_participant \<Rightarrow> string list" where
  "attendee_params participant =
     (let name = trimmed (pt_displayName participant) in
      (if name \<noteq> [] then [''CN='' @ escapeIcsParamValue name] else []) @
      (case pt_status participant of
         Some Accepted \<Rightarrow> [''PARTSTAT=ACCEPTED'']
       | Some Declined \<Rightarrow> [''PARTSTAT=DECLINED'']
       | Some Tentative \<Rightarrow> [''PARTSTAT=TENTATIVE'']
       | _ \<Rightarrow> [''PARTSTAT=NEEDS-ACTION'', ''RSVP=TRUE'']))"

definition attendee_lines :: "ics_participant \<Rightarrow> string list" where
  "attendee_lines participant =
     (let email = trim (pt_email participant) in
      if email = [] \<or> pt_role participant = Some Organizer then []
      else [''ATTENDEE'' @
            (let params = attendee_params participant
             in if params \<noteq> [] then '';'' @ join_with '';'' params else []) @
            '':mailto:'' @ sanitizeIcsUri email])"

fun status_name :: "event_status \<Rightarrow> string" where
  "status_name CONFIRMED = ''CONFIRMED''"
| "status_name TENTATIVE = ''TENTATIVE''"
| "status_name CANCELLED = ''CANCELLED''"

definition date_lines ::
  "date_formatter \<Rightarrow> ics_build_event_input \<Rightarrow> int \<Rightarrow> int \<Rightarrow> string option \<Rightarrow> string list" where
  "date_lines fmt event start endAt calendarTimezone =
     (if be_allDay event then
        let timezone = zone_or_utc (case be_timezone event of Some z \<Rightarrow> Some z | None \<Rightarrow> calendarTimezone);
            startDateStamp = formatDateStampInTimeZone fmt start timezone;
            endExclusiveDateStamp = addDaysToDateStamp (formatDateStampInTimeZone fmt endAt timezone) 1
        in [''DTSTART;VALUE=DATE:'' @ startDateStamp, ''DTEND;VALUE=DATE:'' @ endExclusiveDateStamp]
      else [''DTSTART:'' @ formatDateTimeStamp start, ''DTEND:'' @ formatDateTimeStamp endAt])"

definition text_line :: "string \<Rightarrow> (string \<Rightarrow> string) \<Rightarrow> string option \<Rightarrow> string list" where
  "text_line name write value = (let t = trimmed value in if t \<noteq> [] then [name @ write t] else [])"

definition buildEventLines ::
  "date_formatter \<Rightarrow> (string \<Rightarrow> int option) \<Rightarrow> string \<Rightarrow> ics_build_event_input \<Rightarrow> int \<Rightarrow> string option \<Rightarrow>
   ics_error + string list" where
  "buildEventLines fmt toDate uuid event dtStamp calendarTimezone =
     (case normalizeEventRange (be_start event) (be_end event) (be_allDay event) of
        Inl e \<Rightarrow> Inl e
      | Inr (start, endAt) \<Rightarrow>
          let uid = or_else (trimmed (be_uid event)) (uuid @ ''@solace-calendar.local'');
              createdAt = (case be_createdAt event of Some t \<Rightarrow> t | None \<Rightarrow> dtStamp);
              updatedAt = (case be_updatedAt event of Some t \<Rightarrow> t | None \<Rightarrow> dtStamp)
          in Inr (
            [''BEGIN:VEVENT'', ''UID:'' @ escapeIcsText uid, ''DTSTAMP:'' @ formatDateTimeStamp dtStamp,
             ''CREATED:'' @ formatDateTimeStamp createdAt,
             ''LAST-MODIFIED:'' @ formatDateTimeStamp updatedAt,
             ''SUMMARY:'' @ escapeIcsText (or_else (trim (be_title event)) ''Untitled Event'')] @
            date_lines fmt event start endAt calendarTimezone @
            text_line ''DESCRIPTION:'' escapeIcsText (be_description event) @
            text_line ''LOCATION:'' escapeIcsText (be_location event) @
            (case find (\<lambda>p. pt_role p = Some Organizer \<and> trim (pt_email p) \<noteq> []) (be_participants event) of
               None \<Rightarrow> [] | Some organizer \<Rightarrow> [organizer_line organizer]) @
            concat (map attendee_lines (be_participants event)) @
            (case be_status event of None \<Rightarrow> [] | Some s \<Rightarrow> [''STATUS:'' @ status_name s]) @
            (case be_sequence event of None \<Rightarrow> [] | Some q \<Rightarrow> [''SEQUENCE:'' @ int_str (max 0 \<lfloor>q\<rfloor>)]) @
            text_line ''URL:'' sanitizeIcsUri (be_sourceUrl event) @
            (case be_recurrence event of
               None \<Rightarrow> []
             | Some r \<Rightarrow> let rrule = buildRruleString toDate r in if rrule \<noteq> [] then [''RRULE:'' @ rrule] else []) @
            [''END:VEVENT'']))"

section \<open>Calendars\<close>

fun event_line_lists ::
  "date_formatter \<Rightarrow> (string \<Rightarrow> int option) \<Rightarrow> (nat \<Rightarrow> string) \<Rightarrow> nat \<Rightarrow> ics_build_event_input list \<Rightarrow> int \<Rightarrow>
   string option \<Rightarrow> ics_error + string list" where
  "event_line_lists fmt toDate uuids n [] dtStamp calendarTimezone = Inr []"
| "event_line_lists fmt toDate uuids n (event # events) dtStamp calendarTimezone =
     (case buildEventLines fmt toDate (uuids n) event dtStamp calendarTimezone of
        Inl e \<Rightarrow> Inl e
      | Inr lines \<Rightarrow>
          (case event_line_lists fmt toDate uuids (n + 1) events dtStamp calendarTimezone of
             Inl e \<Rightarrow> Inl e
           | Inr rest \<Rightarrow> Inr (lines @ rest)))"

definition calendar_lines ::
  "date_formatter \<Rightarrow> (string \<Rightarrow> int option) \<Rightarrow> (nat \<Rightarrow> string) \<Rightarrow> int \<Rightarrow> ics_calendar_metadata \<Rightarrow>
   ics_build_event_input list \<Rightarrow> ics_error + string list" where
  "calendar_lines fmt toDate uuids dtStamp calendar events =
     (case event_line_lists fmt toDate uuids 0 events dtStamp (cal_timezone calendar) of
        Inl e \<Rightarrow> Inl e
      | Inr eventLines \<Rightarrow> Inr (
          [''BEGIN:VCALENDAR'', ''VERSION:2.0'',
           ''PRODID:'' @ or_else (trimmed (cal_productId calendar)) DEFAULT_PRODUCT_ID,
           ''CALSCALE:GREGORIAN'',
           ''METHOD:'' @ (case cal_method calendar of None \<Rightarrow> DEFAULT_CALENDAR_METHOD | Some m \<Rightarrow> or_else m DEFAULT_CALENDAR_METHOD),
           ''X-WR-CALNAME:'' @ escapeIcsText (or_else (trimmed (cal_name calendar)) ''Calendar'')] @
          text_line ''X-WR-CALDESC:'' escapeIcsText (cal_description calendar) @
          text_line ''X-WR-TIMEZONE:'' escapeIcsText (cal_timezone calendar) @
          text_line ''URL:'' sanitizeIcsUri (cal_sourceUrl calendar) @
          eventLines @ [''END:VCALENDAR'']))"

definition buildIcsCalendar ::
  "date_formatter \<Rightarrow> (string \<Rightarrow> int option) \<Rightarrow> (nat \<Rightarrow> string) \<Rightarrow> int \<Rightarrow> ics_calendar_metadata \<Rightarrow>
   ics_build_event_input list \<Rightarrow> ics_error + string" where
  "buildIcsCalendar fmt toDate uuids dtStamp calendar events =
     (case calendar_lines fmt toDate uuids dtStamp calendar events of
        Inl e \<Rightarrow> Inl e
      | Inr lines \<Rightarrow> Inr (join_with ICS_LINE_BREAK (foldIcsLines lines) @ ICS_LINE_BREAK))"

definition buildIcsEventFile ::
  "date_formatter \<Rightarrow> (string \<Rightarrow> int option) \<Rightarrow> (nat \<Rightarrow> string) \<Rightarrow> int \<Rightarrow> ics_calendar_metadata \<Rightarrow>
   ics_build_event_input \<Rightarrow> ics_error + string" where
  "buildIcsEventFile fmt toDate uuids dtStamp calendar event =
     buildIcsCalendar fmt toDate uuids dtStamp calendar [event]"

section \<open>Folding and unfolding\<close>

text \<open>What a reader does: a line that begins with a space continues the line before it.\<close>

definition is_continuation :: "string \<Rightarrow> bool" where
  "is_continuation l \<longleftrightarrow> (case l of [] \<Rightarrow> False | c # _ \<Rightarrow> c = CHR '' '')"

function unfold_lines :: "string list \<Rightarrow> string list" where
  "unfold_lines [] = []"
| "unfold_lines (l # ls) =
     (l @ concat (map tl (takeWhile is_continuation ls))) # unfold_lines (dropWhile is_continuation ls)"
  by pat_completeness auto
termination by (relation "measure length") (auto simp: le_imp_less_Suc length_dropWhile_le)

definition physical_lines :: "string \<Rightarrow> string list" where
  "physical_lines text = map butlast (butlast (split_on LF text))"

definition segment_widths :: "string list \<Rightarrow> bool" where
  "segment_widths segs \<longleftrightarrow>
     (case segs of [] \<Rightarrow> True
      | s # ss \<Rightarrow> octets s \<le> 75 \<and> (\<forall>x \<in> set ss. octets x \<le> 74 \<and> x \<noteq> []))"

lemma octets_append [simp]: "octets (s @ t) = octets s + octets t"
  by (simp add: octets_def)

lemma octets_simps [simp]: "octets [] = 0" "octets (c # s) = char_octets c + octets s"
  by (simp_all add: octets_def)

lemma char_octets_bounds: "1 \<le> char_octets c" "char_octets c \<le> 2"
  by (simp_all add: char_octets_def)

lemma octets_pos: "0 < octets s \<longleftrightarrow> s \<noteq> []"
  using char_octets_bounds(1) by (cases s) (auto simp: Suc_le_eq)

lemma segment_widths_snoc:
  "segment_widths segs \<Longrightarrow> octets s \<le> (if segs = [] then 75 else 74) \<Longrightarrow> s \<noteq> [] \<Longrightarrow> segment_widths (segs @ [s])"
  by (auto simp: segment_widths_def split: list.splits)

lemma fold_loop_spec:
  "segment_widths segs \<Longrightarrow> limit = (if segs = [] then 75 else 74) \<Longrightarrow> used = octets current \<Longrightarrow> used \<le> limit \<Longrightarrow>
    segment_widths (fold_loop rest segs current used limit) \<and> fold_loop rest segs current used limit \<noteq> [] \<and>
    concat (fold_loop rest segs current used limit) = concat segs @ current @ rest"
proof (induction rest segs current used limit rule: fold_loop.induct)
  case (1 segs current used limit)
  then show ?case
  proof (cases "current = []")
    case True
    with 1 show ?thesis by (auto simp: segment_widths_def)
  next
    case False
    with 1 segment_widths_snoc [of segs current] show ?thesis by simp
  qed
next
  case (2 c rest segs current used limit)
  note b = char_octets_bounds [of c]
  show ?case
  proof (cases "used > 0 \<and> used + char_octets c > limit")
    case True
    then have "segment_widths (segs @ [current])"
      using 2(3-6) by (auto intro: segment_widths_snoc simp: octets_pos)
    with 2(1) [OF refl True] True b show ?thesis
      by (simp add: ICS_CONTINUATION_MAX_LINE_OCTETS_def)
  next
    case False
    then have "used + char_octets c \<le> limit" using 2(4,6) b by (auto split: if_splits)
    with 2(2) [OF refl False] 2(3-6) False show ?thesis by (simp add: ac_simps)
  qed
qed

lemma fold_segments:
  obtains s ss where "fold_loop line [] [] 0 ICS_MAX_LINE_OCTETS = s # ss" "octets s \<le> 75"
    "\<And>x. x \<in> set ss \<Longrightarrow> octets x \<le> 74" "s @ concat ss = line"
    "foldIcsLine line = s # map (\<lambda>s. CHR '' '' # s) ss"
proof -
  let ?r = "fold_loop line [] [] 0 ICS_MAX_LINE_OCTETS"
  have r: "segment_widths ?r" "?r \<noteq> []" "concat ?r = line"
    using fold_loop_spec [of "[]" 75 0 "[]" line] by (simp_all add: segment_widths_def ICS_MAX_LINE_OCTETS_def)
  then obtain s ss where ss: "?r = s # ss" by (cases ?r) auto
  with r show thesis by (intro that [OF ss]) (auto simp: segment_widths_def foldIcsLine_def)
qed

text \<open>Folding a content line gives lines of at most 75 bytes; every line after the first
  begins with a space, and dropping these spaces gives the content line back.\<close>

lemma fold_line_round_trip:
  "foldIcsLine line \<noteq> [] \<and> (\<forall>l \<in> set (foldIcsLine line). octets l \<le> 75) \<and>
   (\<forall>l \<in> set (tl (foldIcsLine line)). is_continuation l) \<and>
   hd (foldIcsLine line) @ concat (map tl (tl (foldIcsLine line))) = line"
proof (rule fold_segments [of line])
  fix s ss
  assume s: "octets s \<le> 75" "\<And>x. x \<in> set ss \<Longrightarrow> octets x \<le> 74" "s @ concat ss = line"
    "foldIcsLine line = s # map (\<lambda>s. CHR '' '' # s) ss"
  have "octets (CHR '' '' # x) \<le> 75" if "x \<in> set ss" for x
    using s(2) [OF that] by (simp add: char_octets_def)
  with s show ?thesis by (auto simp: is_continuation_def o_def)
qed

lemma fold_line_round_trip_witness:
  "foldIcsLine (replicate 100 (CHR ''x'')) \<noteq> [] \<and>
   list_all (\<lambda>l. octets l \<le> 75) (foldIcsLine (replicate 100 (CHR ''x''))) \<and>
   list_all is_continuation (tl (foldIcsLine (replicate 100 (CHR ''x'')))) \<and>
   hd (foldIcsLine (replicate 100 (CHR ''x''))) @ concat (map tl (tl (foldIcsLine (replicate 100 (CHR ''x''))))) =
     replicate 100 (CHR ''x'')"
  unfolding list_all_iff by (rule fold_line_round_trip)

lemma unfold_fold_lines:
  "(\<And>l. l \<in> set lines \<Longrightarrow> \<not> is_continuation l) \<Longrightarrow> unfold_lines (foldIcsLines lines) = lines"
proof (induction lines)
  case Nil
  show ?case by (simp add: foldIcsLines_def)
next
  case (Cons l ls)
  obtain s ss where s: "s @ concat ss = l" "foldIcsLine l = s # map (\<lambda>s. CHR '' '' # s) ss"
    by (rule fold_segments [of l])
  have first: "\<not> is_continuation (hd (foldIcsLine x))" if x: "\<not> is_continuation x" for x
    by (rule fold_segments [of x]) (use x in \<open>auto simp: is_continuation_def split: list.splits\<close>)
  have next_first: "foldIcsLines ls = [] \<or> \<not> is_continuation (hd (foldIcsLines ls))"
  proof (cases ls)
    case (Cons k ks)
    moreover have "foldIcsLine k \<noteq> []" by (rule fold_segments [of k]) simp
    ultimately have "hd (foldIcsLines ls) = hd (foldIcsLine k)"
      by (simp add: foldIcsLines_def)
    with Cons first Cons.prems show ?thesis by simp
  qed (simp add: foldIcsLines_def)
  have conts: "\<forall>x \<in> set (map (\<lambda>s. CHR '' '' # s) ss). is_continuation x" by (auto simp: is_continuation_def)
  have "takeWhile is_continuation (map (\<lambda>s. CHR '' '' # s) ss @ foldIcsLines ls) = map (\<lambda>s. CHR '' '' # s) ss"
    "dropWhile is_continuation (map (\<lambda>s. CHR '' '' # s) ss @ foldIcsLines ls) = foldIcsLines ls"
    using conts next_first by (cases "foldIcsLines ls"; simp add: takeWhile_append dropWhile_append)+
  with s Cons show ?case by (simp add: foldIcsLines_def o_def)
qed

lemma split_joined_lines:
  "ls \<noteq> [] \<Longrightarrow> (\<And>l. l \<in> set ls \<Longrightarrow> LF \<notin> set l) \<Longrightarrow>
    split_on LF (join_with ICS_LINE_BREAK ls @ ICS_LINE_BREAK) = map (\<lambda>l. l @ [CR]) ls @ [[]]"
proof (induction ls rule: induct_list012)
  case (2 l)
  then show ?case using split_on_append [of LF "l @ [CR]" "[]"] by (simp add: ICS_LINE_BREAK_def)
next
  case (3 l k ls)
  then show ?case
    using split_on_append [of LF "l @ [CR]" "join_with ICS_LINE_BREAK (k # ls) @ ICS_LINE_BREAK"]
    by (simp add: ICS_LINE_BREAK_def)
qed simp

lemma physical_lines_of_join:
  "ls \<noteq> [] \<Longrightarrow> (\<And>l. l \<in> set ls \<Longrightarrow> LF \<notin> set l) \<Longrightarrow>
    physical_lines (join_with ICS_LINE_BREAK ls @ ICS_LINE_BREAK) = ls"
  by (simp add: physical_lines_def split_joined_lines o_def)

lemma foldIcsLines_no_LF: "(\<And>l. l \<in> set lines \<Longrightarrow> LF \<notin> set l) \<Longrightarrow> x \<in> set (foldIcsLines lines) \<Longrightarrow> LF \<notin> set x"
proof -
  assume lines: "\<And>l. l \<in> set lines \<Longrightarrow> LF \<notin> set l" and x: "x \<in> set (foldIcsLines lines)"
  from x obtain l where l: "l \<in> set lines" "x \<in> set (foldIcsLine l)" by (auto simp: foldIcsLines_def)
  show "LF \<notin> set x"
  proof (rule fold_segments [of l])
    fix s ss
    assume s: "s @ concat ss = l" "foldIcsLine l = s # map (\<lambda>s. CHR '' '' # s) ss"
    then have "set x \<subseteq> insert (CHR '' '') (set l)" using l(2) by auto
    moreover have "LF \<noteq> CHR '' ''" by (simp add: LF_def)
    ultimately show ?thesis using lines [OF l(1)] by auto
  qed
qed

section \<open>Escaping\<close>

text \<open>Reading an escaped text: a backslash before \<open>n\<close> or \<open>N\<close> is a line break, before another
  character that character.\<close>

fun unescape_text :: "string \<Rightarrow> string" where
  "unescape_text [] = []"
| "unescape_text [c] = [c]"
| "unescape_text (c # d # s) =
     (if c = backslash then (if d = CHR ''n'' \<or> d = CHR ''N'' then LF else d) # unescape_text s
      else c # unescape_text (d # s))"

lemma special_chars [simp]:
  "backslash \<noteq> LF" "backslash \<noteq> CR" "backslash \<noteq> CHR ''n''" "backslash \<noteq> CHR '',''" "backslash \<noteq> CHR '';''"
  "LF \<noteq> CHR ''n''" "LF \<noteq> CHR '',''" "LF \<noteq> CHR '';''" "CR \<noteq> CHR ''n''" "CR \<noteq> CHR '',''" "CR \<noteq> CHR '';''"
  "backslash \<noteq> CHR ''N''" "LF \<noteq> backslash" "CR \<noteq> backslash" "CHR ''n'' \<noteq> backslash" "CHR '','' \<noteq> backslash"
  "CHR '';'' \<noteq> backslash" "LF \<noteq> CHR 0x22" "LF \<noteq> CHR '' ''"
  by (simp_all add: backslash_def LF_def CR_def)

definition escape_char :: "char \<Rightarrow> string" where
  "escape_char c = (if c \<in> {backslash, CHR '','', CHR '';''} then [backslash, c] else [c])"

lemma escapeIcsText_Nil [simp]: "escapeIcsText [] = []"
  by (simp add: escapeIcsText_def)

lemma escapeIcsText_LF: "escapeIcsText (LF # s) = [backslash, CHR ''n''] @ escapeIcsText s"
  by (simp add: escapeIcsText_def)

lemma escapeIcsText_CRLF: "escapeIcsText (CR # LF # s) = [backslash, CHR ''n''] @ escapeIcsText s"
  by (simp add: escapeIcsText_def)

lemma escapeIcsText_CR: "s = [] \<or> hd s \<noteq> LF \<Longrightarrow> escapeIcsText (CR # s) = CR # escapeIcsText s"
  by (cases s) (auto simp: escapeIcsText_def)

lemma escapeIcsText_char: "c \<noteq> LF \<Longrightarrow> c \<noteq> CR \<Longrightarrow> escapeIcsText (c # s) = escape_char c @ escapeIcsText s"
  by (auto simp: escapeIcsText_def escape_char_def)

lemma unescape_step: "d \<noteq> backslash \<Longrightarrow> unescape_text (d # s) = d # unescape_text s"
  by (cases s) auto

lemma newlines_step:
  "c \<noteq> LF \<Longrightarrow> c \<noteq> CR \<Longrightarrow> replace_newlines r (c # s) = c # replace_newlines r s"
  "s = [] \<or> hd s \<noteq> LF \<Longrightarrow> replace_newlines r (CR # s) = CR # replace_newlines r s"
  by (cases s; simp)+

text \<open>A text survives escaping: reading the escaped text gives the text with its line breaks
  written as line feeds, whatever characters it has, and the escaped text has no line feed.\<close>

lemma escape_text_round_trip:
  "unescape_text (escapeIcsText s) = replace_newlines [LF] s \<and> LF \<notin> set (escapeIcsText s)"
proof (induction s rule: length_induct)
  case (1 s)
  show ?case
  proof (cases s)
    case (Cons c r)
    have IH: "unescape_text (escapeIcsText t) = replace_newlines [LF] t \<and> LF \<notin> set (escapeIcsText t)"
      if "length t < length s" for t using 1 that by blast
    consider "c = LF" | (crlf) r' where "c = CR" "r = LF # r'" | "c = CR" "r = [] \<or> hd r \<noteq> LF"
      | "c \<noteq> LF" "c \<noteq> CR"
      by (cases r) auto
    then show ?thesis
    proof cases
      case 1
      with IH [of r] Cons show ?thesis by (simp add: escapeIcsText_LF)
    next
      case crlf
      with IH [of r'] Cons show ?thesis by (simp add: escapeIcsText_CRLF)
    next
      case 3
      with IH [of r] Cons show ?thesis
        by (simp add: escapeIcsText_CR newlines_step(2) unescape_step del: replace_newlines.simps)
    next
      case 4
      with IH [of r] Cons show ?thesis
        by (auto simp: escapeIcsText_char escape_char_def newlines_step unescape_step)
    qed
  qed simp
qed

section \<open>Ranges and dates\<close>

text \<open>The range of an exported event is in order: an all-day event does not end before it
  starts, a timed event ends after it starts; only invalid dates are rejected.\<close>

lemma event_range_ordered:
  "(case normalizeEventRange eventStart eventEnd allDay of
      Inl e \<Rightarrow> (e = Invalid_start \<longleftrightarrow> eventStart = None) \<and> (e = Invalid_end \<longleftrightarrow> eventStart \<noteq> None \<and> eventEnd = None)
    | Inr (start, endAt) \<Rightarrow> eventStart = Some start \<and> start \<le> endAt \<and> (allDay \<or> start < endAt) \<and>
        (\<exists>e. eventEnd = Some e \<and> e \<le> endAt))"
  by (cases eventStart; cases eventEnd) (auto simp: normalizeEventRange_def)

lemma stamp_of_day: "formatDateStamp t = formatDateStamp (utc_day t * ms_per_day + 0)"
  by (simp add: formatDateStamp_def getUTCFullYear_def getUTCMonth_def getUTCDate_def del: add_0_right)

lemma pad2_parts:
  assumes "0 \<le> i" "i < 100"
  shows "length (pad2 i) = 2" "list_all is_digit (pad2 i)" "int (nat_of_digits (pad2 i)) = i"
  using pad_two [of "nat i"] assms by (simp_all add: pad2_def int_str_nonneg)

lemma addDaysToDateStamp_stamp:
  assumes "1000 \<le> getUTCFullYear t" "getUTCFullYear t \<le> 9999"
  shows "addDaysToDateStamp (formatDateStamp t) n = formatDateStamp (t + n * ms_per_day)"
proof -
  let ?d = "utc_day t"
  define y m d where "y = int_str (year_of_day ?d)" and "m = pad2 (month_of_day ?d + 1)" and "d = pad2 (date_of_day ?d)"
  have ranges: "0 \<le> month_of_day ?d + 1" "month_of_day ?d + 1 < 100" "0 \<le> date_of_day ?d" "date_of_day ?d < 100"
    using month_of_day_bounds [of ?d] date_of_day_bounds [of ?d]
      days_in_month_bounds(2) [OF month_of_day_bounds, of "year_of_day ?d" ?d] by linarith+
  have y: "length y = 4" "list_all is_digit y" "int (nat_of_digits y) = year_of_day ?d"
    using assms length_nat_str4 [of "nat (year_of_day ?d)"]
    by (simp_all add: y_def int_str_nonneg getUTCFullYear_def)
  note m = pad2_parts [OF ranges(1,2), folded m_def] and d = pad2_parts [OF ranges(3,4), folded d_def]
  have stamp: "formatDateStamp t = y @ m @ d"
    by (simp add: formatDateStamp_def y_def m_def d_def getUTCFullYear_def getUTCMonth_def getUTCDate_def)
  have parts: "slice 0 4 (y @ m @ d) = y" "slice 4 6 (y @ m @ d) = m" "slice 6 8 (y @ m @ d) = d"
    using y(1) m(1) d(1) by (simp_all add: slice_def)
  have "Date_UTC (year_of_day ?d) (month_of_day ?d) (date_of_day ?d) 0 0 0 0 = ?d * ms_per_day + 0"
    using assms(1) by (simp add: Date_UTC_def full_year_def make_time_def getUTCFullYear_def)
  then have "addDaysToDateStamp (y @ m @ d) n = formatDateStamp (?d * ms_per_day + 0 + n * ms_per_day)"
    using y m d by (simp add: addDaysToDateStamp_def parts setUTCDate_shift)
  also have "\<dots> = formatDateStamp (t + n * ms_per_day)"
    using stamp_of_day [of "t + n * ms_per_day"] by (simp add: utc_day_add distrib_right)
  finally show ?thesis by (simp add: stamp)
qed

text \<open>The date formatter of a zone whose clock shows \<open>wall t\<close> at \<open>t\<close>.\<close>

definition shows_date :: "date_formatter \<Rightarrow> string \<Rightarrow> (int \<Rightarrow> int) \<Rightarrow> int \<Rightarrow> bool" where
  "shows_date fmt zone wall t \<longleftrightarrow>
     (\<exists>parts. fmt zone t = Some parts \<and> map_of parts ''year'' = Some (int_str (getUTCFullYear (wall t))) \<and>
        map_of parts ''month'' = Some (pad2 (getUTCMonth (wall t) + 1)) \<and>
        map_of parts ''day'' = Some (pad2 (getUTCDate (wall t))))"

lemma stamp_in_zone:
  assumes "shows_date fmt (zone_or_utc (Some (zone_or_utc (Some z)))) wall t"
  shows "formatDateStampInTimeZone fmt t z = formatDateStamp (wall t)"
proof -
  have "int_str i \<noteq> []" "pad2 i \<noteq> []" for i by (simp_all add: int_str_def pad2_def pad_zero_def)
  with assms show ?thesis
    by (auto simp: formatDateStampInTimeZone_def shows_date_def formatDateStamp_def Let_def)
qed

text \<open>An all-day event is exported by its days in its own zone: \<open>DTSTART\<close> is the day of the
  start, and \<open>DTEND\<close>, which is exclusive, the day after the day of the end.\<close>

lemma all_day_export_dates:
  assumes "be_allDay event"
    "zone = zone_or_utc (case be_timezone event of Some z \<Rightarrow> Some z | None \<Rightarrow> calendarTimezone)"
    "zone_or_utc (Some (zone_or_utc (Some zone))) = zone'"
    "shows_date fmt zone' wall start" "shows_date fmt zone' wall endAt"
    "1000 \<le> getUTCFullYear (wall endAt)" "getUTCFullYear (wall endAt) \<le> 9999"
  shows "date_lines fmt event start endAt calendarTimezone =
    [''DTSTART;VALUE=DATE:'' @ formatDateStamp (wall start),
     ''DTEND;VALUE=DATE:'' @ formatDateStamp (wall endAt + ms_per_day)]"
  using assms stamp_in_zone [of fmt zone wall] addDaysToDateStamp_stamp [OF assms(6,7), of 1]
  by (simp add: date_lines_def Let_def)

definition sample_fmt :: date_formatter where
  "sample_fmt tz t =
     Some [(''year'', int_str (getUTCFullYear t)), (''literal'', ''-''), (''month'', pad2 (getUTCMonth t + 1)),
           (''literal'', ''-''), (''day'', pad2 (getUTCDate t))]"

definition sample_ics_event :: ics_build_event_input where
  "sample_ics_event =
     \<lparr>be_uid = Some ''a@b'', be_title = ''Trip; plan'' @ [LF] @ ''END:VEVENT'', be_description = None, be_start = Some 1774742400000,
      be_end = Some 1774828799000, be_allDay = True, be_timezone = Some ''UTC'', be_location = None,
      be_recurrence = None, be_createdAt = None, be_updatedAt = None, be_status = None, be_sequence = None,
      be_sourceUrl = None, be_participants = []\<rparr>"

lemma all_day_export_dates_witness:
  "date_lines sample_fmt sample_ics_event 1774742400000 1774828799000 None =
    [''DTSTART;VALUE=DATE:'' @ formatDateStamp 1774742400000,
     ''DTEND;VALUE=DATE:'' @ formatDateStamp (1774828799000 + ms_per_day)]"
proof (rule all_day_export_dates [where wall = "\<lambda>t. t" and zone = "''UTC''" and zone' = "''UTC''"])
  show "''UTC'' = zone_or_utc (case be_timezone sample_ics_event of Some z \<Rightarrow> Some z | None \<Rightarrow> None)" by code_simp
  show "zone_or_utc (Some (zone_or_utc (Some ''UTC''))) = ''UTC''" by code_simp
  show "1000 \<le> getUTCFullYear 1774828799000" "getUTCFullYear 1774828799000 \<le> 9999" by code_simp+
qed (simp_all add: shows_date_def sample_fmt_def sample_ics_event_def)

section \<open>The file\<close>

definition content_line :: "string \<Rightarrow> bool" where
  "content_line l \<longleftrightarrow> \<not> is_continuation l \<and> LF \<notin> set l"

definition plain_formatter :: "date_formatter \<Rightarrow> bool" where
  "plain_formatter fmt \<longleftrightarrow> (\<forall>tz t parts p. fmt tz t = Some parts \<longrightarrow> p \<in> set parts \<longrightarrow> LF \<notin> set (snd p))"

lemma content_line_name:
  "c \<noteq> CHR '' '' \<Longrightarrow> LF \<notin> set (c # name) \<Longrightarrow> LF \<notin> set v \<Longrightarrow> content_line ((c # name) @ v)"
  by (simp add: content_line_def is_continuation_def)

lemma replace_char_no_LF: "LF \<notin> set r \<Longrightarrow> LF \<notin> set t \<Longrightarrow> LF \<notin> set (replace_char c r t)"
  using set_replace_char [of c r t] by blast

lemma escapeIcsText_no_LF: "LF \<notin> set (escapeIcsText s)"
  unfolding escapeIcsText_def by (intro replace_char_no_LF replace_newlines_no_LF) simp_all

lemma escapeIcsParamValue_no_LF: "LF \<notin> set (escapeIcsParamValue s)"
  unfolding escapeIcsParamValue_def by (intro replace_char_no_LF replace_newlines_no_LF) simp_all

lemma sanitizeIcsUri_no_LF: "LF \<notin> set (sanitizeIcsUri s)"
  unfolding sanitizeIcsUri_def using set_trim replace_newlines_no_LF [of "[]" s] by fastforce

lemma int_str_no_LF: "LF \<notin> set (int_str i)"
  by (auto simp: int_str_def LF_def digit_not_member_nat_str is_digit_def)

lemma formatDateTimeStamp_no_LF: "LF \<notin> set (pad2 i)" "LF \<notin> set (formatDateStamp t)" "LF \<notin> set (formatDateTimeStamp t)"
proof -
  show p: "LF \<notin> set (pad2 i)" for i
    using int_str_no_LF [of i] by (auto simp: pad2_def pad_zero_def LF_def)
  show d: "LF \<notin> set (formatDateStamp t)" by (simp add: formatDateStamp_def p int_str_no_LF)
  show "LF \<notin> set (formatDateTimeStamp t)" using p d by (simp add: formatDateTimeStamp_def) (simp add: LF_def)
qed

lemma join_with_no_LF: "LF \<notin> set d \<Longrightarrow> (\<And>w. w \<in> set ws \<Longrightarrow> LF \<notin> set w) \<Longrightarrow> LF \<notin> set (join_with d ws)"
  by (induction d ws rule: join_with.induct) auto

lemma weekday_codes_no_LF: "0 \<le> d \<Longrightarrow> d \<le> 6 \<Longrightarrow> LF \<notin> set (WEEKDAY_INDEX_TO_CODE ! nat d)"
proof -
  assume "0 \<le> d" "d \<le> 6"
  then have "WEEKDAY_INDEX_TO_CODE ! nat d \<in> set WEEKDAY_INDEX_TO_CODE"
    by (intro nth_mem) (simp add: WEEKDAY_INDEX_TO_CODE_def)
  then show ?thesis by (auto simp: WEEKDAY_INDEX_TO_CODE_def LF_def)
qed

lemma rrule_list_no_LF:
  assumes "LF \<notin> set name" "\<And>v. valid v \<Longrightarrow> LF \<notin> set (code v)" "w \<in> set (rrule_list name valid code values)"
  shows "LF \<notin> set w"
proof -
  obtain vs where "w = name @ ''='' @ join_with '','' (uniq (map code (filter valid vs)))"
    using assms(3) by (auto simp: rrule_list_def Let_def split: option.splits if_splits)
  moreover have "LF \<notin> set (join_with '','' (uniq (map code (filter valid vs))))"
    using assms(2) by (intro join_with_no_LF) auto
  ultimately show ?thesis using assms(1) by (simp add: LF_def)
qed

lemma frequency_no_LF: "LF \<notin> set (to_upper (frequency_name f))"
proof -
  have "LF \<notin> set (to_upper (frequency_name FDaily))" "LF \<notin> set (to_upper (frequency_name FWeekly))"
    "LF \<notin> set (to_upper (frequency_name FMonthly))" "LF \<notin> set (to_upper (frequency_name FYearly))"
    by code_simp+
  then show ?thesis by (cases f) (simp_all only: not_False_eq_True)
qed

lemma rrule_names_no_LF:
  "LF \<notin> set ''BYDAY''" "LF \<notin> set ''BYMONTHDAY''" "LF \<notin> set ''BYMONTH''" "LF \<notin> set ''FREQ=''"
  "LF \<notin> set ''INTERVAL=''" "LF \<notin> set ''COUNT=''" "LF \<notin> set ''UNTIL=''" "LF \<notin> set '';''"
  by (simp_all add: LF_def)

lemma rrule_segments_no_LF: "w \<in> set (rrule_segments toDate r) \<Longrightarrow> LF \<notin> set w"
proof -
  assume "w \<in> set (rrule_segments toDate r)"
  then consider "w = ''FREQ='' @ to_upper (frequency_name (r_frequency r))"
    | i where "w = ''INTERVAL='' @ int_str i" | i where "w = ''COUNT='' @ int_str i"
    | t where "w = ''UNTIL='' @ formatDateTimeStamp t"
    | "w \<in> set (rrule_list ''BYDAY'' (\<lambda>d. 0 \<le> d \<and> d \<le> 6) (\<lambda>d. WEEKDAY_INDEX_TO_CODE ! nat d) (r_byWeekDay r))"
    | "w \<in> set (rrule_list ''BYMONTHDAY'' (\<lambda>d. 1 \<le> d \<and> d \<le> 31) int_str (r_byMonthDay r))"
    | "w \<in> set (rrule_list ''BYMONTH'' (\<lambda>m. 1 \<le> m \<and> m \<le> 12) int_str (r_byMonth r))"
    by (auto simp: rrule_segments_def split: if_splits option.splits)
  then show "LF \<notin> set w"
  proof cases
    case 5
    then show ?thesis by (rule rrule_list_no_LF [rotated 2]) (simp_all only: rrule_names_no_LF weekday_codes_no_LF not_False_eq_True)
  next
    case 6
    then show ?thesis by (rule rrule_list_no_LF [rotated 2]) (rule rrule_names_no_LF int_str_no_LF)+
  next
    case 7
    then show ?thesis by (rule rrule_list_no_LF [rotated 2]) (rule rrule_names_no_LF int_str_no_LF)+
  qed (use rrule_names_no_LF int_str_no_LF formatDateTimeStamp_no_LF(3) frequency_no_LF in \<open>simp_all only: set_append Un_iff simp_thms\<close>)
qed

lemma buildRruleString_no_LF: "LF \<notin> set (buildRruleString toDate r)"
  unfolding buildRruleString_def by (rule join_with_no_LF [OF rrule_names_no_LF(8) rrule_segments_no_LF])

lemma formatDateStampInTimeZone_no_LF:
  assumes "plain_formatter fmt"
  shows "LF \<notin> set (formatDateStampInTimeZone fmt t z)"
proof -
  have "LF \<notin> set (case map_of parts ty of None \<Rightarrow> [] | Some v \<Rightarrow> v)"
    if "fmt tz t = Some parts" for tz parts ty
  proof (cases "map_of parts ty")
    case (Some v)
    then have "(ty, v) \<in> set parts" by (rule map_of_SomeD)
    with assms that have "LF \<notin> set (snd (ty, v))" unfolding plain_formatter_def by blast
    with Some show ?thesis by simp
  qed simp
  then show ?thesis
    using formatDateTimeStamp_no_LF(2)
    by (auto simp: formatDateStampInTimeZone_def Let_def split: option.splits)
qed

lemma addDaysToDateStamp_no_LF: "LF \<notin> set s \<Longrightarrow> LF \<notin> set (addDaysToDateStamp s n)"
  using formatDateTimeStamp_no_LF(2) by (simp add: addDaysToDateStamp_def Let_def)

text \<open>The names of the properties.\<close>

definition property_name :: "string \<Rightarrow> bool" where
  "property_name n \<longleftrightarrow> n \<noteq> [] \<and> hd n \<noteq> CHR '' '' \<and> LF \<notin> set n"

lemma property_names:
  "property_name ''BEGIN:VEVENT''" "property_name ''UID:''" "property_name ''DTSTAMP:''" "property_name ''CREATED:''"
  "property_name ''LAST-MODIFIED:''" "property_name ''SUMMARY:''" "property_name ''DTSTART;VALUE=DATE:''"
  "property_name ''DTEND;VALUE=DATE:''" "property_name ''DTSTART:''" "property_name ''DTEND:''"
  "property_name ''DESCRIPTION:''" "property_name ''LOCATION:''" "property_name ''ORGANIZER''"
  "property_name ''ATTENDEE''" "property_name ''STATUS:''" "property_name ''SEQUENCE:''" "property_name ''URL:''"
  "property_name ''RRULE:''" "property_name ''END:VEVENT''" "property_name ''BEGIN:VCALENDAR''"
  "property_name ''VERSION:2.0''" "property_name ''PRODID:''" "property_name ''CALSCALE:GREGORIAN''"
  "property_name ''METHOD:''" "property_name ''X-WR-CALNAME:''" "property_name ''X-WR-CALDESC:''"
  "property_name ''X-WR-TIMEZONE:''" "property_name ''END:VCALENDAR''"
  by (simp_all add: property_name_def LF_def)

lemma content_line_property: "property_name n \<Longrightarrow> LF \<notin> set v \<Longrightarrow> content_line (n @ v)"
  by (cases n) (auto simp: property_name_def content_line_def is_continuation_def)

lemma content_line_plain: "property_name n \<Longrightarrow> content_line n"
  using content_line_property [of n "[]"] by simp

lemma content_line_text_line:
  "property_name n \<Longrightarrow> (\<And>t. LF \<notin> set (write t)) \<Longrightarrow> l \<in> set (text_line n write v) \<Longrightarrow> content_line l"
  by (auto simp: text_line_def Let_def split: if_splits intro: content_line_property)

lemma content_line_organizer: "content_line (organizer_line p)"
proof -
  have "LF \<notin> set ('';CN='')" "LF \<notin> set ('':mailto:'')" by (simp_all add: LF_def)
  then show ?thesis
    unfolding organizer_line_def Let_def
    by (intro content_line_property property_names) (simp add: escapeIcsParamValue_no_LF sanitizeIcsUri_no_LF)
qed

lemma attendee_params_no_LF: "list_all (\<lambda>w. LF \<notin> set w) (attendee_params p)"
proof -
  have "LF \<notin> set (''CN='' @ escapeIcsParamValue t)" for t
    using escapeIcsParamValue_no_LF [of t] by (simp add: LF_def)
  moreover have "LF \<notin> set ''PARTSTAT=ACCEPTED''" "LF \<notin> set ''PARTSTAT=DECLINED''"
    "LF \<notin> set ''PARTSTAT=TENTATIVE''" "LF \<notin> set ''PARTSTAT=NEEDS-ACTION''" "LF \<notin> set ''RSVP=TRUE''"
    by (simp_all add: LF_def)
  ultimately show ?thesis
    unfolding attendee_params_def Let_def list_all_append
    by (simp only: list.pred_inject if_split option.split ics_status.split simp_thms)
qed

lemma content_line_attendee: "l \<in> set (attendee_lines p) \<Longrightarrow> content_line l"
proof -
  assume "l \<in> set (attendee_lines p)"
  then have l: "l = ''ATTENDEE'' @ (let params = attendee_params p in if params \<noteq> [] then '';'' @ join_with '';'' params else []) @
      '':mailto:'' @ sanitizeIcsUri (trim (pt_email p))"
    by (auto simp: attendee_lines_def Let_def split: if_splits)
  have "LF \<notin> set '';''" "LF \<notin> set '':mailto:''" by (simp_all add: LF_def)
  moreover from this(1) have "LF \<notin> set (join_with '';'' (attendee_params p))"
    by (rule join_with_no_LF) (use attendee_params_no_LF [of p] in \<open>simp add: list_all_iff\<close>)
  ultimately show "content_line l"
    unfolding l Let_def by (intro content_line_property property_names) (simp add: sanitizeIcsUri_no_LF)
qed

lemma content_line_dates:
  assumes "plain_formatter fmt"
  shows "list_all content_line (date_lines fmt event start endAt tz)"
proof -
  have stamp: "LF \<notin> set (formatDateStampInTimeZone fmt t z)" for t z
    using assms by (rule formatDateStampInTimeZone_no_LF)
  have "content_line (''DTSTART;VALUE=DATE:'' @ formatDateStampInTimeZone fmt t z)"
    "content_line (''DTEND;VALUE=DATE:'' @ addDaysToDateStamp (formatDateStampInTimeZone fmt t z) 1)"
    "content_line (''DTSTART:'' @ formatDateTimeStamp t)" "content_line (''DTEND:'' @ formatDateTimeStamp t)" for t z
    by (intro content_line_property property_names stamp addDaysToDateStamp_no_LF formatDateTimeStamp_no_LF)+
  then show ?thesis unfolding date_lines_def Let_def by (simp only: list.pred_inject if_split simp_thms)
qed

lemma content_line_status: "content_line (''STATUS:'' @ status_name s)"
proof -
  have "LF \<notin> set (status_name s)" by (cases s) (simp_all add: LF_def)
  then show ?thesis by (intro content_line_property property_names)
qed

lemma content_line_text:
  assumes "property_name n" "\<And>t. LF \<notin> set (write t)"
  shows "list_all content_line (text_line n write v)"
  using content_line_property [OF assms(1)] assms(2) by (simp add: text_line_def Let_def)

lemma buildEventLines_content:
  assumes "plain_formatter fmt" "buildEventLines fmt toDate uuid event dtStamp tz = Inr lines"
  shows "list_all content_line lines"
proof -
  obtain start endAt where range: "normalizeEventRange (be_start event) (be_end event) (be_allDay event) = Inr (start, endAt)"
    using assms(2) by (auto simp: buildEventLines_def split: sum.splits)
  have head: "content_line ''BEGIN:VEVENT''" "content_line ''END:VEVENT''" "content_line (''UID:'' @ escapeIcsText u)"
    "content_line (''DTSTAMP:'' @ formatDateTimeStamp t)" "content_line (''CREATED:'' @ formatDateTimeStamp t)"
    "content_line (''LAST-MODIFIED:'' @ formatDateTimeStamp t)" "content_line (''SUMMARY:'' @ escapeIcsText u)"
    "content_line (''SEQUENCE:'' @ int_str i)" "content_line (''RRULE:'' @ buildRruleString toDate r)" for u t i r
    by (intro content_line_plain content_line_property property_names escapeIcsText_no_LF formatDateTimeStamp_no_LF
        int_str_no_LF buildRruleString_no_LF)+
  have texts: "list_all content_line (text_line ''DESCRIPTION:'' escapeIcsText v)"
    "list_all content_line (text_line ''LOCATION:'' escapeIcsText v)"
    "list_all content_line (text_line ''URL:'' sanitizeIcsUri v)" for v
    by (intro content_line_text property_names escapeIcsText_no_LF sanitizeIcsUri_no_LF)+
  have people: "list_all content_line (concat (map attendee_lines ps))" for ps
    using content_line_attendee by (induction ps) (auto simp: list_all_iff)
  note lines = assms(2) [unfolded buildEventLines_def range sum.case prod.case Let_def, simplified sum.inject, symmetric]
  show ?thesis
    unfolding lines list_all_append
    by (simp only: list.pred_inject head texts people content_line_dates [OF assms(1)] content_line_status
        content_line_organizer option.split if_split simp_thms)
qed

lemma event_line_lists_content:
  "plain_formatter fmt \<Longrightarrow> event_line_lists fmt toDate uuids n events dtStamp tz = Inr lines \<Longrightarrow>
    list_all content_line lines"
  by (induction events arbitrary: n lines) (auto split: sum.splits dest: buildEventLines_content)

lemma calendar_method_no_LF: "isCalendarMethodType m \<Longrightarrow> LF \<notin> set m"
  by (auto simp: isCalendarMethodType_def CALENDAR_METHOD_TYPES_def LF_def)

lemma calendar_lines_content:
  assumes fmt: "plain_formatter fmt" and product: "LF \<notin> set (trimmed (cal_productId calendar))"
    and mth: "\<And>m. cal_method calendar = Some m \<Longrightarrow> isCalendarMethodType m"
    and lines: "calendar_lines fmt toDate uuids dtStamp calendar events = Inr lines"
  shows "list_all content_line lines" "lines \<noteq> []"
proof -
  obtain ls where ls: "event_line_lists fmt toDate uuids 0 events dtStamp (cal_timezone calendar) = Inr ls"
    using lines by (auto simp: calendar_lines_def split: sum.splits)
  have defaults: "LF \<notin> set DEFAULT_PRODUCT_ID" "LF \<notin> set DEFAULT_CALENDAR_METHOD"
    by (simp_all add: DEFAULT_PRODUCT_ID_def DEFAULT_CALENDAR_METHOD_def LF_def)
  then have prod: "LF \<notin> set (or_else (trimmed (cal_productId calendar)) DEFAULT_PRODUCT_ID)"
    using product by (simp add: or_else_def)
  have meth: "LF \<notin> set (case cal_method calendar of None \<Rightarrow> DEFAULT_CALENDAR_METHOD | Some m \<Rightarrow> or_else m DEFAULT_CALENDAR_METHOD)"
    using mth calendar_method_no_LF defaults by (auto simp: or_else_def split: option.splits)
  have head: "content_line ''BEGIN:VCALENDAR''" "content_line ''VERSION:2.0''" "content_line ''CALSCALE:GREGORIAN''"
    "content_line ''END:VCALENDAR''"
    "content_line (''PRODID:'' @ or_else (trimmed (cal_productId calendar)) DEFAULT_PRODUCT_ID)"
    "content_line (''METHOD:'' @ (case cal_method calendar of None \<Rightarrow> DEFAULT_CALENDAR_METHOD | Some m \<Rightarrow> or_else m DEFAULT_CALENDAR_METHOD))"
    "content_line (''X-WR-CALNAME:'' @ escapeIcsText u)" for u
    by (intro content_line_plain content_line_property property_names escapeIcsText_no_LF prod meth)+
  have texts: "list_all content_line (text_line ''X-WR-CALDESC:'' escapeIcsText v)"
    "list_all content_line (text_line ''X-WR-TIMEZONE:'' escapeIcsText v)"
    "list_all content_line (text_line ''URL:'' sanitizeIcsUri v)" for v
    by (intro content_line_text property_names escapeIcsText_no_LF sanitizeIcsUri_no_LF)+
  note eq = lines [unfolded calendar_lines_def ls sum.case, simplified sum.inject, symmetric]
  show "list_all content_line lines"
    unfolding eq list_all_append
    by (simp only: list.pred_inject head texts event_line_lists_content [OF fmt ls] simp_thms)
  show "lines \<noteq> []" unfolding eq by simp
qed

text \<open>C11: No text of an event, and no text of the calendar but its product id, can add, split or join
  lines of the exported file: splitting the file at its line breaks and unfolding it gives back
  exactly the content lines it was built from, whatever the titles, descriptions, locations,
  names, addresses and links. The product id is written as it is (no caller of the program sets
  one), so it is assumed to have no line feed once trimmed; the method is one of its declared
  values, and the formatted dates have no line feed.\<close>

theorem ics_file_round_trip:
  assumes "plain_formatter fmt" "LF \<notin> set (trimmed (cal_productId calendar))"
    "\<And>m. cal_method calendar = Some m \<Longrightarrow> isCalendarMethodType m"
    "calendar_lines fmt toDate uuids dtStamp calendar events = Inr lines"
    "buildIcsCalendar fmt toDate uuids dtStamp calendar events = Inr ics"
  shows "unfold_lines (physical_lines ics) = lines"
proof -
  have content: "list_all content_line lines" "lines \<noteq> []"
    using calendar_lines_content [OF assms(1,2) _ assms(4)] assms(3) by blast+
  have ics: "ics = join_with ICS_LINE_BREAK (foldIcsLines lines) @ ICS_LINE_BREAK"
    using assms(4,5) by (simp add: buildIcsCalendar_def)
  have ne: "foldIcsLines lines \<noteq> []"
  proof -
    have "foldIcsLine l \<noteq> []" for l by (rule fold_segments [of l]) simp
    with content(2) show ?thesis by (cases lines) (simp_all add: foldIcsLines_def)
  qed
  have "LF \<notin> set l" if "l \<in> set (foldIcsLines lines)" for l
    using foldIcsLines_no_LF [OF _ that] content(1) by (simp add: list_all_iff content_line_def)
  then have "physical_lines ics = foldIcsLines lines"
    unfolding ics using ne by (intro physical_lines_of_join)
  with content(1) show ?thesis by (simp add: unfold_fold_lines list_all_iff content_line_def)
qed

text \<open>A title that tries to close its event.\<close>

definition sample_metadata :: ics_calendar_metadata where
  "sample_metadata = \<lparr>cal_name = Some ''Work'', cal_description = None, cal_timezone = None, cal_method = None,
     cal_productId = None, cal_sourceUrl = None\<rparr>"

definition sample_ics_lines :: "string list" where
  "sample_ics_lines =
     (case calendar_lines sample_fmt (\<lambda>_. None) (\<lambda>_. ''u'') 0 sample_metadata [sample_ics_event] of
        Inr ls \<Rightarrow> ls | Inl _ \<Rightarrow> [])"

definition sample_ics_file :: string where
  "sample_ics_file = join_with ICS_LINE_BREAK (foldIcsLines sample_ics_lines) @ ICS_LINE_BREAK"

lemma plain_sample_fmt: "plain_formatter sample_fmt"
proof -
  have "LF \<notin> set ''-''" by (simp add: LF_def)
  then show ?thesis
    using int_str_no_LF formatDateTimeStamp_no_LF(1) by (auto simp: plain_formatter_def sample_fmt_def)
qed

theorem ics_file_round_trip_witness: "unfold_lines (physical_lines sample_ics_file) = sample_ics_lines"
proof -
  have lines: "calendar_lines sample_fmt (\<lambda>_. None) (\<lambda>_. ''u'') 0 sample_metadata [sample_ics_event] = Inr sample_ics_lines"
    unfolding sample_ics_lines_def
    by (simp add: calendar_lines_def buildEventLines_def normalizeEventRange_def sample_ics_event_def)
  show ?thesis
  proof (rule ics_file_round_trip [OF plain_sample_fmt _ _ lines])
    show "buildIcsCalendar sample_fmt (\<lambda>_. None) (\<lambda>_. ''u'') 0 sample_metadata [sample_ics_event] = Inr sample_ics_file"
      by (simp add: buildIcsCalendar_def lines sample_ics_file_def)
  qed (simp_all add: sample_metadata_def trimmed_def)
qed

text \<open>The condition on the product id matters: with a line break in it, the file has lines of its
  own choosing.\<close>

definition injecting_metadata :: ics_calendar_metadata where
  "injecting_metadata = sample_metadata\<lparr>cal_productId := Some (''x'' @ ICS_LINE_BREAK @ ''METHOD:CANCEL'')\<rparr>"

lemma product_id_adds_lines:
  "(case buildIcsCalendar sample_fmt (\<lambda>_. None) (\<lambda>_. ''u'') 0 injecting_metadata [] of
      Inr ics \<Rightarrow> ''METHOD:CANCEL'' \<in> set (unfold_lines (physical_lines ics)) | Inl _ \<Rightarrow> False)"
  by code_simp

text \<open>A display name with a colon breaks its line: the parameter is written without quotes,
  so the value of the property begins inside the name.\<close>

lemma organizer_name_colon:
  "organizer_line \<lparr>pt_email = ''ops@example.org'', pt_displayName = Some ''Team: Ops'', pt_role = Some Organizer,
      pt_status = None\<rparr> = ''ORGANIZER;CN=Team: Ops:mailto:ops@example.org'' \<and>
   tl (dropWhile (\<lambda>c. c \<noteq> CHR '':'')
     (organizer_line \<lparr>pt_email = ''ops@example.org'', pt_displayName = Some ''Team: Ops'', pt_role = Some Organizer,
        pt_status = None\<rparr>)) = '' Ops:mailto:ops@example.org''"
  by code_simp

end
