(* ===== verification/JsMap.thy ===== *)
theory JsMap
  imports Prelude
begin

text \<open>
  \<open>Map\<close> objects: insertion-ordered maps as the components that merge records by a key use
  them, with the lemmas on repeated \<open>set\<close> calls.
\<close>

text \<open>A \<open>Map\<close> is the list of its entries in insertion order; \<open>set\<close> on a present key keeps its place.\<close>

fun map_set :: "'k \<Rightarrow> 'v \<Rightarrow> ('k \<times> 'v) list \<Rightarrow> ('k \<times> 'v) list" where
  "map_set k v [] = [(k, v)]"
| "map_set k v ((k', v') # m) = (if k' = k then (k, v) # m else (k', v') # map_set k v m)"

lemma keys_map_set: "map fst (map_set k v m) = (if k \<in> fst ` set m then map fst m else map fst m @ [k])"
  by (induction k v m rule: map_set.induct) auto

lemma map_of_map_set [simp]: "map_of (map_set k v m) = (map_of m)(k \<mapsto> v)"
  by (induction k v m rule: map_set.induct) auto

lemma set_keys_map_set: "fst ` set (map_set k v m) = insert k (fst ` set m)"
  by (induction k v m rule: map_set.induct) auto

lemma distinct_map_set: "distinct (map fst m) \<Longrightarrow> distinct (map fst (map_set k v m))"
  by (auto simp: keys_map_set)

lemma set_map_set:
  "distinct (map fst m) \<Longrightarrow> set (map_set k v m) = insert (k, v) {x \<in> set m. fst x \<noteq> k}"
  by (induction k v m rule: map_set.induct) (auto simp: image_iff)

lemma uniq_acc_snoc:
  "uniq_acc s (xs @ [x]) = (if x \<in> set s \<union> set xs then uniq_acc s xs else uniq_acc s xs @ [x])"
  by (induction xs arbitrary: s) auto

lemma uniq_snoc: "uniq (xs @ [x]) = (if x \<in> set xs then uniq xs else uniq xs @ [x])"
  by (simp add: uniq_def uniq_acc_snoc)

text \<open>Setting a list of entries one after the other: the keys keep the order in which they first
  appear, each with its last value.\<close>

lemma fold_map_set:
  "map fst (fold (\<lambda>(k, v). map_set k v) es []) = uniq (map fst es)"
  "map_of (fold (\<lambda>(k, v). map_set k v) es []) = map_of (rev es)"
proof (induction es rule: rev_induct)
  case (snoc e es)
  { case 1
    from snoc show ?case
      by (cases e) (auto simp: keys_map_set uniq_snoc simp flip: set_map) }
  { case 2
    from snoc show ?case by (cases e) (simp add: fun_upd_def map_add_def) }
qed (simp_all add: uniq_def)

lemma map_snd_by_key:
  assumes "distinct (map fst m)"
  shows "map snd m = map (\<lambda>k. the (map_of m k)) (map fst m)"
proof -
  from assms have "snd x = the (map_of m (fst x))" if "x \<in> set m" for x
    using that by (cases x) (simp add: map_of_is_SomeI)
  then show ?thesis by simp
qed

text \<open>Of records with the same key the last one counts, in the place of the first.\<close>

definition last_by :: "('a \<Rightarrow> 'k) \<Rightarrow> 'a list \<Rightarrow> 'a list" where
  "last_by key xs = map (\<lambda>u. the (map_of (rev (map (\<lambda>x. (key x, x)) xs)) u)) (uniq (map key xs))"

lemma last_by_fold:
  "map snd (fold (\<lambda>x. map_set (key x) x) xs []) = last_by key xs"
proof -
  let ?m = "fold (\<lambda>(k, v). map_set k v) (map (\<lambda>x. (key x, x)) xs) []"
  have m: "fold (\<lambda>x. map_set (key x) x) xs [] = ?m" by (simp add: fold_map comp_def)
  have keys: "map fst ?m = uniq (map key xs)" by (simp only: fold_map_set map_map comp_def fst_conv)
  then have "map snd ?m = map (\<lambda>k. the (map_of ?m k)) (map fst ?m)" by (intro map_snd_by_key) simp
  with keys m show ?thesis by (simp only: last_by_def fold_map_set(2))
qed

lemma last_by_lookup:
  assumes "u \<in> key ` set xs"
  obtains x where "x \<in> set xs" "key x = u" "map_of (rev (map (\<lambda>x. (key x, x)) xs)) u = Some x"
proof -
  from assms have "map_of (rev (map (\<lambda>x. (key x, x)) xs)) u \<noteq> None"
    by (auto simp: map_of_eq_None_iff image_iff)
  then obtain x where x: "map_of (rev (map (\<lambda>x. (key x, x)) xs)) u = Some x" by auto
  from map_of_SomeD [OF x] have "x \<in> set xs" "key x = u" by auto
  with x show thesis by (rule that [rotated 2])
qed

lemma keys_last_by: "map key (last_by key xs) = uniq (map key xs)"
  unfolding last_by_def map_map by (rule map_idI) (auto elim!: last_by_lookup)

lemma set_last_by: "set (last_by key xs) \<subseteq> set xs"
  by (auto simp: last_by_def elim!: last_by_lookup)

lemma uniq_acc_distinct: "distinct xs \<Longrightarrow> set xs \<inter> set seen = {} \<Longrightarrow> uniq_acc seen xs = xs"
  by (induction xs arbitrary: seen) auto

lemma uniq_distinct: "distinct xs \<Longrightarrow> uniq xs = xs"
  by (simp add: uniq_def uniq_acc_distinct)

lemma set_map_filter: "set (List.map_filter f xs) = {y. \<exists>x \<in> set xs. f x = Some y}"
  by (induction xs) (auto simp: map_filter_simps split: option.splits)

end
