(* ===== verification/IcsParse.thy ===== *)
theory IcsParse
  imports IcsBuild JsMap
begin

text \<open>
  The iCalendar reader, \<open>packages/calendar-ics/src/parse-ics.ts\<close>: from what \<open>node-ical\<close> makes
  of a file to the events the calendar imports.

  \<open>node-ical\<close> is outside the repository: \<open>ical.parseICS\<close> is the parameter \<open>parseICS\<close>, which
  throws (\<open>Inl\<close>, with the message) or gives the components in the order of \<open>Object.values\<close>.
  Property values the code inspects are \<open>jsval\<close>; a start or end is the value with the
  \<open>dateOnly\<close> and \<open>tz\<close> properties \<open>node-ical\<close> attaches to its \<open>Date\<close> objects. Other parameters:
  \<open>toDate\<close>, the \<open>Date\<close> constructor on a string; \<open>fmt\<close>, \<open>formatToParts\<close> of the zone's formatter
  (\<open>None\<close>: \<open>Intl\<close> rejects the zone); \<open>hostClock t\<close>, the clock of the host's own zone at \<open>t\<close>;
  \<open>engineText\<close>, the engine's text of an error. The cache of formatters is left out.
\<close>

section \<open>Data\<close>

record event_date =
  ed_value :: jsval
  ed_dateOnly :: jsval
  ed_tz :: jsval

record ics_event_like =
  ie_uid :: jsval
  ie_summary :: jsval
  ie_description :: jsval
  ie_location :: jsval
  ie_start :: event_date
  ie_end :: event_date
  ie_datetype :: jsval
  ie_rrule :: jsval
  ie_recurrenceid :: jsval
  ie_organizer :: jsval
  ie_attendee :: jsval

datatype ical_component =
    VCalendar jsval
  | VEvent ics_event_like "ics_event_like option list"
  | OtherComponent

record parsed_ics_event =
  pe_uid :: string
  pe_sourceUid :: string
  pe_recurrenceId :: "string option"
  pe_title :: string
  pe_description :: "string option"
  pe_start :: "int option"
  pe_end :: "int option"
  pe_allDay :: bool
  pe_location :: "string option"
  pe_recurrence :: "ics_recurrence_rule option"
  pe_timezone :: "string option"
  pe_participants :: "ics_participant list option"

record ics_parse_result =
  pr_events :: "parsed_ics_event list"
  pr_errors :: "string list"
  pr_method :: string
  pr_calendarName :: "string option"
  pr_calendarDescription :: "string option"
  pr_calendarTimezone :: "string option"

datatype js_error = NotAnObject | BadTimeZone string | BadTimeValue | NotAFunction

record ics_env =
  parseICS :: "string \<Rightarrow> string + ical_component list"
  toDate :: "string \<Rightarrow> int option"
  fmt :: date_formatter
  hostClock :: "int \<Rightarrow> int"
  engineText :: "js_error \<Rightarrow> string"

definition DAY_IN_MS :: int where "DAY_IN_MS = 24 * 60 * 60 * 1000"
definition HOUR_IN_MS :: int where "HOUR_IN_MS = 60 * 60 * 1000"

definition FREQUENCY_MAP :: "(rat \<times> ics_frequency) list" where
  "FREQUENCY_MAP = [(0, FYearly), (1, FMonthly), (2, FWeekly), (3, FDaily)]"

definition FREQUENCY_STRING_MAP :: "(string \<times> ics_frequency) list" where
  "FREQUENCY_STRING_MAP =
     [(''YEARLY'', FYearly), (''MONTHLY'', FMonthly), (''WEEKLY'', FWeekly), (''DAILY'', FDaily)]"

definition WEEKDAY_CODE_TO_INDEX :: "(string \<times> int) list" where
  "WEEKDAY_CODE_TO_INDEX =
     [(''SU'', 0), (''MO'', 1), (''TU'', 2), (''WE'', 3), (''TH'', 4), (''FR'', 5), (''SA'', 6)]"

definition CALENDAR_NAME_KEYS :: "string list" where
  "CALENDAR_NAME_KEYS = [''WR-CALNAME'', ''X-WR-CALNAME'', ''x-wr-calname'', ''name'', ''title'']"

definition CALENDAR_DESCRIPTION_KEYS :: "string list" where
  "CALENDAR_DESCRIPTION_KEYS = [''WR-CALDESC'', ''X-WR-CALDESC'', ''x-wr-caldesc'', ''description'']"

definition CALENDAR_TIMEZONE_KEYS :: "string list" where
  "CALENDAR_TIMEZONE_KEYS = [''WR-TIMEZONE'', ''X-WR-TIMEZONE'', ''x-wr-timezone'']"

text \<open>\<open>date.toISOString()\<close>.\<close>

definition iso_year :: "int \<Rightarrow> string" where
  "iso_year y =
     (if 0 \<le> y \<and> y \<le> 9999 then pad_zero 4 (int_str y)
      else (if y < 0 then ''-'' else ''+'') @ pad_zero 6 (int_str \<bar>y\<bar>))"

definition toISOString :: "int \<Rightarrow> string" where
  "toISOString t =
     iso_year (getUTCFullYear t) @ ''-'' @ pad2 (getUTCMonth t + 1) @ ''-'' @ pad2 (getUTCDate t) @ ''T'' @
     pad2 (getUTCHours t) @ '':'' @ pad2 (getUTCMinutes t) @ '':'' @ pad2 (getUTCSeconds t) @ ''.'' @
     pad_zero 3 (int_str (getUTCMilliseconds t)) @ ''Z''"

section \<open>Values and participants\<close>

definition text_or_none :: "string \<Rightarrow> string option" where
  "text_or_none s = (if s = [] then None else Some s)"

text \<open>\<open>replace(/^mailto:/i, "")\<close>.\<close>

definition strip_mailto :: "string \<Rightarrow> string" where
  "strip_mailto s = (if to_lower (take 7 s) = ''mailto:'' then drop 7 s else s)"

definition normalizeParticipantEmail :: "string option \<Rightarrow> string" where
  "normalizeParticipantEmail email =
     (case email of None \<Rightarrow> [] | Some e \<Rightarrow> to_lower (strip_mailto (trim e)))"

fun getFirstStringValue :: "jsval \<Rightarrow> string list \<Rightarrow> string option" where
  "getFirstStringValue component [] = None"
| "getFirstStringValue component (key # keys) =
     (case js_get component key of
        JStr value \<Rightarrow> if trim value \<noteq> [] then Some (trim value) else getFirstStringValue component keys
      | _ \<Rightarrow> getFirstStringValue component keys)"

definition getTextValue :: "jsval \<Rightarrow> string option" where
  "getTextValue value =
     (case value of
        JStr s \<Rightarrow> text_or_none (trim s)
      | _ \<Rightarrow> (case js_get value ''val'' of JStr s \<Rightarrow> text_or_none (trim s) | _ \<Rightarrow> None))"

text \<open>The first key with a text, first as written and then in lower case.\<close>

fun lookup_keys :: "jsval \<Rightarrow> string list \<Rightarrow> string option" where
  "lookup_keys source [] = None"
| "lookup_keys source (key # keys) =
     (case getTextValue (js_get source key) of
        Some direct \<Rightarrow> Some direct
      | None \<Rightarrow> (case getTextValue (js_get source (to_lower key)) of
                  Some lower \<Rightarrow> Some lower
                | None \<Rightarrow> lookup_keys source keys))"

fun lookup_sources :: "jsval list \<Rightarrow> string list \<Rightarrow> string option" where
  "lookup_sources [] keys = None"
| "lookup_sources (source # sources) keys =
     (case lookup_keys source keys of Some v \<Rightarrow> Some v | None \<Rightarrow> lookup_sources sources keys)"

definition getParameterValue :: "jsval \<Rightarrow> string list \<Rightarrow> string option" where
  "getParameterValue value keys =
     (if \<not> is_object value then None
      else let params = js_get value ''params''; parameters = js_get value ''parameters''
           in lookup_sources ([value] @ (if is_object params then [params] else []) @
                (if is_object parameters then [parameters] else [])) keys)"

definition participant_email :: "jsval \<Rightarrow> string" where
  "participant_email value =
     (case value of
        JStr s \<Rightarrow> normalizeParticipantEmail (Some s)
      | _ \<Rightarrow> normalizeParticipantEmail (getTextValue (coalesce (js_get value ''val'') (js_get value ''email''))))"

definition parseParticipantValue :: "jsval \<Rightarrow> ics_role \<Rightarrow> ics_participant option" where
  "parseParticipantValue value fallbackRole =
     (if \<not> truthy value then None
      else let email = participant_email value in
        if email = [] then None
        else let displayName = getParameterValue value [''CN'', ''name''];
                 partStat = map_option to_upper (getParameterValue value [''PARTSTAT'', ''status'']);
                 roleParam = map_option to_upper (getParameterValue value [''ROLE'']);
                 role = (if fallbackRole = Organizer \<or> roleParam = Some ''CHAIR'' then Organizer else Attendee);
                 status = (if role = Organizer then Accepted
                           else if partStat = Some ''ACCEPTED'' then Accepted
                           else if partStat = Some ''DECLINED'' then Declined
                           else if partStat = Some ''TENTATIVE'' then Tentative else Pending)
             in Some \<lparr>pt_email = email, pt_displayName = displayName, pt_role = Some role, pt_status = Some status\<rparr>)"

definition is_organizer :: "ics_participant \<Rightarrow> bool" where
  "is_organizer p \<longleftrightarrow> pt_role p = Some Organizer"

definition merge_participants :: "ics_participant \<Rightarrow> ics_participant \<Rightarrow> ics_participant" where
  "merge_participants existing participant =
     (let organizer = is_organizer existing \<or> is_organizer participant in
      \<lparr>pt_email = pt_email participant,
       pt_displayName =
         (case pt_displayName participant of
            Some n \<Rightarrow> if n = [] then pt_displayName existing else Some n
          | None \<Rightarrow> pt_displayName existing),
       pt_role = Some (if organizer then Organizer else Attendee),
       pt_status =
         (if organizer then Some Accepted
          else case pt_status participant of Some s \<Rightarrow> Some s | None \<Rightarrow> pt_status existing)\<rparr>)"

definition addParticipant ::
  "ics_participant option \<Rightarrow> (string \<times> ics_participant) list \<Rightarrow> (string \<times> ics_participant) list" where
  "addParticipant participant participantsByEmail =
     (case participant of
        None \<Rightarrow> participantsByEmail
      | Some p \<Rightarrow>
          (case map_of participantsByEmail (pt_email p) of
             None \<Rightarrow> map_set (pt_email p) p participantsByEmail
           | Some existing \<Rightarrow> map_set (pt_email p) (merge_participants existing p) participantsByEmail))"

text \<open>\<open>Object.values\<close> of an attendee object is taken in insertion order.\<close>

definition attendee_entries :: "jsval \<Rightarrow> jsval list" where
  "attendee_entries attendeeValue =
     (case attendeeValue of
        JArr xs \<Rightarrow> xs
      | JObj ps \<Rightarrow> if map_of ps ''val'' = None then map snd ps else [attendeeValue]
      | JDate _ \<Rightarrow> []
      | _ \<Rightarrow> if truthy attendeeValue then [attendeeValue] else [])"

definition collectParticipants :: "ics_event_like \<Rightarrow> ics_participant list option" where
  "collectParticipants event =
     (let withOrganizer = addParticipant (parseParticipantValue (ie_organizer event) Organizer) [];
          participantsByEmail =
            fold (\<lambda>attendee. addParticipant (parseParticipantValue attendee Attendee))
              (attendee_entries (ie_attendee event)) withOrganizer
      in if participantsByEmail = [] then None else Some (map snd participantsByEmail))"

section \<open>Dates\<close>

definition coerceDate :: "ics_env \<Rightarrow> jsval \<Rightarrow> int option" where
  "coerceDate env value =
     (case value of JDate (Some t) \<Rightarrow> Some t | JStr s \<Rightarrow> toDate env s | _ \<Rightarrow> None)"

text \<open>\<open>parts.find(...)?.value || fallback\<close>, read as a decimal number.\<close>

definition number_part :: "(string \<times> string) list \<Rightarrow> string \<Rightarrow> string \<Rightarrow> int option" where
  "number_part parts type fallback =
     parse_int10 (case map_of parts type of None \<Rightarrow> fallback | Some v \<Rightarrow> or_else v fallback)"

text \<open>
  The offset of a zone's clock at a date: \<open>Inr None\<close> when a part is no number (\<open>NaN\<close>). An
  unknown zone and an invalid date throw. Zone offsets being whole seconds, \<open>getMilliseconds\<close>
  is the UTC one.
\<close>

definition getTimeZoneOffsetMs :: "ics_env \<Rightarrow> int option \<Rightarrow> string \<Rightarrow> js_error + int option" where
  "getTimeZoneOffsetMs env date timezone =
     (let zone = zone_or_utc (Some timezone) in
      case date of
        None \<Rightarrow> (case fmt env zone 0 of None \<Rightarrow> Inl (BadTimeZone zone) | Some _ \<Rightarrow> Inl BadTimeValue)
      | Some t \<Rightarrow>
          (case fmt env zone t of
             None \<Rightarrow> Inl (BadTimeZone zone)
           | Some parts \<Rightarrow>
               Inr (case (number_part parts ''year'' ''0'', number_part parts ''month'' ''1'',
                          number_part parts ''day'' ''1'', number_part parts ''hour'' ''0'',
                          number_part parts ''minute'' ''0'', number_part parts ''second'' ''0'') of
                      (Some year, Some month, Some day, Some hour, Some minute, Some second) \<Rightarrow>
                        Some (Date_UTC year (month - 1) day hour minute second 0 -
                              (t - getUTCMilliseconds t))
                    | _ \<Rightarrow> None)))"

record civil_date =
  cd_year :: int
  cd_month :: int
  cd_day :: int

definition parts_of :: "int \<Rightarrow> civil_date" where
  "parts_of t = \<lparr>cd_year = getUTCFullYear t, cd_month = getUTCMonth t + 1, cd_day = getUTCDate t\<rparr>"

definition getRuntimeLocalDateParts :: "ics_env \<Rightarrow> int \<Rightarrow> civil_date" where
  "getRuntimeLocalDateParts env date = parts_of (hostClock env date)"

definition addDaysToDateParts :: "civil_date \<Rightarrow> int \<Rightarrow> civil_date" where
  "addDaysToDateParts dateParts days =
     (let copy = Date_UTC (cd_year dateParts) (cd_month dateParts - 1) (cd_day dateParts) 0 0 0 0
      in parts_of (setUTCDate copy (getUTCDate copy + days)))"

definition buildUtcDateFromTimeZoneDateParts ::
  "ics_env \<Rightarrow> civil_date \<Rightarrow> string \<Rightarrow> bool \<Rightarrow> js_error + int option" where
  "buildUtcDateFromTimeZoneDateParts env dateParts timezone endOfDay =
     (let resolvedTimezone = zone_or_utc (Some timezone);
          utcGuess = Date_UTC (cd_year dateParts) (cd_month dateParts - 1) (cd_day dateParts)
            (if endOfDay then 23 else 0) (if endOfDay then 59 else 0) (if endOfDay then 59 else 0)
            (if endOfDay then 999 else 0)
      in case getTimeZoneOffsetMs env (Some utcGuess) resolvedTimezone of
           Inl e \<Rightarrow> Inl e
         | Inr initialOffset \<Rightarrow>
             let guessed = map_option (\<lambda>i. utcGuess - i) initialOffset in
             (case getTimeZoneOffsetMs env guessed resolvedTimezone of
                Inl e \<Rightarrow> Inl e
              | Inr adjustedOffset \<Rightarrow>
                  let normalized = (if adjustedOffset \<noteq> initialOffset
                        then map_option (\<lambda>i. utcGuess - i) adjustedOffset else guessed)
                  in Inr (if endOfDay then map_option (\<lambda>t. setUTCMilliseconds t 999) normalized
                          else normalized)))"

definition normalizeAllDayRange ::
  "ics_env \<Rightarrow> int \<Rightarrow> int option \<Rightarrow> string \<Rightarrow> js_error + int option \<times> int option" where
  "normalizeAllDayRange env start endAt timezone =
     (let startDateParts = getRuntimeLocalDateParts env start;
          lastCoveredDateParts =
            (case endAt of
               Some e \<Rightarrow> if e > start then addDaysToDateParts (getRuntimeLocalDateParts env e) (- 1)
                         else startDateParts
             | None \<Rightarrow> startDateParts)
      in case buildUtcDateFromTimeZoneDateParts env startDateParts timezone False of
           Inl e \<Rightarrow> Inl e
         | Inr s \<Rightarrow>
             (case buildUtcDateFromTimeZoneDateParts env lastCoveredDateParts timezone True of
                Inl e \<Rightarrow> Inl e
              | Inr f \<Rightarrow> Inr (s, f)))"

section \<open>Recurrence rules\<close>

definition parsePositiveInt :: "jsval \<Rightarrow> int option" where
  "parsePositiveInt value =
     (case value of
        JNum q \<Rightarrow> if q > 0 then Some \<lfloor>q\<rfloor> else None
      | JStr s \<Rightarrow>
          if trim s \<noteq> [] then
            (case parse_int10 s of
               Some n \<Rightarrow> if n < double_overflow \<and> n > 0 then Some n else None
             | None \<Rightarrow> None)
          else None
      | _ \<Rightarrow> None)"

fun num_of :: "jsval \<Rightarrow> rat option" where
  "num_of (JNum q) = Some q"
| "num_of _ = None"

definition parseNumberArray :: "jsval \<Rightarrow> int \<Rightarrow> int \<Rightarrow> int list option" where
  "parseNumberArray value lo hi =
     (case value of
        JArr xs \<Rightarrow>
          let parsed = filter (\<lambda>q. is_integer q \<and> q \<ge> of_int lo \<and> q \<le> of_int hi) (List.map_filter num_of xs)
          in if parsed = [] then None else Some (uniq (map floor parsed))
      | _ \<Rightarrow> None)"

definition toSundayFirstWeekdayIndex :: "rat \<Rightarrow> int option" where
  "toSundayFirstWeekdayIndex mondayFirstIndex =
     (if \<not> is_integer mondayFirstIndex \<or> mondayFirstIndex < 0 \<or> mondayFirstIndex > 6 then None
      else Some (if mondayFirstIndex = 6 then 0 else \<lfloor>mondayFirstIndex\<rfloor> + 1))"

definition weekday_code :: "string \<Rightarrow> int option" where
  "weekday_code entry = map_of WEEKDAY_CODE_TO_INDEX (to_upper (drop (length entry - 2) entry))"

text \<open>
  An object with no numeric \<open>weekday\<close> is printed by \<open>toString\<close>; the texts of a plain object
  (\<open>[object Object]\<close>), an empty array and a date end in no weekday code.
\<close>

fun parseWeekdayEntry :: "jsval \<Rightarrow> int option" where
  "parseWeekdayEntry (JNum q) = toSundayFirstWeekdayIndex q"
| "parseWeekdayEntry (JStr s) = weekday_code s"
| "parseWeekdayEntry (JArr (x # xs)) = parseWeekdayEntry x"
| "parseWeekdayEntry (JObj ps) =
     (case js_get (JObj ps) ''weekday'' of JNum q \<Rightarrow> toSundayFirstWeekdayIndex q | _ \<Rightarrow> None)"
| "parseWeekdayEntry _ = None"

definition parseByWeekDay :: "jsval \<Rightarrow> int list option" where
  "parseByWeekDay value =
     (let source = (case value of JArr xs \<Rightarrow> xs | JUndefined \<Rightarrow> [] | _ \<Rightarrow> [value]);
          parsed = List.map_filter parseWeekdayEntry source
      in if parsed = [] then None else Some (uniq parsed))"

fun has_keys :: "jsval \<Rightarrow> bool" where
  "has_keys (JObj ps) \<longleftrightarrow> ps \<noteq> []"
| "has_keys (JArr xs) \<longleftrightarrow> xs \<noteq> []"
| "has_keys _ \<longleftrightarrow> False"

definition parse_frequency :: "jsval \<Rightarrow> ics_frequency option" where
  "parse_frequency rawFrequency =
     (case rawFrequency of
        JNum q \<Rightarrow> map_of FREQUENCY_MAP q
      | JStr s \<Rightarrow> map_of FREQUENCY_STRING_MAP (to_upper s)
      | _ \<Rightarrow> None)"

text \<open>The rule of a known frequency, each part from \<open>source\<close> or else from \<open>options\<close>.\<close>

definition read_option :: "jsval \<Rightarrow> jsval \<Rightarrow> string \<Rightarrow> jsval" where
  "read_option source options key = coalesce (js_get source key) (js_get options key)"

definition recurrence_of :: "ics_env \<Rightarrow> jsval \<Rightarrow> jsval \<Rightarrow> ics_frequency \<Rightarrow> ics_recurrence_rule" where
  "recurrence_of env source options frequency =
     \<lparr>r_frequency = frequency,
      r_interval = (case parsePositiveInt (read_option source options ''interval'') of Some n \<Rightarrow> n | None \<Rightarrow> 1),
      r_count = parsePositiveInt (read_option source options ''count''),
      r_until = map_option toISOString (coerceDate env (read_option source options ''until'')),
      r_timezone = normalizeIcsTimezone
        (case js_get source ''tzid'' of JStr z \<Rightarrow> Some z | _ \<Rightarrow> str_of (js_get options ''tzid'')),
      r_byWeekDay = parseByWeekDay
        (coalesce (js_get source ''byweekday'') (coalesce (js_get source ''bynweekday'')
          (coalesce (js_get options ''byweekday'') (js_get options ''bynweekday'')))),
      r_byMonthDay = parseNumberArray (read_option source options ''bymonthday'') 1 31,
      r_byMonth = parseNumberArray (read_option source options ''bymonth'') 1 12\<rparr>"

definition parseRecurrenceRule :: "ics_env \<Rightarrow> jsval \<Rightarrow> ics_recurrence_rule option" where
  "parseRecurrenceRule env rrule =
     (if \<not> is_object rrule then None
      else let options = (if is_object (js_get rrule ''options'') then js_get rrule ''options'' else JUndefined);
               origOptions = js_get rrule ''origOptions'';
               source = (if is_object origOptions \<and> has_keys origOptions then origOptions else options)
           in if source = JUndefined then None
              else map_option (recurrence_of env source options)
                     (parse_frequency (read_option source options ''freq'')))"

section \<open>Events\<close>

definition isAllDayEvent :: "ics_event_like \<Rightarrow> bool" where
  "isAllDayEvent event \<longleftrightarrow>
     ie_datetype event = JStr ''date'' \<or> ed_dateOnly (ie_start event) = JBool True"

text \<open>Reading \<open>tz\<close> of an absent start or end throws; a blank \<open>tz\<close> is skipped.\<close>

definition date_tz :: "event_date \<Rightarrow> js_error + string option" where
  "date_tz d =
     (if nullish (ed_value d) then Inl NotAnObject
      else Inr (case ed_tz d of JStr z \<Rightarrow> if trim z \<noteq> [] then Some z else None | _ \<Rightarrow> None))"

definition getEventTimezone :: "ics_event_like \<Rightarrow> js_error + string option" where
  "getEventTimezone event =
     (case date_tz (ie_start event) of
        Inl e \<Rightarrow> Inl e
      | Inr (Some z) \<Rightarrow> Inr (normalizeIcsTimezone (Some z))
      | Inr None \<Rightarrow>
          (case date_tz (ie_end event) of
             Inl e \<Rightarrow> Inl e
           | Inr z \<Rightarrow> Inr (normalizeIcsTimezone z)))"

text \<open>The start and the end that are stored.\<close>

definition event_range ::
  "ics_env \<Rightarrow> ics_event_like \<Rightarrow> int \<Rightarrow> string \<Rightarrow> js_error + int option \<times> int option" where
  "event_range env event start allDayTimezone =
     (let allDay = isAllDayEvent event;
          endAt = (case coerceDate env (ed_value (ie_end event)) of
                     Some e \<Rightarrow> e
                   | None \<Rightarrow> start + (if allDay then DAY_IN_MS else HOUR_IN_MS))
      in if allDay then normalizeAllDayRange env start (Some endAt) allDayTimezone
         else Inr (Some start, Some endAt))"

definition parseVEvent ::
  "ics_env \<Rightarrow> ics_event_like \<Rightarrow> string \<Rightarrow> string option \<Rightarrow> js_error + parsed_ics_event option" where
  "parseVEvent env event userTimezone calendarTimezone =
     (case (getTextValue (ie_uid event), getTextValue (ie_summary event),
            coerceDate env (ed_value (ie_start event))) of
        (Some sourceUid, Some title, Some start) \<Rightarrow>
          let allDay = isAllDayEvent event; allDayTimezone = zone_or_utc (Some userTimezone) in
          (case getEventTimezone event of
             Inl e \<Rightarrow> Inl e
           | Inr eventTimezone \<Rightarrow>
               (case event_range env event start allDayTimezone of
                  Inl e \<Rightarrow> Inl e
                | Inr (s, f) \<Rightarrow>
                    let recurrenceId = map_option toISOString (coerceDate env (ie_recurrenceid event));
                        timezone =
                          (case eventTimezone of
                             Some z \<Rightarrow> Some z
                           | None \<Rightarrow>
                               if allDay then Some allDayTimezone
                               else (case calendarTimezone of
                                       Some c \<Rightarrow> if c = [] then Some userTimezone else normalizeIcsTimezone (Some c)
                                     | None \<Rightarrow> Some userTimezone));
                        recurrenceRule =
                          map_option (\<lambda>r. if r_timezone r \<in> {None, Some []} \<and> timezone \<noteq> None \<and> timezone \<noteq> Some []
                              then r\<lparr>r_timezone := timezone\<rparr> else r)
                            (parseRecurrenceRule env (ie_rrule event))
                    in Inr (Some
                      \<lparr>pe_uid = buildIcsExternalId sourceUid recurrenceId, pe_sourceUid = sourceUid,
                       pe_recurrenceId = recurrenceId, pe_title = title,
                       pe_description = getTextValue (ie_description event), pe_start = s, pe_end = f,
                       pe_allDay = allDay, pe_location = getTextValue (ie_location event),
                       pe_recurrence = recurrenceRule, pe_timezone = timezone,
                       pe_participants = collectParticipants event\<rparr>)))
      | _ \<Rightarrow> Inr None)"

definition collectEventCandidates :: "ics_event_like \<Rightarrow> ics_event_like option list \<Rightarrow> ics_event_like list" where
  "collectEventCandidates baseEvent recurrences = baseEvent # List.map_filter (\<lambda>r. r) recurrences"

section \<open>The file\<close>

text \<open>The handler of an event that throws: its report, or the error of reporting it.\<close>

definition event_error_message :: "ics_env \<Rightarrow> ics_event_like \<Rightarrow> js_error \<Rightarrow> js_error + string" where
  "event_error_message env candidate e =
     (let report = (\<lambda>uid. ''Failed to parse event '' @
            buildIcsExternalId uid (map_option toISOString (coerceDate env (ie_recurrenceid candidate))) @
            '': '' @ engineText env e)
      in if \<not> truthy (ie_uid candidate) then Inr (report ''unknown'')
         else case ie_uid candidate of JStr uid \<Rightarrow> Inr (report uid) | _ \<Rightarrow> Inl NotAFunction)"

type_synonym event_map = "(string \<times> parsed_ics_event) list"

text \<open>The loop over the candidates: the events by identifier and the errors so far; an exception
  that leaves the loop keeps the errors.\<close>

fun candidate_loop ::
  "ics_env \<Rightarrow> string \<Rightarrow> string option \<Rightarrow> ics_event_like list \<Rightarrow> event_map \<times> string list \<Rightarrow>
   (js_error \<times> string list) + event_map \<times> string list" where
  "candidate_loop env userTimezone calendarTimezone [] st = Inr st"
| "candidate_loop env userTimezone calendarTimezone (candidate # rest) (eventsById, errors) =
     (case parseVEvent env candidate userTimezone calendarTimezone of
        Inr None \<Rightarrow> candidate_loop env userTimezone calendarTimezone rest (eventsById, errors)
      | Inr (Some parsedEvent) \<Rightarrow>
          candidate_loop env userTimezone calendarTimezone rest
            (map_set (pe_uid parsedEvent) parsedEvent eventsById, errors)
      | Inl e \<Rightarrow>
          (case event_error_message env candidate e of
             Inr message \<Rightarrow>
               candidate_loop env userTimezone calendarTimezone rest (eventsById, errors @ [message])
           | Inl e' \<Rightarrow> Inl (e', errors)))"

fun event_candidates :: "ical_component list \<Rightarrow> ics_event_like list" where
  "event_candidates [] = []"
| "event_candidates (VEvent base recurrences # rest) =
     collectEventCandidates base recurrences @ event_candidates rest"
| "event_candidates (_ # rest) = event_candidates rest"

definition first_some :: "'a option \<Rightarrow> 'a option \<Rightarrow> 'a option" where
  "first_some a b = (case a of Some _ \<Rightarrow> a | None \<Rightarrow> b)"

fun read_metadata :: "ical_component list \<Rightarrow> ics_parse_result \<Rightarrow> ics_parse_result" where
  "read_metadata [] result = result"
| "read_metadata (VCalendar metadata # rest) result =
     read_metadata rest
       (result\<lparr>pr_calendarName :=
                 first_some (pr_calendarName result) (getFirstStringValue metadata CALENDAR_NAME_KEYS),
               pr_calendarDescription :=
                 first_some (pr_calendarDescription result) (getFirstStringValue metadata CALENDAR_DESCRIPTION_KEYS),
               pr_calendarTimezone :=
                 first_some (pr_calendarTimezone result)
                   (normalizeIcsTimezone (getFirstStringValue metadata CALENDAR_TIMEZONE_KEYS))\<rparr>)"
| "read_metadata (_ # rest) result = read_metadata rest result"

definition file_error :: "string \<Rightarrow> string" where
  "file_error message = ''Failed to parse ICS file: '' @ message"

definition parseICSFile :: "ics_env \<Rightarrow> string \<Rightarrow> string \<Rightarrow> ics_parse_result" where
  "parseICSFile env icsContent userTimezone =
     (let result = \<lparr>pr_events = [], pr_errors = [], pr_method = parseCalendarMethod icsContent,
                    pr_calendarName = None, pr_calendarDescription = None, pr_calendarTimezone = None\<rparr>
      in case parseICS env icsContent of
           Inl message \<Rightarrow> result\<lparr>pr_errors := [file_error message]\<rparr>
         | Inr parsed \<Rightarrow>
             let result = read_metadata parsed result in
             (case candidate_loop env userTimezone (pr_calendarTimezone result) (event_candidates parsed) ([], []) of
                Inl (e, errors) \<Rightarrow> result\<lparr>pr_errors := errors @ [file_error (engineText env e)]\<rparr>
              | Inr (eventsById, errors) \<Rightarrow>
                  result\<lparr>pr_events := map snd eventsById, pr_errors := errors\<rparr>))"

section \<open>Participants\<close>

definition good_participant :: "ics_participant \<Rightarrow> bool" where
  "good_participant p \<longleftrightarrow> pt_email p \<noteq> [] \<and> (is_organizer p \<longrightarrow> pt_status p = Some Accepted)"

lemma parseParticipantValue_good: "parseParticipantValue v r = Some p \<Longrightarrow> good_participant p"
  by (auto simp: parseParticipantValue_def good_participant_def is_organizer_def Let_def split: if_splits)

lemma merge_good:
  "good_participant p \<Longrightarrow> good_participant (merge_participants q p)"
  "is_organizer (merge_participants q p) \<longleftrightarrow> is_organizer q \<or> is_organizer p"
  "pt_email (merge_participants q p) = pt_email p"
  by (auto simp: merge_participants_def good_participant_def is_organizer_def Let_def)

text \<open>The map after the participants of \<open>Q\<close> were added.\<close>

definition participants_inv :: "ics_participant set \<Rightarrow> (string \<times> ics_participant) list \<Rightarrow> bool" where
  "participants_inv Q m \<longleftrightarrow>
     distinct (map fst m) \<and> fst ` set m = pt_email ` Q \<and>
     (\<forall>(k, p) \<in> set m. pt_email p = k \<and> good_participant p \<and>
        (is_organizer p \<longleftrightarrow> (\<exists>q \<in> Q. pt_email q = k \<and> is_organizer q)))"

lemma participants_invI:
  assumes "distinct (map fst m)" "fst ` set m = pt_email ` Q"
    and "\<And>k p. (k, p) \<in> set m \<Longrightarrow> pt_email p = k \<and> good_participant p \<and>
      (is_organizer p \<longleftrightarrow> (\<exists>q \<in> Q. pt_email q = k \<and> is_organizer q))"
  shows "participants_inv Q m"
  using assms by (auto simp: participants_inv_def)

lemma participants_invD:
  assumes "participants_inv Q m"
  shows "distinct (map fst m)" "fst ` set m = pt_email ` Q"
    "(k, p) \<in> set m \<Longrightarrow> pt_email p = k \<and> good_participant p \<and>
      (is_organizer p \<longleftrightarrow> (\<exists>q \<in> Q. pt_email q = k \<and> is_organizer q))"
  using assms by (auto simp: participants_inv_def)

lemma participants_inv_add:
  assumes inv: "participants_inv Q m" and good: "good_participant q"
  shows "participants_inv (insert q Q) (addParticipant (Some q) m)"
proof -
  note D = participants_invD [OF inv]
  define v where "v = (case map_of m (pt_email q) of None \<Rightarrow> q | Some p \<Rightarrow> merge_participants p q)"
  have add: "addParticipant (Some q) m = map_set (pt_email q) v m"
    by (simp add: addParticipant_def v_def split: option.splits)
  have v: "pt_email v = pt_email q" "good_participant v"
    using good by (simp_all add: v_def merge_good split: option.splits)
  have org: "is_organizer v \<longleftrightarrow> (\<exists>r \<in> insert q Q. pt_email r = pt_email q \<and> is_organizer r)"
  proof (cases "map_of m (pt_email q)")
    case None
    then have "pt_email q \<notin> pt_email ` Q" using D(2) by (metis map_of_eq_None_iff)
    then have "\<forall>r \<in> Q. pt_email r \<noteq> pt_email q" by (metis imageI)
    with None show ?thesis by (auto simp: v_def)
  next
    case (Some p)
    with D(3) [of "pt_email q" p] show ?thesis by (auto simp: v_def merge_good map_of_SomeD)
  qed
  show ?thesis
  proof (rule participants_invI)
    fix k p
    assume "(k, p) \<in> set (addParticipant (Some q) m)"
    then have "k = pt_email q \<and> p = v \<or> k \<noteq> pt_email q \<and> (k, p) \<in> set m"
      by (auto simp: add set_map_set D(1))
    then show "pt_email p = k \<and> good_participant p \<and>
        (is_organizer p \<longleftrightarrow> (\<exists>r \<in> insert q Q. pt_email r = k \<and> is_organizer r))"
      using v org D(3) [of k p] by auto
  qed (use D(1,2) in \<open>simp_all add: add set_keys_map_set distinct_map_set\<close>)
qed

lemma participants_inv_fold:
  assumes "participants_inv Q m"
  shows "participants_inv (Q \<union> {q. \<exists>v \<in> set vs. parseParticipantValue v r = Some q})
    (fold (\<lambda>v. addParticipant (parseParticipantValue v r)) vs m)"
  using assms
proof (induction vs arbitrary: Q m)
  case (Cons v vs)
  show ?case
  proof (cases "parseParticipantValue v r")
    case None
    with Cons show ?thesis by (simp add: addParticipant_def)
  next
    case (Some q)
    then have "participants_inv (insert q Q) (addParticipant (parseParticipantValue v r) m)"
      using Cons.prems parseParticipantValue_good participants_inv_add by simp
    note added = Cons.IH [OF this]
    have "Q \<union> {q. \<exists>w \<in> set (v # vs). parseParticipantValue w r = Some q} =
        insert q Q \<union> {q. \<exists>w \<in> set vs. parseParticipantValue w r = Some q}"
      using Some by auto
    with added show ?thesis by (simp only: fold_simps comp_apply)
  qed
qed simp

text \<open>The participants a file names for an event.\<close>

definition named_participants :: "ics_event_like \<Rightarrow> ics_participant set" where
  "named_participants event =
     {q. parseParticipantValue (ie_organizer event) Organizer = Some q \<or>
         (\<exists>v \<in> set (attendee_entries (ie_attendee event)). parseParticipantValue v Attendee = Some q)}"

lemma collected_inv:
  assumes "collectParticipants event = Some ps"
  obtains m where "participants_inv (named_participants event) m" "ps = map snd m"
proof -
  define m0 where "m0 = addParticipant (parseParticipantValue (ie_organizer event) Organizer) []"
  define Q0 where "Q0 = {q. parseParticipantValue (ie_organizer event) Organizer = Some q}"
  have empty: "participants_inv {} []" by (simp add: participants_inv_def)
  have "participants_inv Q0 m0"
  proof (cases "parseParticipantValue (ie_organizer event) Organizer")
    case None
    with empty show ?thesis by (simp add: Q0_def m0_def addParticipant_def)
  next
    case (Some q)
    then have "Q0 = {q}" by (auto simp: Q0_def)
    with Some participants_inv_add [OF empty parseParticipantValue_good] show ?thesis by (simp add: m0_def)
  qed
  from participants_inv_fold [OF this, of "attendee_entries (ie_attendee event)" Attendee]
  have "participants_inv (named_participants event)
      (fold (\<lambda>v. addParticipant (parseParticipantValue v Attendee)) (attendee_entries (ie_attendee event)) m0)"
    by (simp add: Q0_def named_participants_def Un_def)
  moreover have "ps = map snd (fold (\<lambda>v. addParticipant (parseParticipantValue v Attendee))
      (attendee_entries (ie_attendee event)) m0)"
    using assms by (simp add: collectParticipants_def m0_def Let_def split: if_splits)
  ultimately show thesis by (rule that)
qed

text \<open>An imported event lists every participant the file names once, by e-mail address: a person
  named as organizer anywhere is the organizer, and an organizer has accepted.\<close>

lemma participants_by_email:
  assumes "collectParticipants event = Some ps"
  shows "distinct (map pt_email ps) \<and> pt_email ` set ps = pt_email ` named_participants event \<and>
    (\<forall>p \<in> set ps. pt_email p \<noteq> [] \<and>
       (pt_role p = Some Organizer \<longleftrightarrow>
         (\<exists>q \<in> named_participants event. pt_email q = pt_email p \<and> pt_role q = Some Organizer)) \<and>
       (pt_role p = Some Organizer \<longrightarrow> pt_status p = Some Accepted))"
proof -
  from assms obtain m where inv: "participants_inv (named_participants event) m" and ps: "ps = map snd m"
    by (rule collected_inv)
  note D = participants_invD [OF inv]
  have "map pt_email ps = map fst m" using D(3) by (auto simp: ps)
  moreover from this have "pt_email ` set ps = fst ` set m" by (metis set_map)
  moreover have "pt_email p \<noteq> [] \<and>
      (pt_role p = Some Organizer \<longleftrightarrow>
        (\<exists>q \<in> named_participants event. pt_email q = pt_email p \<and> pt_role q = Some Organizer)) \<and>
      (pt_role p = Some Organizer \<longrightarrow> pt_status p = Some Accepted)" if "p \<in> set ps" for p
  proof -
    from that obtain k where "(k, p) \<in> set m" by (auto simp: ps)
    from D(3) [OF this] show ?thesis unfolding good_participant_def is_organizer_def by blast
  qed
  ultimately show ?thesis using D(1,2) by (simp only:) blast
qed

definition no_date :: event_date where
  "no_date = \<lparr>ed_value = JUndefined, ed_dateOnly = JUndefined, ed_tz = JUndefined\<rparr>"

definition sample_event_like :: ics_event_like where
  "sample_event_like =
     \<lparr>ie_uid = JStr ''a'', ie_summary = JStr ''Lunch'', ie_description = JUndefined, ie_location = JUndefined,
      ie_start = \<lparr>ed_value = JDate (Some 3600000), ed_dateOnly = JUndefined, ed_tz = JUndefined\<rparr>,
      ie_end = no_date, ie_datetype = JStr ''date-time'', ie_rrule = JUndefined, ie_recurrenceid = JUndefined,
      ie_organizer = JStr ''MAILTO:B@x.y'',
      ie_attendee = JArr [JObj [(''val'', JStr ''mailto:b@x.y''), (''params'', JObj [(''PARTSTAT'', JStr ''DECLINED'')])],
                          JStr ''mailto:c@x.y'']\<rparr>"

lemma participants_by_email_witness:
  "distinct [''b@x.y'', ''c@x.y''] \<and>
   collectParticipants sample_event_like =
     Some [\<lparr>pt_email = ''b@x.y'', pt_displayName = None, pt_role = Some Organizer, pt_status = Some Accepted\<rparr>,
           \<lparr>pt_email = ''c@x.y'', pt_displayName = None, pt_role = Some Attendee, pt_status = Some Pending\<rparr>]"
proof -
  have c: "collectParticipants sample_event_like =
     Some [\<lparr>pt_email = ''b@x.y'', pt_displayName = None, pt_role = Some Organizer, pt_status = Some Accepted\<rparr>,
           \<lparr>pt_email = ''c@x.y'', pt_displayName = None, pt_role = Some Attendee, pt_status = Some Pending\<rparr>]"
    by code_simp
  from participants_by_email [OF this] show ?thesis by (simp only: c list.map ics_participant.simps)
qed

section \<open>Events\<close>

lemma parseVEvent_Some:
  assumes "parseVEvent env event userTimezone calendarTimezone = Inr (Some e)"
  obtains u t s where "getTextValue (ie_uid event) = Some u" "getTextValue (ie_summary event) = Some t"
    "coerceDate env (ed_value (ie_start event)) = Some s" "pe_title e = t" "pe_sourceUid e = u"
    "pe_uid e = buildIcsExternalId u (map_option toISOString (coerceDate env (ie_recurrenceid event)))"
  using assms by (auto simp: parseVEvent_def Let_def split: option.splits sum.splits prod.splits)

text \<open>The events of the candidates that parse, in order, and the reports of those that throw.\<close>

definition parsed_events ::
  "ics_env \<Rightarrow> string \<Rightarrow> string option \<Rightarrow> ics_event_like list \<Rightarrow> parsed_ics_event list" where
  "parsed_events env userTimezone calendarTimezone candidates =
     List.map_filter (\<lambda>c. case parseVEvent env c userTimezone calendarTimezone of Inr e \<Rightarrow> e | Inl _ \<Rightarrow> None)
       candidates"

definition reported_errors ::
  "ics_env \<Rightarrow> string \<Rightarrow> string option \<Rightarrow> ics_event_like list \<Rightarrow> string list" where
  "reported_errors env userTimezone calendarTimezone candidates =
     List.map_filter (\<lambda>c. case parseVEvent env c userTimezone calendarTimezone of
         Inr _ \<Rightarrow> None
       | Inl e \<Rightarrow> (case event_error_message env c e of Inr m \<Rightarrow> Some m | Inl _ \<Rightarrow> None))
       candidates"

text \<open>An identifier the error report can print: absent, empty or a text.\<close>

definition reportable :: "jsval \<Rightarrow> bool" where
  "reportable uid \<longleftrightarrow> \<not> truthy uid \<or> str_of uid \<noteq> None"

lemma reportable_message:
  "reportable (ie_uid c) \<Longrightarrow> \<exists>m. event_error_message env c e = Inr m"
  by (cases "ie_uid c") (auto simp: reportable_def event_error_message_def Let_def)

lemma candidate_loop_total:
  assumes "list_all (\<lambda>c. reportable (ie_uid c)) cs"
  shows "candidate_loop env tz ctz cs (m, errs) =
    Inr (fold (\<lambda>e. map_set (pe_uid e) e) (parsed_events env tz ctz cs) m,
         errs @ reported_errors env tz ctz cs)"
  using assms
proof (induction cs arbitrary: m errs)
  case Nil
  then show ?case by (simp add: parsed_events_def reported_errors_def map_filter_simps)
next
  case (Cons c cs)
  then obtain msg where "parseVEvent env c tz ctz = Inl e \<Longrightarrow> event_error_message env c e = Inr (msg e)" for e
    using reportable_message [of c env] by (metis list.pred_inject(2))
  with Cons show ?case
    by (auto simp: parsed_events_def reported_errors_def map_filter_simps split: sum.splits option.splits)
qed

lemma read_metadata_keeps [simp]:
  "pr_events (read_metadata parsed r) = pr_events r" "pr_errors (read_metadata parsed r) = pr_errors r"
  "pr_method (read_metadata parsed r) = pr_method r"
  by (induction parsed r rule: read_metadata.induct) auto

text \<open>The zone the file's calendars name.\<close>

definition file_timezone :: "ical_component list \<Rightarrow> string option" where
  "file_timezone parsed =
     pr_calendarTimezone (read_metadata parsed
       \<lparr>pr_events = [], pr_errors = [], pr_method = [], pr_calendarName = None,
        pr_calendarDescription = None, pr_calendarTimezone = None\<rparr>)"

lemma read_metadata_timezone:
  "pr_calendarTimezone r = pr_calendarTimezone r' \<Longrightarrow>
   pr_calendarTimezone (read_metadata parsed r) = pr_calendarTimezone (read_metadata parsed r')"
proof (induction parsed arbitrary: r r')
  case (Cons c parsed)
  show ?case
    by (cases c; simp only: read_metadata.simps; rule Cons.IH; simp add: Cons.prems)
qed simp

text \<open>C15: Importing a file whose events all have a plain text as their identifier, or none, keeps for
  each identifier the last event that parses, in the place where the identifier first appeared,
  and reports every event that throws: no such event fails the others. An identifier with
  parameters is not a plain text for the parser, and the condition is needed: if an event with
  such an identifier throws, its report throws too and the import loses every event
  (\<open>structured_uid_discards_all\<close>).\<close>

theorem import_keeps_last_event:
  assumes "parseICS env icsContent = Inr parsed"
    and "list_all (\<lambda>c. reportable (ie_uid c)) (event_candidates parsed)"
  shows "pr_events (parseICSFile env icsContent userTimezone) =
      last_by pe_uid (parsed_events env userTimezone (file_timezone parsed) (event_candidates parsed)) \<and>
    pr_errors (parseICSFile env icsContent userTimezone) =
      reported_errors env userTimezone (file_timezone parsed) (event_candidates parsed)"
proof -
  define r0 where "r0 = \<lparr>pr_events = [], pr_errors = [], pr_method = parseCalendarMethod icsContent,
    pr_calendarName = None, pr_calendarDescription = None, pr_calendarTimezone = None\<rparr>"
  have tz: "pr_calendarTimezone (read_metadata parsed r0) = file_timezone parsed"
    unfolding file_timezone_def by (rule read_metadata_timezone) (simp add: r0_def)
  show ?thesis
    by (simp add: parseICSFile_def assms(1) Let_def r0_def [symmetric] tz candidate_loop_total [OF assms(2)]
        last_by_fold)
qed

definition sample_second_event :: ics_event_like where
  "sample_second_event =
     sample_event_like\<lparr>ie_end := \<lparr>ed_value = JDate (Some 7200000), ed_dateOnly = JUndefined, ed_tz = JStr ''Asia/Tokyo''\<rparr>\<rparr>"

definition sample_components :: "ical_component list" where
  "sample_components =
     [VCalendar (JObj [(''WR-TIMEZONE'', JStr ''Europe/Paris'')]), VEvent sample_event_like [None],
      VEvent sample_second_event []]"

definition sample_env :: ics_env where
  "sample_env =
     \<lparr>parseICS = (\<lambda>s. if s = [] then Inl ''empty'' else Inr sample_components),
      toDate = (\<lambda>_. None), fmt = (\<lambda>z t. Some (clock_fmt (\<lambda>_. 0) z t)), hostClock = (\<lambda>t. t),
      engineText = (\<lambda>_. ''cannot read tz'')\<rparr>"

lemma sample_import:
  "parseICS sample_env ''x'' = Inr sample_components"
  "event_candidates sample_components = [sample_event_like, sample_second_event]"
  "file_timezone sample_components = Some ''Europe/Paris''"
  "parseVEvent sample_env sample_event_like ''UTC'' (Some ''Europe/Paris'') = Inl NotAnObject"
  by (simp add: sample_env_def)
    (simp add: sample_components_def collectEventCandidates_def map_filter_simps, code_simp, code_simp)

lemma sample_second_parsed:
  obtains e where "parseVEvent sample_env sample_second_event ''UTC'' (Some ''Europe/Paris'') = Inr (Some e)"
    "pe_uid e = ''a''"
proof -
  have "(case parseVEvent sample_env sample_second_event ''UTC'' (Some ''Europe/Paris'') of
      Inr (Some e) \<Rightarrow> pe_uid e = ''a'' | _ \<Rightarrow> False)"
    by code_simp
  with that show thesis by (auto split: sum.splits option.splits)
qed

theorem import_keeps_last_event_witness:
  "map pe_uid (pr_events (parseICSFile sample_env ''x'' ''UTC'')) = [''a''] \<and>
   length (pr_errors (parseICSFile sample_env ''x'' ''UTC'')) = 1"
proof -
  obtain e where e: "parseVEvent sample_env sample_second_event ''UTC'' (Some ''Europe/Paris'') = Inr (Some e)"
    "pe_uid e = ''a''" by (rule sample_second_parsed)
  have uids: "ie_uid sample_event_like = JStr ''a''" "ie_uid sample_second_event = JStr ''a''"
    by (simp_all add: sample_event_like_def sample_second_event_def)
  then have "list_all (\<lambda>c. reportable (ie_uid c)) (event_candidates sample_components)"
    by (simp add: sample_import reportable_def)
  note kept = import_keeps_last_event [OF sample_import(1) this, of "''UTC''"]
  have "parsed_events sample_env ''UTC'' (Some ''Europe/Paris'') [sample_event_like, sample_second_event] = [e]"
    by (simp add: parsed_events_def map_filter_simps sample_import e)
  moreover have "last_by pe_uid [e] = [e]" by (simp add: last_by_def uniq_def)
  moreover have "length (reported_errors sample_env ''UTC'' (Some ''Europe/Paris'')
      [sample_event_like, sample_second_event]) = 1"
    by (simp add: reported_errors_def map_filter_simps sample_import e event_error_message_def uids)
  ultimately show ?thesis by (simp add: kept sample_import e)
qed

text \<open>An event without end whose start carries no zone is rejected: reading the zone of the
  absent end throws before the code that would give it a length of an hour or a day is reached.\<close>

lemma missing_end_rejected:
  assumes "nullish (ed_value (ie_end event))" "\<And>z. ed_tz (ie_start event) = JStr z \<Longrightarrow> trim z = []"
    and "getTextValue (ie_uid event) \<noteq> None" "getTextValue (ie_summary event) \<noteq> None"
      "coerceDate env (ed_value (ie_start event)) \<noteq> None"
  shows "parseVEvent env event userTimezone calendarTimezone = Inl NotAnObject"
proof -
  have "\<not> nullish (ed_value (ie_start event))"
    using assms(5) by (cases "ed_value (ie_start event)") (auto simp: coerceDate_def)
  then have "date_tz (ie_start event) = Inr None"
    using assms(2) by (auto simp: date_tz_def split: jsval.splits)
  moreover have "date_tz (ie_end event) = Inl NotAnObject" using assms(1) by (simp add: date_tz_def)
  ultimately have "getEventTimezone event = Inl NotAnObject" by (simp add: getEventTimezone_def)
  with assms(3-5) show ?thesis by (auto simp: parseVEvent_def)
qed

lemma missing_end_rejected_witness:
  "parseVEvent sample_env sample_event_like ''UTC'' None = Inl NotAnObject"
  by (rule missing_end_rejected)
    (simp_all add: sample_event_like_def no_date_def getTextValue_def text_or_none_def trim_def is_ws_def coerceDate_def)

text \<open>An event that throws and whose identifier \<open>node-ical\<close> gives as a value with parameters
  makes the report itself throw: the import returns no event at all, the good ones included.\<close>

lemma structured_uid_discards_all:
  assumes "parseICS env icsContent = Inr parsed"
    and "event_candidates parsed = before @ c # after"
    and "list_all (\<lambda>c. reportable (ie_uid c)) before"
    and "parseVEvent env c userTimezone (file_timezone parsed) = Inl e" "\<not> reportable (ie_uid c)"
  shows "pr_events (parseICSFile env icsContent userTimezone) = []"
proof -
  define r0 where "r0 = \<lparr>pr_events = [], pr_errors = [], pr_method = parseCalendarMethod icsContent,
    pr_calendarName = None, pr_calendarDescription = None, pr_calendarTimezone = None\<rparr>"
  have tz: "pr_calendarTimezone (read_metadata parsed r0) = file_timezone parsed"
    unfolding file_timezone_def by (rule read_metadata_timezone) (simp add: r0_def)
  have "event_error_message env c e = Inl NotAFunction"
    using assms(5) by (auto simp: reportable_def event_error_message_def Let_def split: jsval.splits)
  then have stop: "\<exists>errs. candidate_loop env userTimezone (file_timezone parsed) (c # after) st = Inl (NotAFunction, errs)" for st
    using assms(4) by (cases st) simp
  have "\<exists>errs. candidate_loop env userTimezone (file_timezone parsed) (before @ c # after) (m, es) = Inl (NotAFunction, errs)" for m es
    using assms(3)
  proof (induction before arbitrary: m es)
    case Nil
    from stop show ?case by (simp only: append_Nil)
  next
    case (Cons b bs)
    then obtain msg where "event_error_message env b x = Inr (msg x)" for x
      using reportable_message [of b env] by (metis list.pred_inject(2))
    with Cons show ?case by (auto split: sum.splits option.splits)
  qed
  then obtain errs where "candidate_loop env userTimezone (file_timezone parsed) (event_candidates parsed) ([], []) =
      Inl (NotAFunction, errs)"
    unfolding assms(2) by blast
  then show ?thesis by (simp add: parseICSFile_def assms(1) Let_def r0_def [symmetric] tz) (simp add: r0_def)
qed

lemma structured_uid_discards_all_witness:
  "pr_events (parseICSFile (sample_env\<lparr>parseICS := \<lambda>_. Inr [VEvent sample_second_event [],
     VEvent (sample_event_like\<lparr>ie_uid := JObj [(''val'', JStr ''b'')]\<rparr>) []]\<rparr>) ''x'' ''UTC'') = []"
proof (rule structured_uid_discards_all [where after = "[]" and before = "[sample_second_event]" and e = NotAnObject])
  let ?c = "sample_event_like\<lparr>ie_uid := JObj [(''val'', JStr ''b'')]\<rparr>"
  let ?p = "[VEvent sample_second_event [], VEvent ?c []]"
  show "parseICS (sample_env\<lparr>parseICS := \<lambda>_. Inr ?p\<rparr>) ''x'' = Inr ?p" by simp
  show "event_candidates ?p = [sample_second_event] @ ?c # []"
    by (simp add: collectEventCandidates_def map_filter_simps)
  show "list_all (\<lambda>c. reportable (ie_uid c)) [sample_second_event]" "\<not> reportable (ie_uid ?c)"
    by (simp_all add: reportable_def sample_second_event_def sample_event_like_def)
  show "parseVEvent (sample_env\<lparr>parseICS := \<lambda>_. Inr ?p\<rparr>) ?c ''UTC'' (file_timezone ?p) = Inl NotAnObject"
    by code_simp
qed

section \<open>Recurrence rules\<close>

definition entries_between :: "int \<Rightarrow> int \<Rightarrow> int list option \<Rightarrow> bool" where
  "entries_between lo hi v \<longleftrightarrow>
     (case v of None \<Rightarrow> True | Some ds \<Rightarrow> ds \<noteq> [] \<and> distinct ds \<and> list_all (\<lambda>d. lo \<le> d \<and> d \<le> hi) ds)"

text \<open>A rule in normal form.\<close>

definition rule_lists_ok :: "ics_recurrence_rule \<Rightarrow> bool" where
  "rule_lists_ok r \<longleftrightarrow>
     entries_between 0 6 (r_byWeekDay r) \<and> entries_between 1 31 (r_byMonthDay r) \<and> entries_between 1 12 (r_byMonth r)"

lemma parseNumberArray_entries: "entries_between lo hi (parseNumberArray v lo hi)"
  by (cases v)
    (auto simp: parseNumberArray_def entries_between_def Let_def list_all_iff le_floor_iff floor_le_iff
      intro: order.strict_trans1)

lemma sunday_first_range: "toSundayFirstWeekdayIndex q = Some d \<Longrightarrow> 0 \<le> d \<and> d \<le> 6"
proof -
  assume q: "toSundayFirstWeekdayIndex q = Some d"
  then obtain i where "q = of_int i" by (metis is_integer_def option.distinct(1) toSundayFirstWeekdayIndex_def)
  with q show ?thesis by (auto simp: toSundayFirstWeekdayIndex_def split: if_splits)
qed

lemma weekday_code_range: "weekday_code s = Some d \<Longrightarrow> 0 \<le> d \<and> d \<le> 6"
  unfolding weekday_code_def WEEKDAY_CODE_TO_INDEX_def by (drule map_of_SomeD) auto

lemma parseWeekdayEntry_range: "parseWeekdayEntry v = Some d \<Longrightarrow> 0 \<le> d \<and> d \<le> 6"
  by (induction v rule: parseWeekdayEntry.induct)
    (auto dest: sunday_first_range weekday_code_range split: jsval.splits)

lemma parseByWeekDay_entries: "entries_between 0 6 (parseByWeekDay v)"
  by (auto simp: parseByWeekDay_def entries_between_def Let_def list_all_iff set_map_filter
      dest: parseWeekdayEntry_range)

lemma parsePositiveInt_range:
  "parsePositiveInt v = Some n \<Longrightarrow> 0 < n \<or> n = 0 \<and> (\<exists>q. v = JNum q \<and> 0 < q \<and> q < 1)"
  by (cases v) (auto simp: parsePositiveInt_def floor_eq_iff not_less split: if_splits option.splits)

text \<open>What the library's \<open>rrule\<close> holds for a rule: the stated options, weekdays counted from Monday.\<close>

fun freq_number :: "ics_frequency \<Rightarrow> rat" where
  "freq_number FYearly = 0"
| "freq_number FMonthly = 1"
| "freq_number FWeekly = 2"
| "freq_number FDaily = 3"

definition opt_entry :: "string \<Rightarrow> ('a \<Rightarrow> jsval) \<Rightarrow> 'a option \<Rightarrow> (string \<times> jsval) list" where
  "opt_entry key enc v = (case v of None \<Rightarrow> [] | Some x \<Rightarrow> [(key, enc x)])"

definition rule_options :: "ics_recurrence_rule \<Rightarrow> int option \<Rightarrow> jsval" where
  "rule_options r until =
     JObj ([(''freq'', JNum (freq_number (r_frequency r))), (''interval'', JNum (of_int (r_interval r)))] @
       opt_entry ''count'' (\<lambda>n. JNum (of_int n)) (r_count r) @
       opt_entry ''until'' (\<lambda>t. JDate (Some t)) until @
       opt_entry ''tzid'' JStr (r_timezone r) @
       opt_entry ''byweekday''
         (\<lambda>ds. JArr (map (\<lambda>d. JObj [(''weekday'', JNum (of_int ((d + 6) mod 7)))]) ds)) (r_byWeekDay r) @
       opt_entry ''bymonthday'' (\<lambda>ds. JArr (map (\<lambda>d. JNum (of_int d)) ds)) (r_byMonthDay r) @
       opt_entry ''bymonth'' (\<lambda>ds. JArr (map (\<lambda>d. JNum (of_int d)) ds)) (r_byMonth r))"

lemma map_of_opt_entry:
  "k' \<noteq> k \<Longrightarrow> map_of (opt_entry k enc v @ m) k' = map_of m k'"
  "k' \<noteq> k \<Longrightarrow> map_of (opt_entry k enc v) k' = None"
  "map_of (opt_entry k enc v) k = map_option enc v"
  "map_of m k = None \<Longrightarrow> map_of (opt_entry k enc v @ m) k = map_option enc v"
  by (simp_all add: opt_entry_def split: option.splits)

lemma parseNumberArray_ints:
  assumes "entries_between lo hi (Some ds)"
  shows "parseNumberArray (JArr (map (\<lambda>d. JNum (of_int d)) ds)) lo hi = Some ds"
proof -
  have "List.map_filter num_of (map (\<lambda>d. JNum (of_int d)) ds) = map of_int ds"
    by (induction ds) (simp_all add: map_filter_simps)
  moreover have "filter (\<lambda>q. is_integer q \<and> q \<ge> of_int lo \<and> q \<le> of_int hi) (map rat_of_int ds) = map of_int ds"
    using assms by (auto simp: entries_between_def list_all_iff is_integer_def intro!: filter_True)
  ultimately show ?thesis
    using assms by (simp add: parseNumberArray_def entries_between_def uniq_distinct comp_def)
qed

lemma sunday_first_of_monday_first:
  assumes "0 \<le> d" "d \<le> 6"
  shows "toSundayFirstWeekdayIndex (of_int ((d + 6) mod 7)) = Some d"
proof (cases "d = 0")
  case True
  then show ?thesis by (simp add: toSundayFirstWeekdayIndex_def is_integer_def)
next
  case False
  with assms have "(d + 6) mod 7 = d - 1"
    using mod_add_self2 [of "d - 1" 7] by (simp add: algebra_simps mod_pos_pos_trivial)
  with False assms show ?thesis by (simp add: toSundayFirstWeekdayIndex_def is_integer_def)
qed

lemma parseByWeekDay_objects:
  assumes "entries_between 0 6 (Some ds)"
  shows "parseByWeekDay (JArr (map (\<lambda>d. JObj [(''weekday'', JNum (of_int ((d + 6) mod 7)))]) ds)) = Some ds"
proof -
  have "list_all (\<lambda>d. 0 \<le> d \<and> d \<le> 6) ds" using assms by (simp add: entries_between_def)
  then have "List.map_filter parseWeekdayEntry (map (\<lambda>d. JObj [(''weekday'', JNum (of_int ((d + 6) mod 7)))]) ds) = ds"
    by (induction ds) (simp_all add: map_filter_simps sunday_first_of_monday_first)
  with assms show ?thesis by (simp add: parseByWeekDay_def entries_between_def uniq_distinct)
qed

text \<open>Whatever the library hands over, an imported rule is in normal form: its interval and count
  are not negative, and its weekdays, month days and months are in range, without repetition, and
  absent rather than empty.\<close>

lemma parsed_rule_in_range:
  assumes "parseRecurrenceRule env v = Some r"
  shows "0 \<le> r_interval r \<and> (\<forall>n. r_count r = Some n \<longrightarrow> 0 \<le> n) \<and> rule_lists_ok r"
proof -
  from assms obtain source options f where "r = recurrence_of env source options f"
    by (auto simp: parseRecurrenceRule_def Let_def split: if_splits)
  then show ?thesis
    using parsePositiveInt_range [of "read_option source options ''interval''"]
      parsePositiveInt_range [of "read_option source options ''count''"]
    by (auto simp: recurrence_of_def rule_lists_ok_def parseByWeekDay_entries parseNumberArray_entries
        split: option.splits)
qed

lemma freq_number_back: "parse_frequency (JNum (freq_number f)) = Some f"
  by (cases f) (simp_all add: parse_frequency_def FREQUENCY_MAP_def)

lemma rule_options_get:
  "js_get (rule_options r u) ''freq'' = JNum (freq_number (r_frequency r))"
  "js_get (rule_options r u) ''interval'' = JNum (of_int (r_interval r))"
  "js_get (rule_options r u) ''count'' = (case r_count r of None \<Rightarrow> JUndefined | Some n \<Rightarrow> JNum (of_int n))"
  "js_get (rule_options r u) ''until'' = (case u of None \<Rightarrow> JUndefined | Some t \<Rightarrow> JDate (Some t))"
  "js_get (rule_options r u) ''tzid'' = (case r_timezone r of None \<Rightarrow> JUndefined | Some z \<Rightarrow> JStr z)"
  "js_get (rule_options r u) ''byweekday'' = (case r_byWeekDay r of None \<Rightarrow> JUndefined
     | Some ds \<Rightarrow> JArr (map (\<lambda>d. JObj [(''weekday'', JNum (of_int ((d + 6) mod 7)))]) ds))"
  "js_get (rule_options r u) ''bynweekday'' = JUndefined"
  "js_get (rule_options r u) ''bymonthday'' =
     (case r_byMonthDay r of None \<Rightarrow> JUndefined | Some ds \<Rightarrow> JArr (map (\<lambda>d. JNum (of_int d)) ds))"
  "js_get (rule_options r u) ''bymonth'' =
     (case r_byMonth r of None \<Rightarrow> JUndefined | Some ds \<Rightarrow> JArr (map (\<lambda>d. JNum (of_int d)) ds))"
  by (simp_all add: rule_options_def map_of_opt_entry del: map_of_append split: option.split)

lemma coalesce_undefined: "v \<noteq> JNull \<Longrightarrow> coalesce v JUndefined = v"
  by (cases v) (simp_all add: coalesce_def)

lemma rule_options_no_null: "js_get (rule_options r u) k \<noteq> JNull"
proof -
  obtain ps where ps: "rule_options r u = JObj ps" by (simp add: rule_options_def)
  then have "(k, JNull) \<notin> set ps"
    by (auto simp: rule_options_def opt_entry_def split: option.splits)
  then show ?thesis by (auto simp: ps dest: map_of_SomeD split: option.splits)
qed

lemma rule_options_read:
  "read_option (rule_options r u) JUndefined k = js_get (rule_options r u) k"
  "coalesce (js_get (rule_options r u) k) JUndefined = js_get (rule_options r u) k"
  by (simp_all add: read_option_def coalesce_undefined rule_options_no_null)

lemma rule_options_object:
  "is_object (rule_options r u)" "has_keys (rule_options r u)" "rule_options r u \<noteq> JUndefined"
  by (simp_all add: rule_options_def)

definition rule_normal :: "ics_recurrence_rule \<Rightarrow> int option \<Rightarrow> bool" where
  "rule_normal r until \<longleftrightarrow>
     rule_lists_ok r \<and> 1 \<le> r_interval r \<and> (case r_count r of None \<Rightarrow> True | Some n \<Rightarrow> 0 < n) \<and>
     r_until r = map_option toISOString until \<and> normalizeIcsTimezone (r_timezone r) = r_timezone r"

lemma recurrence_of_options:
  assumes "rule_normal r until"
  shows "recurrence_of env (rule_options r until) JUndefined (r_frequency r) = r"
proof -
  let ?o = "rule_options r until"
  have pos: "parsePositiveInt (JNum (of_int n)) = Some n" if "0 < n" for n
    using that by (simp add: parsePositiveInt_def)
  have arr: "parseNumberArray (case v of None \<Rightarrow> JUndefined | Some ds \<Rightarrow> JArr (map (\<lambda>d. JNum (of_int d)) ds)) lo hi = v"
    if "entries_between lo hi v" for v lo hi
    using that by (auto simp: parseNumberArray_ints parseNumberArray_def [of JUndefined] split: option.split)
  have "parsePositiveInt (js_get ?o ''interval'') = Some (r_interval r)"
    using assms by (simp add: rule_options_get pos rule_normal_def)
  moreover have "parsePositiveInt (js_get ?o ''count'') = r_count r"
    using assms by (simp add: rule_options_get pos rule_normal_def parsePositiveInt_def [of JUndefined] split: option.splits)
  moreover have "coerceDate env (js_get ?o ''until'') = until"
    by (simp add: rule_options_get coerceDate_def split: option.split)
  moreover have "(case js_get ?o ''tzid'' of JStr z \<Rightarrow> Some z | _ \<Rightarrow> str_of (js_get JUndefined ''tzid'')) = r_timezone r"
    by (simp add: rule_options_get split: option.split)
  moreover have "coalesce (js_get ?o ''byweekday'') (coalesce (js_get ?o ''bynweekday'')
      (coalesce (js_get JUndefined ''byweekday'') (js_get JUndefined ''bynweekday''))) = js_get ?o ''byweekday''"
    by (simp add: rule_options_get(7) rule_options_read coalesce_undefined)
  moreover have "parseByWeekDay (js_get ?o ''byweekday'') = r_byWeekDay r"
    using assms by (auto simp: rule_options_get rule_normal_def rule_lists_ok_def parseByWeekDay_objects
        parseByWeekDay_def [of JUndefined] map_filter_simps split: option.split)
  moreover have "parseNumberArray (js_get ?o ''bymonthday'') 1 31 = r_byMonthDay r"
    "parseNumberArray (js_get ?o ''bymonth'') 1 12 = r_byMonth r"
    using assms by (simp_all add: rule_options_get arr rule_normal_def rule_lists_ok_def)
  ultimately show ?thesis
    using assms by (simp only: recurrence_of_def rule_options_read option.case rule_normal_def ics_recurrence_rule.surjective [of r, symmetric])
      (simp add: rule_normal_def)
qed

text \<open>Every rule in normal form survives the import: read from the library's options it is the
  same rule, weekdays counted from Sunday again.\<close>

lemma rule_options_round_trip:
  assumes "rule_normal r until"
  shows "parseRecurrenceRule env (JObj [(''origOptions'', rule_options r until)]) = Some r"
  using recurrence_of_options [OF assms]
  by (simp add: parseRecurrenceRule_def Let_def rule_options_object rule_options_read rule_options_get(1) freq_number_back)

definition sample_rule :: ics_recurrence_rule where
  "sample_rule =
     \<lparr>r_frequency = FWeekly, r_interval = 2, r_count = Some 10, r_until = None, r_timezone = Some ''Europe/Paris'',
      r_byWeekDay = Some [0, 3], r_byMonthDay = None, r_byMonth = Some [12]\<rparr>"

lemma rule_options_round_trip_witness:
  "rule_normal sample_rule None \<and>
   parseRecurrenceRule sample_env (JObj [(''origOptions'', rule_options sample_rule None)]) = Some sample_rule"
proof
  show "rule_normal sample_rule None" by code_simp
  then show "parseRecurrenceRule sample_env (JObj [(''origOptions'', rule_options sample_rule None)]) = Some sample_rule"
    by (rule rule_options_round_trip)
qed

lemma parsed_rule_in_range_witness:
  "\<exists>r. parseRecurrenceRule sample_env (JObj [(''options'', JObj [(''freq'', JStr ''weekly''),
       (''byweekday'', JArr [JStr ''MO'', JNum 9, JNum 6, JNum 0])])]) = Some r \<and> rule_lists_ok r"
proof -
  let ?v = "JObj [(''options'', JObj [(''freq'', JStr ''weekly''), (''byweekday'', JArr [JStr ''MO'', JNum 9, JNum 6, JNum 0])])]"
  have "parseRecurrenceRule sample_env ?v \<noteq> None" by code_simp
  then obtain r where "parseRecurrenceRule sample_env ?v = Some r" by auto
  with parsed_rule_in_range [OF this] show ?thesis by auto
qed

section \<open>All-day events\<close>

text \<open>
  A zone from 1970 on whose clock is ahead of UTC by \<open>off t\<close> at the instant \<open>t\<close>: \<open>Intl\<close> formats
  its clock, the offset is a whole number of seconds and less than a day, and it changes at most
  once within two days on either side of an instant.
\<close>

definition clock_parts :: "(string \<times> string) list \<Rightarrow> int \<Rightarrow> bool" where
  "clock_parts parts w \<longleftrightarrow>
     number_part parts ''year'' ''0'' = Some (getUTCFullYear w) \<and>
     number_part parts ''month'' ''1'' = Some (getUTCMonth w + 1) \<and>
     number_part parts ''day'' ''1'' = Some (getUTCDate w) \<and>
     number_part parts ''hour'' ''0'' = Some (getUTCHours w) \<and>
     number_part parts ''minute'' ''0'' = Some (getUTCMinutes w) \<and>
     number_part parts ''second'' ''0'' = Some (getUTCSeconds w)"

definition calendar_zone :: "ics_env \<Rightarrow> string \<Rightarrow> (int \<Rightarrow> int) \<Rightarrow> bool" where
  "calendar_zone env zone off \<longleftrightarrow>
     zone_or_utc (Some zone) = zone \<and>
     (\<forall>t. 0 \<le> t + off t \<longrightarrow> (\<exists>parts. fmt env zone t = Some parts \<and> clock_parts parts (t + off t))) \<and>
     (\<forall>t. \<bar>off t\<bar> < ms_per_day \<and> 1000 dvd off t) \<and>
     (\<forall>g. \<exists>T before after. \<forall>t. \<bar>t - g\<bar> \<le> 2 * ms_per_day \<longrightarrow> off t = (if t < T then before else after))"

lemma second_start: "1000 dvd k \<Longrightarrow> getUTCMilliseconds (t + k) = getUTCMilliseconds t"
proof -
  have "getUTCMilliseconds u = u mod 1000" for u
    by (simp add: getUTCMilliseconds_def ms_in_day_def ms_per_day_def mod_mod_cancel)
  then show "1000 dvd k \<Longrightarrow> getUTCMilliseconds (t + k) = getUTCMilliseconds t"
    by (simp add: mod_add_right_eq [symmetric, of t k])
qed

lemma full_year_since_1970: "0 \<le> w \<Longrightarrow> full_year (getUTCFullYear w) = getUTCFullYear w"
proof -
  assume "0 \<le> w"
  then have "0 \<le> utc_day w" by (simp add: utc_day_def pos_imp_zdiv_nonneg_iff)
  then have "day_from_year 100 < utc_day w" by (simp add: day_from_year_def)
  moreover have "utc_day w < day_from_year (year_of_day (utc_day w) + 1)" by (rule year_of_day_spec)
  ultimately have "day_from_year 100 < day_from_year (year_of_day (utc_day w) + 1)" by simp
  then have "\<not> year_of_day (utc_day w) + 1 < 100"
    using day_from_year_less [of "year_of_day (utc_day w) + 1" 100] by auto
  moreover have "\<not> year_of_day (utc_day w) = 99"
    using \<open>day_from_year 100 < day_from_year (year_of_day (utc_day w) + 1)\<close> by auto
  ultimately show ?thesis by (auto simp: full_year_def getUTCFullYear_def)
qed

lemma Date_UTC_clock:
  assumes "0 \<le> w"
  shows "Date_UTC (getUTCFullYear w) (getUTCMonth w) (getUTCDate w) (getUTCHours w) (getUTCMinutes w)
    (getUTCSeconds w) 0 = w - getUTCMilliseconds w"
proof -
  have "make_day (getUTCFullYear w) (getUTCMonth w) (getUTCDate w) = utc_day w"
    by (simp add: getUTCFullYear_def getUTCMonth_def getUTCDate_def)
  moreover have "make_time (getUTCHours w) (getUTCMinutes w) (getUTCSeconds w) 0 = ms_in_day w - getUTCMilliseconds w"
    using time_of_day_parts [of w] by (simp add: make_time_def)
  ultimately show ?thesis
    using full_year_since_1970 [OF assms] utc_split [of w] by (simp add: Date_UTC_def)
qed

lemma offset_of_zone:
  assumes "calendar_zone env zone off" "0 \<le> t + off t"
  shows "getTimeZoneOffsetMs env (Some t) zone = Inr (Some (off t))"
proof -
  from assms obtain parts where parts: "fmt env zone t = Some parts" "clock_parts parts (t + off t)"
    and zone: "zone_or_utc (Some zone) = zone" and sec: "1000 dvd off t"
    by (auto simp: calendar_zone_def)
  have "getUTCMonth w + 1 - 1 = getUTCMonth w" for w by simp
  with parts zone Date_UTC_clock [OF assms(2)] second_start [OF sec, of t] show ?thesis
    by (simp add: getTimeZoneOffsetMs_def clock_parts_def)
qed

text \<open>The two guesses find a clock reading that occurs.\<close>

lemma two_guesses:
  assumes zone: "calendar_zone env zone off" and g: "g = u + off u"
  shows "g - off (g - off g) + off (g - off (g - off g)) = g"
proof -
  from zone obtain T a b where off: "\<And>t. \<bar>t - g\<bar> \<le> 2 * ms_per_day \<Longrightarrow> off t = (if t < T then a else b)"
    unfolding calendar_zone_def by meson
  from zone have small: "\<bar>off t\<bar> < ms_per_day" for t by (simp add: calendar_zone_def)
  define n where "n = g - off g"
  have near: "\<bar>u - g\<bar> \<le> 2 * ms_per_day" "\<bar>g - g\<bar> \<le> 2 * ms_per_day" "\<bar>n - g\<bar> \<le> 2 * ms_per_day"
    "\<bar>g - off n - g\<bar> \<le> 2 * ms_per_day"
    using small [of u] small [of g] small [of n] by (auto simp: g n_def)
  have "off (g - off n) = off n"
    using off [OF near(1)] off [OF near(2)] off [OF near(3)] off [OF near(4)] g n_def by (auto split: if_splits)
  then show ?thesis by (simp add: n_def)
qed

lemma Date_UTC_parts:
  assumes "0 \<le> w"
  shows "Date_UTC (cd_year (parts_of w)) (cd_month (parts_of w) - 1) (cd_day (parts_of w)) h mi s ms =
    utc_day w * ms_per_day + make_time h mi s ms"
  using full_year_since_1970 [OF assms]
  by (simp add: Date_UTC_def parts_of_def) (simp add: getUTCFullYear_def getUTCMonth_def getUTCDate_def)

lemma utc_day_ge: "n * ms_per_day \<le> w \<Longrightarrow> n \<le> utc_day w"
  unfolding utc_day_def ms_per_day_def by linarith

text \<open>The instant at which the clock of the zone shows the first or the last millisecond of a day.\<close>

lemma build_in_zone:
  assumes zone: "calendar_zone env zone off" and tz: "zone_or_utc (Some tz) = zone"
    and w: "2 * ms_per_day \<le> w" and g: "g = utc_day w * ms_per_day + (if endOfDay then 86399999 else 0)"
    and occurs: "g = u + off u"
  obtains t where "buildUtcDateFromTimeZoneDateParts env (parts_of w) tz endOfDay = Inr (Some t)" "t + off t = g"
proof
  from zone have small: "\<bar>off t\<bar> < ms_per_day" and sec: "1000 dvd off t" for t by (simp_all add: calendar_zone_def)
  have "2 \<le> utc_day w" using w by (rule utc_day_ge)
  then have "2 * ms_per_day \<le> utc_day w * ms_per_day" by (intro mult_right_mono) (simp_all add: ms_per_day_def)
  moreover have "0 \<le> (if endOfDay then 86399999 else 0 :: int)" by simp
  ultimately have big: "2 * ms_per_day \<le> g" unfolding g by linarith
  define n where "n = g - off g"
  have guess: "Date_UTC (cd_year (parts_of w)) (cd_month (parts_of w) - 1) (cd_day (parts_of w))
      (if endOfDay then 23 else 0) (if endOfDay then 59 else 0) (if endOfDay then 59 else 0)
      (if endOfDay then 999 else 0) = g"
    using w Date_UTC_parts [of w] ms_per_day_pos by (simp add: g make_time_def)
  have offs: "getTimeZoneOffsetMs env (Some g) zone = Inr (Some (off g))"
    "getTimeZoneOffsetMs env (Some n) zone = Inr (Some (off n))"
    using big small [of g] small [of n] by (auto intro!: offset_of_zone [OF zone] simp: n_def)
  define t where "t = g - off n"
  have "g - off n = t" "off n = off g \<Longrightarrow> n = t"
    by (simp_all add: t_def n_def)
  moreover have "setUTCMilliseconds t 999 = t" if endOfDay
  proof -
    have "ms_in_day (utc_day w * ms_per_day + 86399999) = 86399999"
      by (rule ms_in_day_make) (simp_all add: ms_per_day_def)
    then have "getUTCMilliseconds g = 999" using that by (simp add: g getUTCMilliseconds_def)
    moreover have "getUTCMilliseconds (g + - off n) = getUTCMilliseconds g"
      using sec [of n] by (intro second_start) simp
    ultimately show ?thesis by (simp add: setUTCMilliseconds_def t_def)
  qed
  ultimately show "buildUtcDateFromTimeZoneDateParts env (parts_of w) tz endOfDay = Inr (Some t)"
    by (auto simp: buildUtcDateFromTimeZoneDateParts_def Let_def tz guess offs n_def [symmetric])
  show "t + off t = g" using two_guesses [OF zone occurs] by (simp add: t_def n_def)
qed

lemma addDays_parts:
  assumes "0 \<le> w"
  shows "addDaysToDateParts (parts_of w) k = parts_of ((utc_day w + k) * ms_per_day)"
proof -
  have "Date_UTC (cd_year (parts_of w)) (cd_month (parts_of w) - 1) (cd_day (parts_of w)) 0 0 0 0 =
      utc_day w * ms_per_day"
    by (simp add: Date_UTC_parts [OF assms] make_time_def)
  then show ?thesis by (simp add: addDaysToDateParts_def Let_def setUTCDate_shift distrib_right)
qed

text \<open>An all-day event is stored from the first millisecond of its first day to the last
  millisecond of its last day on the clock of the user's zone, the file's end date being
  exclusive, also across a change of the clock, as long as these two clock readings occur.\<close>

lemma all_day_import_in_zone:
  assumes "calendar_zone env zone off" "zone_or_utc (Some timezone) = zone" "start < endAt"
    and "2 * ms_per_day \<le> hostClock env start" "3 * ms_per_day \<le> hostClock env endAt"
    and "utc_day (hostClock env start) * ms_per_day = u + off u"
    and "utc_day (hostClock env endAt) * ms_per_day - 1 = v + off v"
  shows "\<exists>s f. normalizeAllDayRange env start (Some endAt) timezone = Inr (Some s, Some f) \<and>
    s + off s = utc_day (hostClock env start) * ms_per_day \<and>
    f + off f = utc_day (hostClock env endAt) * ms_per_day - 1"
proof -
  define e where "e = (utc_day (hostClock env endAt) - 1) * ms_per_day"
  have e: "utc_day e = utc_day (hostClock env endAt) - 1"
    using utc_day_make [of 0 "utc_day (hostClock env endAt) - 1"] by (simp add: e_def)
  have "3 \<le> utc_day (hostClock env endAt)" using assms(5) by (rule utc_day_ge)
  then have "2 * ms_per_day \<le> e" unfolding e_def by (intro mult_right_mono) (simp_all add: ms_per_day_def)
  moreover have "utc_day (hostClock env endAt) * ms_per_day - 1 = utc_day e * ms_per_day + (if True then 86399999 else 0)"
    by (simp add: e algebra_simps) (simp add: ms_per_day_def)
  ultimately obtain f where f: "buildUtcDateFromTimeZoneDateParts env (parts_of e) timezone True = Inr (Some f)"
    "f + off f = utc_day (hostClock env endAt) * ms_per_day - 1"
    using build_in_zone [OF assms(1,2)] assms(7) by blast
  have "utc_day (hostClock env start) * ms_per_day = utc_day (hostClock env start) * ms_per_day + (if False then 86399999 else 0)"
    by simp
  then obtain s where s: "buildUtcDateFromTimeZoneDateParts env (parts_of (hostClock env start)) timezone False = Inr (Some s)"
    "s + off s = utc_day (hostClock env start) * ms_per_day"
    using build_in_zone [OF assms(1,2,4)] assms(6) by blast
  have "addDaysToDateParts (parts_of (hostClock env endAt)) (- 1) = parts_of e"
    using addDays_parts [of "hostClock env endAt" "- 1"] assms(5) ms_per_day_pos by (simp add: e_def)
  with s f assms(3) show ?thesis
    by (simp add: normalizeAllDayRange_def getRuntimeLocalDateParts_def)
qed

lemma calendar_zone_fixed:
  assumes "zone_or_utc (Some zone) = zone" "\<bar>k\<bar> < ms_per_day" "1000 dvd k"
  shows "calendar_zone (sample_env\<lparr>fmt := \<lambda>z t. Some (clock_fmt (\<lambda>_. k) z t)\<rparr>) zone (\<lambda>_. k)"
proof -
  have "clock_parts (clock_fmt (\<lambda>_. k) zone t) (t + k)" if "0 \<le> t + k" for t
  proof -
    define w where "w = t + k"
    have num: "number_part ps n d = Some i" if "map_of ps n = Some (int_str i)" "0 \<le> i" for ps n d i
      using that parse_int10_int_str [of i] by (simp add: number_part_def or_else_def int_str_nonneg)
    have "0 \<le> getUTCMonth w + 1" "0 \<le> getUTCDate w" "0 \<le> getUTCHours w" "0 \<le> getUTCMinutes w" "0 \<le> getUTCSeconds w"
      using month_of_day_bounds(1) [of "utc_day w"] date_of_day_bounds(1) [of "utc_day w"]
      by (simp_all add: getUTCMonth_def getUTCDate_def getUTCHours_def getUTCMinutes_def getUTCSeconds_def
          pos_imp_zdiv_nonneg_iff)
    moreover have "0 \<le> getUTCFullYear w"
    proof (rule ccontr)
      assume "\<not> 0 \<le> getUTCFullYear w"
      then have "day_from_year (year_of_day (utc_day w) + 1) < day_from_year 1970"
        using day_from_year_less [of "year_of_day (utc_day w) + 1" 1970] by (simp add: getUTCFullYear_def)
      moreover have "0 \<le> utc_day w" using that by (simp add: w_def utc_day_def pos_imp_zdiv_nonneg_iff)
      ultimately show False using year_of_day_spec(2) [of "utc_day w"] by (simp add: day_from_year_def)
    qed
    ultimately show ?thesis
      by (simp add: clock_parts_def clock_fmt_def Let_def w_def [symmetric]) (simp add: num)
  qed
  with assms show ?thesis by (auto simp: calendar_zone_def)
qed

lemma all_day_import_in_zone_witness:
  "\<exists>s f. normalizeAllDayRange (sample_env\<lparr>fmt := \<lambda>z t. Some (clock_fmt (\<lambda>_. 3600000) z t)\<rparr>)
      (20 * ms_per_day) (Some (22 * ms_per_day)) ''Europe/Paris'' = Inr (Some s, Some f) \<and>
    s + 3600000 = 20 * ms_per_day \<and> f + 3600000 = 22 * ms_per_day - 1"
proof -
  have z: "zone_or_utc (Some ''Europe/Paris'') = ''Europe/Paris''" by code_simp
  let ?env = "sample_env\<lparr>fmt := \<lambda>z t. Some (clock_fmt (\<lambda>_. 3600000) z t)\<rparr>"
  have "calendar_zone ?env ''Europe/Paris'' (\<lambda>_. 3600000)"
    using calendar_zone_fixed [OF z, of 3600000] by (simp add: ms_per_day_def)
  moreover have "hostClock ?env t = t" for t by (simp add: sample_env_def)
  moreover have "utc_day (20 * ms_per_day) = 20" "utc_day (22 * ms_per_day) = 22" by (simp_all add: utc_day_def ms_per_day_def)
  ultimately show ?thesis
    using all_day_import_in_zone [of ?env "''Europe/Paris''" "\<lambda>_. 3600000" "''Europe/Paris''" "20 * ms_per_day"
        "22 * ms_per_day" "20 * ms_per_day - 3600000" "22 * ms_per_day - 1 - 3600000"] z
    by (simp add: ms_per_day_def)
qed

end
