(* ===== verification/OptimisticEvents.thy ===== *)
theory OptimisticEvents
  imports JsValue JsMap
begin

text \<open>
  Optimistic updates of the native calendar, \<open>apps/native-calendar/src/lib/optimistic-events.ts\<close>:
  a change is shown in the cached event lists before the server answers, and rolled back or
  committed afterwards; a new range is assembled from cached ones.

  The cache is the query client of \<open>@tanstack/react-query\<close>, which is outside the repository:
  a state of some type \<open>'c\<close> and the operations of the record \<open>query_client\<close>, restricted to the
  queries under \<open>QUERY_KEYS.eventsRoot()\<close>. The locale \<open>query_cache\<close> holds what the code relies
  on: the entries have distinct keys, \<open>setQueryData\<close> changes the data of one key and ignores
  \<open>undefined\<close>, and cancelling a refetch keeps the data. \<open>toDate\<close> is the \<open>Date\<close> constructor on a
  string. The start and end of an event are what \<open>new Date(...).getTime()\<close> gives, \<open>None\<close> for
  \<open>NaN\<close>; the properties of an event that the code never reads are one value.
\<close>

section \<open>Data\<close>

record calendar_event =
  ce_id :: string
  ce_start :: "int option"
  ce_end :: "int option"
  ce_recurrence :: "string option"
  ce_rest :: jsval

record events_response =
  er_events :: "calendar_event list"
  er_categories :: jsval
  er_calendars :: jsval

type_synonym query_key = "string list"
type_synonym cache_entry = "query_key \<times> events_response option"
type_synonym cache_snapshot = "cache_entry list"

record 'c query_client =
  getQueriesData :: "'c \<Rightarrow> cache_entry list"
  setQueryData :: "'c \<Rightarrow> query_key \<Rightarrow> (events_response option \<Rightarrow> events_response option) \<Rightarrow> 'c"
  getQueryState :: "'c \<Rightarrow> query_key \<Rightarrow> (bool \<times> int) option"
  cancelQueries :: "'c \<Rightarrow> (events_response option \<Rightarrow> bool) \<Rightarrow> 'c"
  invalidateQueries :: "'c \<Rightarrow> (query_key \<Rightarrow> bool) \<Rightarrow> 'c"

record create_event_request =
  cr_title :: string
  cr_description :: "string option"
  cr_start :: string
  cr_end :: string
  cr_timezone :: "string option"
  cr_allDay :: "bool option"
  cr_location :: "string option"
  cr_color :: "string option"
  cr_calendarId :: string
  cr_categoryId :: "string option"
  cr_reminder :: "int option"
  cr_recurrence :: "string option"

definition OPTIMISTIC_ID_PREFIX :: string where
  "OPTIMISTIC_ID_PREFIX = ''__optimistic__''"

text \<open>\<open>random\<close> is \<open>Math.random().toString(36).slice(2)\<close>.\<close>

definition generateOptimisticId :: "int \<Rightarrow> string \<Rightarrow> string" where
  "generateOptimisticId now random = OPTIMISTIC_ID_PREFIX @ int_str now @ ''_'' @ random"

definition isOptimisticId :: "string \<Rightarrow> bool" where
  "isOptimisticId i \<longleftrightarrow> starts_with i OPTIMISTIC_ID_PREFIX"

definition has_id :: "string \<Rightarrow> calendar_event \<Rightarrow> bool" where
  "has_id i event \<longleftrightarrow> ce_id event = i"

fun findCachedEvent_in :: "cache_entry list \<Rightarrow> string \<Rightarrow> calendar_event option" where
  "findCachedEvent_in [] eventId = None"
| "findCachedEvent_in ((_, data) # rest) eventId =
     (case data of
        None \<Rightarrow> findCachedEvent_in rest eventId
      | Some d \<Rightarrow> (case find (has_id eventId) (er_events d) of
                    Some e \<Rightarrow> Some e | None \<Rightarrow> findCachedEvent_in rest eventId))"

definition findCachedEvent :: "('c, 'x) query_client_scheme \<Rightarrow> 'c \<Rightarrow> string \<Rightarrow> calendar_event option" where
  "findCachedEvent qc c eventId = findCachedEvent_in (getQueriesData qc c) eventId"

text \<open>\<open>value ?? null\<close> of an optional text.\<close>

definition text_or_null :: "string option \<Rightarrow> jsval" where
  "text_or_null v = (case v of None \<Rightarrow> JNull | Some s \<Rightarrow> JStr s)"

definition buildOptimisticEvent ::
  "(string \<Rightarrow> int option) \<Rightarrow> int \<Rightarrow> create_event_request \<Rightarrow> string \<Rightarrow> string \<Rightarrow> calendar_event" where
  "buildOptimisticEvent toDate now data userId tempId =
     \<lparr>ce_id = tempId, ce_start = toDate (cr_start data), ce_end = toDate (cr_end data),
      ce_recurrence = cr_recurrence data,
      ce_rest = JObj
        [(''title'', JStr (cr_title data)), (''description'', text_or_null (cr_description data)),
         (''timezone'', text_or_null (cr_timezone data)),
         (''allDay'', JBool (case cr_allDay data of None \<Rightarrow> False | Some b \<Rightarrow> b)),
         (''location'', text_or_null (cr_location data)), (''color'', text_or_null (cr_color data)),
         (''calendarId'', JStr (cr_calendarId data)), (''categoryId'', text_or_null (cr_categoryId data)),
         (''userId'', JStr userId),
         (''reminder'', (case cr_reminder data of None \<Rightarrow> JNull | Some n \<Rightarrow> JNum (of_int n))),
         (''parentEventId'', JNull), (''isRecurringInstance'', JBool False),
         (''createdAt'', JDate (Some now)), (''updatedAt'', JDate (Some now))]\<rparr>"

section \<open>Ranges\<close>

definition eventOverlapsRange :: "calendar_event \<Rightarrow> int \<Rightarrow> int \<Rightarrow> bool" where
  "eventOverlapsRange event rangeStart rangeEnd \<longleftrightarrow>
     (case (ce_start event, ce_end event) of (Some s, Some e) \<Rightarrow> s < rangeEnd \<and> e > rangeStart | _ \<Rightarrow> False)"

definition parseEventsQueryRange :: "(string \<Rightarrow> int option) \<Rightarrow> query_key \<Rightarrow> (int \<times> int) option" where
  "parseEventsQueryRange toDate queryKey =
     (case queryKey of
        _ # startISO # endISO # _ \<Rightarrow>
          if startISO = [] \<or> endISO = [] then None
          else (case (toDate startISO, toDate endISO) of (Some s, Some e) \<Rightarrow> Some (s, e) | _ \<Rightarrow> None)
      | _ \<Rightarrow> None)"

definition overlaps_key :: "(string \<Rightarrow> int option) \<Rightarrow> calendar_event \<Rightarrow> query_key \<Rightarrow> bool" where
  "overlaps_key toDate event queryKey \<longleftrightarrow>
     (case parseEventsQueryRange toDate queryKey of
        None \<Rightarrow> False | Some (s, e) \<Rightarrow> eventOverlapsRange event s e)"

definition cancelLoadedEventQueries :: "('c, 'x) query_client_scheme \<Rightarrow> 'c \<Rightarrow> 'c" where
  "cancelLoadedEventQueries qc c = cancelQueries qc c (\<lambda>data. data \<noteq> None)"

section \<open>Optimistic changes\<close>

text \<open>\<open>prev => prev && { ...prev, events: f(prev.events) }\<close>.\<close>

definition map_events ::
  "(calendar_event list \<Rightarrow> calendar_event list) \<Rightarrow> events_response option \<Rightarrow> events_response option" where
  "map_events f prev = map_option (\<lambda>d. d\<lparr>er_events := f (er_events d)\<rparr>) prev"

text \<open>The loop of a change: each entry that is changed is put in the snapshot and updated.\<close>

fun change_loop ::
  "('c, 'x) query_client_scheme \<Rightarrow> (query_key \<Rightarrow> events_response option \<Rightarrow> bool) \<Rightarrow>
   (query_key \<Rightarrow> events_response option \<Rightarrow> events_response option \<Rightarrow> events_response option) \<Rightarrow>
   cache_entry list \<Rightarrow> 'c \<times> cache_snapshot \<Rightarrow> 'c \<times> cache_snapshot" where
  "change_loop qc touches updater [] st = st"
| "change_loop qc touches updater ((queryKey, data) # rest) (c, snapshot) =
     (if touches queryKey data
      then change_loop qc touches updater rest
             (setQueryData qc c queryKey (updater queryKey data), snapshot @ [(queryKey, data)])
      else change_loop qc touches updater rest (c, snapshot))"

definition optimisticallyInsertEvent ::
  "('c, 'x) query_client_scheme \<Rightarrow> (string \<Rightarrow> int option) \<Rightarrow> 'c \<Rightarrow> calendar_event \<Rightarrow> 'c \<times> cache_snapshot" where
  "optimisticallyInsertEvent qc toDate c event =
     (let c = cancelLoadedEventQueries qc c
      in change_loop qc (\<lambda>k data. overlaps_key toDate event k)
           (\<lambda>k data. map_events (\<lambda>es. event # es)) (getQueriesData qc c) (c, []))"

definition optimisticallyRemoveEvent ::
  "('c, 'x) query_client_scheme \<Rightarrow> 'c \<Rightarrow> string \<Rightarrow> 'c \<times> cache_snapshot" where
  "optimisticallyRemoveEvent qc c eventId =
     (let c = cancelLoadedEventQueries qc c
      in change_loop qc (\<lambda>k data. data \<noteq> None)
           (\<lambda>k data. map_events (filter (\<lambda>e. \<not> has_id eventId e))) (getQueriesData qc c) (c, []))"

definition patch_event :: "string \<Rightarrow> int option \<times> int option \<Rightarrow> calendar_event \<Rightarrow> calendar_event" where
  "patch_event eventId patch event =
     (if has_id eventId event then event\<lparr>ce_start := fst patch, ce_end := snd patch\<rparr> else event)"

text \<open>The new list of a range, given the moved event.\<close>

definition patch_events ::
  "(string \<Rightarrow> int option) \<Rightarrow> string \<Rightarrow> int option \<times> int option \<Rightarrow> calendar_event option \<Rightarrow> query_key \<Rightarrow>
   calendar_event list \<Rightarrow> calendar_event list" where
  "patch_events toDate eventId patch moved queryKey events =
     (case (parseEventsQueryRange toDate queryKey, moved) of
        (Some (s, e), Some m) \<Rightarrow>
          let exists = list_ex (has_id eventId) events; overlaps = eventOverlapsRange m s e
          in if exists \<and> overlaps then map (patch_event eventId patch) events
             else if exists \<and> \<not> overlaps then filter (\<lambda>x. \<not> has_id eventId x) events
             else if \<not> exists \<and> overlaps then m # events
             else events
      | _ \<Rightarrow> map (patch_event eventId patch) events)"

definition optimisticallyPatchEvent ::
  "('c, 'x) query_client_scheme \<Rightarrow> (string \<Rightarrow> int option) \<Rightarrow> 'c \<Rightarrow> string \<Rightarrow> int option \<times> int option \<Rightarrow>
   'c \<times> cache_snapshot" where
  "optimisticallyPatchEvent qc toDate c eventId patch =
     (let c = cancelLoadedEventQueries qc c;
          moved = map_option (patch_event eventId patch) (findCachedEvent_in (getQueriesData qc c) eventId)
      in change_loop qc (\<lambda>k data. data \<noteq> None)
           (\<lambda>k data. map_events (patch_events toDate eventId patch moved k)) (getQueriesData qc c) (c, []))"

fun rollbackFromSnapshot :: "('c, 'x) query_client_scheme \<Rightarrow> 'c \<Rightarrow> cache_snapshot \<Rightarrow> 'c" where
  "rollbackFromSnapshot qc c [] = c"
| "rollbackFromSnapshot qc c ((queryKey, data) # rest) =
     rollbackFromSnapshot qc (setQueryData qc c queryKey (\<lambda>_. data)) rest"

section \<open>Committing and invalidating\<close>

definition is_other :: "string \<Rightarrow> calendar_event \<Rightarrow> calendar_event \<Rightarrow> bool" where
  "is_other tempId saved event \<longleftrightarrow> \<not> has_id tempId event \<and> \<not> has_id (ce_id saved) event"

fun commit_loop ::
  "('c, 'x) query_client_scheme \<Rightarrow> (string \<Rightarrow> int option) \<Rightarrow> string \<Rightarrow> calendar_event \<Rightarrow> cache_entry list \<Rightarrow> 'c \<Rightarrow> 'c" where
  "commit_loop qc toDate tempId saved [] c = c"
| "commit_loop qc toDate tempId saved ((queryKey, data) # rest) c =
     (case data of
        None \<Rightarrow> commit_loop qc toDate tempId saved rest c
      | Some d \<Rightarrow>
          let overlaps = overlaps_key toDate saved queryKey;
              others = filter (is_other tempId saved) (er_events d)
          in if \<not> overlaps \<and> length others = length (er_events d)
             then commit_loop qc toDate tempId saved rest c
             else commit_loop qc toDate tempId saved rest
                    (setQueryData qc c queryKey
                      (\<lambda>_. Some (d\<lparr>er_events := if overlaps then saved # others else others\<rparr>))))"

definition commitOptimisticEvent ::
  "('c, 'x) query_client_scheme \<Rightarrow> (string \<Rightarrow> int option) \<Rightarrow> 'c \<Rightarrow> string \<Rightarrow> calendar_event \<Rightarrow> 'c" where
  "commitOptimisticEvent qc toDate c tempId saved =
     commit_loop qc toDate tempId saved (getQueriesData qc c) c"

definition range_to_invalidate :: "(string \<Rightarrow> int option) \<Rightarrow> calendar_event \<Rightarrow> query_key \<Rightarrow> bool" where
  "range_to_invalidate toDate event queryKey \<longleftrightarrow>
     (case parseEventsQueryRange toDate queryKey of
        None \<Rightarrow> True
      | Some (s, e) \<Rightarrow>
          if ce_recurrence event \<noteq> None \<and> ce_recurrence event \<noteq> Some []
          then (case ce_start event of None \<Rightarrow> False | Some t \<Rightarrow> e > t)
          else eventOverlapsRange event s e)"

definition invalidateEventRanges ::
  "('c, 'x) query_client_scheme \<Rightarrow> (string \<Rightarrow> int option) \<Rightarrow> 'c \<Rightarrow> calendar_event \<Rightarrow> 'c" where
  "invalidateEventRanges qc toDate c event = invalidateQueries qc c (range_to_invalidate toDate event)"

section \<open>Reading a range from the cache\<close>

record range_source =
  rs_start :: int
  rs_end :: int
  rs_data :: events_response
  rs_updatedAt :: int

text \<open>An invalidated source counts as never loaded.\<close>

definition source_updatedAt :: "('c, 'x) query_client_scheme \<Rightarrow> 'c \<Rightarrow> query_key \<Rightarrow> int" where
  "source_updatedAt qc c queryKey =
     (case getQueryState qc c queryKey of
        Some (isInvalidated, dataUpdatedAt) \<Rightarrow> if isInvalidated then 0 else dataUpdatedAt
      | None \<Rightarrow> 0)"

definition source_of ::
  "('c, 'x) query_client_scheme \<Rightarrow> (string \<Rightarrow> int option) \<Rightarrow> 'c \<Rightarrow> int \<Rightarrow> int \<Rightarrow> cache_entry \<Rightarrow> range_source option" where
  "source_of qc toDate c start endAt entry =
     (case (snd entry, parseEventsQueryRange toDate (fst entry)) of
        (Some d, Some (s, e)) \<Rightarrow>
          if e \<le> start \<or> s \<ge> endAt then None
          else Some \<lparr>rs_start = s, rs_end = e, rs_data = d, rs_updatedAt = source_updatedAt qc c (fst entry)\<rparr>
      | _ \<Rightarrow> None)"

definition range_sources ::
  "('c, 'x) query_client_scheme \<Rightarrow> (string \<Rightarrow> int option) \<Rightarrow> 'c \<Rightarrow> int \<Rightarrow> int \<Rightarrow> range_source list" where
  "range_sources qc toDate c start endAt =
     List.map_filter (source_of qc toDate c start endAt) (getQueriesData qc c)"

definition compare_starts :: "range_source \<Rightarrow> range_source \<Rightarrow> int" where
  "compare_starts a b = rs_start a - rs_start b"

definition compare_recency :: "range_source \<Rightarrow> range_source \<Rightarrow> int" where
  "compare_recency a b = rs_updatedAt a - rs_updatedAt b"

fun covered_until :: "int \<Rightarrow> range_source list \<Rightarrow> int" where
  "covered_until t [] = t"
| "covered_until t (source # rest) =
     (if rs_start source > t then t else covered_until (max t (rs_end source)) rest)"

definition events_in_range :: "int \<Rightarrow> int \<Rightarrow> range_source list \<Rightarrow> calendar_event list" where
  "events_in_range start endAt sources =
     filter (\<lambda>e. eventOverlapsRange e start endAt) (concat (map (\<lambda>s. er_events (rs_data s)) sources))"

definition readCachedEventsForRange ::
  "('c, 'x) query_client_scheme \<Rightarrow> (string \<Rightarrow> int option) \<Rightarrow> 'c \<Rightarrow> int \<Rightarrow> int \<Rightarrow> (events_response \<times> int) option" where
  "readCachedEventsForRange qc toDate c start endAt =
     (let sources = js_sort compare_starts (range_sources qc toDate c start endAt) in
      if sources = [] \<or> covered_until start sources < endAt then None
      else let byRecency = js_sort compare_recency sources;
               events = fold (\<lambda>e. map_set (ce_id e) e) (events_in_range start endAt byRecency) []
           in Some ((rs_data (last byRecency))\<lparr>er_events := map snd events\<rparr>,
                    Min (set (map rs_updatedAt sources))))"

section \<open>The contract of the cache\<close>

text \<open>The effect of an updater on the data of a query: \<open>undefined\<close> changes nothing.\<close>

definition updated ::
  "(events_response option \<Rightarrow> events_response option) \<Rightarrow> events_response option \<Rightarrow> events_response option" where
  "updated f d = (case f d of None \<Rightarrow> d | Some d' \<Rightarrow> Some d')"

definition update_at ::
  "query_key \<Rightarrow> (events_response option \<Rightarrow> events_response option) \<Rightarrow> cache_entry list \<Rightarrow> cache_entry list" where
  "update_at k f G = map (\<lambda>(k', d). (k', if k' = k then updated f d else d)) G"

locale query_cache =
  fixes qc :: "('c, 'x) query_client_scheme"
  assumes distinct_keys: "distinct (map fst (getQueriesData qc c))"
    and get_set: "k \<in> fst ` set (getQueriesData qc c) \<Longrightarrow>
      getQueriesData qc (setQueryData qc c k f) = update_at k f (getQueriesData qc c)"
    and get_cancel: "getQueriesData qc (cancelQueries qc c p) = getQueriesData qc c"
begin

lemma change_loop_data:
  assumes "distinct (map fst es)" "set es \<subseteq> set (getQueriesData qc c)"
  shows "snd (change_loop qc touches f es (c, sn)) = sn @ filter (\<lambda>(k, d). touches k d) es \<and>
    getQueriesData qc (fst (change_loop qc touches f es (c, sn))) =
      map (\<lambda>(k, d). (k, if (k, d) \<in> set es \<and> touches k d then updated (f k d) d else d)) (getQueriesData qc c)"
  using assms
proof (induction es arbitrary: c sn)
  case Nil
  show ?case by (simp add: case_prod_unfold)
next
  case (Cons x es)
  obtain k d where x: "x = (k, d)" by (cases x)
  let ?c = "setQueryData qc c k (f k d)"
  have "k \<in> fst ` set (getQueriesData qc c)" using Cons.prems x by force
  note G = get_set [OF this, of "f k d"]
  have one: "d' = d" if "(k, d') \<in> set (getQueriesData qc c)" for d'
    using Cons.prems x that distinct_keys [of c] by (auto dest: eq_key_imp_eq_value)
  have new: "(k, d') \<notin> set es" for d' using Cons.prems x by force
  have rest: "distinct (map fst es)" "set es \<subseteq> set (getQueriesData qc c)" using Cons.prems by auto
  have sub: "set es \<subseteq> set (getQueriesData qc ?c)"
  proof
    fix y assume y: "y \<in> set es"
    with new have "fst y \<noteq> k" by (metis prod.collapse)
    moreover have "y \<in> set (getQueriesData qc c)" using y rest by auto
    ultimately show "y \<in> set (getQueriesData qc ?c)"
      unfolding G update_at_def set_map by (intro image_eqI [where x = y]) (auto split: prod.splits)
  qed
  show ?case
  proof (cases "touches k d")
    case True
    then show ?thesis
      using Cons.IH [OF rest(1) sub, of "sn @ [(k, d)]"] x one new
      by (auto simp: G update_at_def intro!: map_cong)
  next
    case False
    then show ?thesis using Cons.IH [OF rest, of sn] x one by (auto intro!: map_cong)
  qed
qed

lemma change_data:
  "getQueriesData qc (fst (change_loop qc touches f (getQueriesData qc c) (c, []))) =
    map (\<lambda>(k, d). (k, if touches k d then updated (f k d) d else d)) (getQueriesData qc c)"
  "snd (change_loop qc touches f (getQueriesData qc c) (c, [])) = filter (\<lambda>(k, d). touches k d) (getQueriesData qc c)"
  using change_loop_data [OF distinct_keys order.refl, where touches = touches and f = f and sn = "[]"]
  by (auto intro!: map_cong)

lemma rollback_data:
  assumes "fst ` set sn \<subseteq> fst ` set (getQueriesData qc c)" "distinct (map fst sn)"
  shows "getQueriesData qc (rollbackFromSnapshot qc c sn) =
    map (\<lambda>(k, d). (k, case map_of sn k of Some (Some d') \<Rightarrow> Some d' | _ \<Rightarrow> d)) (getQueriesData qc c)"
  using assms
proof (induction sn arbitrary: c)
  case Nil
  then show ?case by (simp add: case_prod_unfold)
next
  case (Cons x sn)
  obtain k d where x: "x = (k, d)" by (cases x)
  let ?c = "setQueryData qc c k (\<lambda>_. d)"
  have G: "getQueriesData qc ?c = update_at k (\<lambda>_. d) (getQueriesData qc c)"
    using Cons.prems x by (intro get_set) auto
  have "fst ` set (getQueriesData qc ?c) = fst ` set (getQueriesData qc c)"
    unfolding G update_at_def by force
  with Cons.prems have "fst ` set sn \<subseteq> fst ` set (getQueriesData qc ?c)" "distinct (map fst sn)" by auto
  note IH = Cons.IH [OF this]
  from Cons.prems x have "map_of sn k = None" by (simp add: map_of_eq_None_iff)
  then show ?case
    unfolding x rollbackFromSnapshot.simps IH G update_at_def map_map
    by (intro map_cong) (auto simp: updated_def split: option.splits)
qed

text \<open>Taking a change back restores every entry.\<close>

lemma rollback_change:
  assumes "\<And>k. f k None None = None"
  shows "getQueriesData qc (rollbackFromSnapshot qc (fst (change_loop qc touches f (getQueriesData qc c) (c, [])))
      (snd (change_loop qc touches f (getQueriesData qc c) (c, [])))) = getQueriesData qc c"
proof -
  let ?G = "getQueriesData qc c"
  let ?sn = "filter (\<lambda>(k, d). touches k d) ?G"
  have d: "distinct (map fst ?sn)" using distinct_keys [of c] by (simp add: distinct_map inj_on_def)
  have "fst ` set ?sn \<subseteq> fst ` set (map (\<lambda>(k, d). (k, if touches k d then updated (f k d) d else d)) ?G)"
    by force
  note roll = rollback_data [OF _ d, of "fst (change_loop qc touches f ?G (c, []))", unfolded change_data(1), OF this]
  have "map_of ?sn k = (if touches k d then Some d else None)" if "(k, d) \<in> set ?G" for k d
  proof (cases "touches k d")
    case True
    with that d show ?thesis by (simp add: map_of_is_SomeI)
  next
    case False
    have "(k, d') \<notin> set ?sn" for d'
      using that False distinct_keys [of c] by (auto dest: eq_key_imp_eq_value)
    with False show ?thesis by (auto simp: map_of_eq_None_iff)
  qed
  then have "(case map_of ?sn k of Some (Some d') \<Rightarrow> Some d' | _ \<Rightarrow> if touches k d then updated (f k d) d else d) = d"
    if "(k, d) \<in> set ?G" for k d
    using that assms by (cases d) (simp_all add: updated_def)
  then show ?thesis
    unfolding change_data(2) roll map_map by (intro map_idI) auto
qed

lemma get_cancelled: "getQueriesData qc (cancelLoadedEventQueries qc c) = getQueriesData qc c"
  by (simp add: cancelLoadedEventQueries_def get_cancel)

lemma change_cancelled:
  fixes c
  defines "c1 \<equiv> cancelLoadedEventQueries qc c"
  shows "getQueriesData qc (fst (change_loop qc touches f (getQueriesData qc c1) (c1, []))) =
    map (\<lambda>(k, d). (k, if touches k d then updated (f k d) d else d)) (getQueriesData qc c)"
  unfolding change_data(1) by (simp add: c1_def get_cancelled)

lemma rollback_cancelled:
  fixes c
  defines "c1 \<equiv> cancelLoadedEventQueries qc c"
  assumes "\<And>k. f k None None = None"
  shows "(case change_loop qc touches f (getQueriesData qc c1) (c1, []) of
    (c', sn) \<Rightarrow> getQueriesData qc (rollbackFromSnapshot qc c' sn)) = getQueriesData qc c"
  unfolding case_prod_unfold rollback_change [where f = f, OF assms(2)]
  by (simp add: c1_def get_cancelled)

end

lemma commit_is_change:
  "commit_loop qc toDate tempId saved es c =
    fst (change_loop qc
      (\<lambda>k data. case data of None \<Rightarrow> False | Some d \<Rightarrow> overlaps_key toDate saved k \<or>
         length (filter (is_other tempId saved) (er_events d)) \<noteq> length (er_events d))
      (\<lambda>k data prev. map_events (\<lambda>es. let others = filter (is_other tempId saved) es
         in if overlaps_key toDate saved k then saved # others else others) data) es (c, sn))"
proof (induction es arbitrary: c sn)
  case (Cons x es)
  obtain k d where "x = (k, d)" by (cases x)
  with Cons.IH show ?case by (cases d) (auto simp: map_events_def Let_def)
qed simp

text \<open>The lists after a commit: the placeholder and older copies are gone, and the saved event
  heads the lists of the ranges it overlaps.\<close>

definition committed ::
  "(string \<Rightarrow> int option) \<Rightarrow> string \<Rightarrow> calendar_event \<Rightarrow> query_key \<Rightarrow> calendar_event list \<Rightarrow> calendar_event list" where
  "committed toDate tempId saved k events =
     (if overlaps_key toDate saved k then [saved] else []) @
     filter (\<lambda>e. ce_id e \<noteq> tempId \<and> ce_id e \<noteq> ce_id saved) events"

lemma filter_same: "length (filter p xs) = length xs \<Longrightarrow> filter p xs = xs"
  by (metis filter_True length_filter_less nat_neq_iff)

lemma commit_data:
  assumes "query_cache qc"
  shows "getQueriesData qc (commitOptimisticEvent qc toDate c tempId saved) =
    map (\<lambda>(k, d). (k, map_events (committed toDate tempId saved k) d)) (getQueriesData qc c)"
proof -
  have others: "is_other tempId saved = (\<lambda>e. ce_id e \<noteq> tempId \<and> ce_id e \<noteq> ce_id saved)"
    by (auto simp: is_other_def has_id_def)
  show ?thesis
    unfolding commitOptimisticEvent_def commit_is_change [where sn = "[]"] query_cache.change_data(1) [OF assms]
    by (intro map_cong refl)
      (auto simp: updated_def map_events_def committed_def others Let_def filter_same split: option.splits)
qed

section \<open>Rolling back and committing\<close>

text \<open>C17: Whatever optimistic change was made, insert, removal or move, rolling it back restores the
  cached lists of every range exactly.\<close>

theorem rollback_restores_cache:
  assumes "query_cache qc"
  shows "(case optimisticallyInsertEvent qc toDate c event of
      (c', snapshot) \<Rightarrow> getQueriesData qc (rollbackFromSnapshot qc c' snapshot)) = getQueriesData qc c \<and>
    (case optimisticallyRemoveEvent qc c eventId of
      (c', snapshot) \<Rightarrow> getQueriesData qc (rollbackFromSnapshot qc c' snapshot)) = getQueriesData qc c \<and>
    (case optimisticallyPatchEvent qc toDate c eventId patch of
      (c', snapshot) \<Rightarrow> getQueriesData qc (rollbackFromSnapshot qc c' snapshot)) = getQueriesData qc c"
  unfolding optimisticallyInsertEvent_def optimisticallyRemoveEvent_def optimisticallyPatchEvent_def Let_def
  by (intro conjI query_cache.rollback_cancelled [OF assms]) (simp_all add: map_events_def)

text \<open>Committing a saved event removes its placeholder from every cached range and shows the
  saved event once, at the head, in exactly the loaded ranges it overlaps; no other event moves.\<close>

lemma commit_replaces_placeholder:
  assumes "query_cache qc" "(k, Some d) \<in> set (getQueriesData qc c)"
  shows "\<exists>d'. (k, Some d') \<in> set (getQueriesData qc (commitOptimisticEvent qc toDate c tempId saved)) \<and>
    filter (\<lambda>e. ce_id e = ce_id saved) (er_events d') = (if overlaps_key toDate saved k then [saved] else []) \<and>
    (tempId \<noteq> ce_id saved \<longrightarrow> filter (\<lambda>e. ce_id e = tempId) (er_events d') = []) \<and>
    filter (\<lambda>e. ce_id e \<noteq> tempId \<and> ce_id e \<noteq> ce_id saved) (er_events d') =
      filter (\<lambda>e. ce_id e \<noteq> tempId \<and> ce_id e \<noteq> ce_id saved) (er_events d)"
proof (intro exI conjI)
  let ?d = "d\<lparr>er_events := committed toDate tempId saved k (er_events d)\<rparr>"
  show "(k, Some ?d) \<in> set (getQueriesData qc (commitOptimisticEvent qc toDate c tempId saved))"
    unfolding commit_data [OF assms(1)] set_map
    by (rule image_eqI [OF _ assms(2)]) (simp add: map_events_def)
qed (auto simp: committed_def filter_empty_conv)

text \<open>A move is shown in the right ranges: afterwards a loaded range lists the event exactly when
  it overlaps the new times, always with the new times, and its other events are unchanged.\<close>

lemma patch_moves_between_ranges:
  assumes "query_cache qc" "findCachedEvent qc c eventId = Some event" "(k, Some d) \<in> set (getQueriesData qc c)"
    and "parseEventsQueryRange toDate k = Some (from_t, to_t)"
  shows "\<exists>d'. (k, Some d') \<in> set (getQueriesData qc (fst (optimisticallyPatchEvent qc toDate c eventId patch))) \<and>
    (list_ex (has_id eventId) (er_events d') \<longleftrightarrow>
      eventOverlapsRange (event\<lparr>ce_start := fst patch, ce_end := snd patch\<rparr>) from_t to_t) \<and>
    list_all (\<lambda>e. has_id eventId e \<longrightarrow> ce_start e = fst patch \<and> ce_end e = snd patch) (er_events d') \<and>
    filter (\<lambda>e. \<not> has_id eventId e) (er_events d') = filter (\<lambda>e. \<not> has_id eventId e) (er_events d)"
proof -
  let ?moved = "event\<lparr>ce_start := fst patch, ce_end := snd patch\<rparr>"
  let ?es = "patch_events toDate eventId patch (Some ?moved) k (er_events d)"
  have "has_id eventId e" if "findCachedEvent_in G eventId = Some e" for G e
    using that
    by (induction G eventId rule: findCachedEvent_in.induct)
      (auto split: option.splits simp: find_Some_iff)
  with assms(2) have id: "has_id eventId event" by (simp add: findCachedEvent_def)
  have kept: "has_id eventId (patch_event eventId patch e) = has_id eventId e" for e
    by (simp add: patch_event_def has_id_def)
  have others: "filter (\<lambda>e. \<not> has_id eventId e) (map (patch_event eventId patch) es) = filter (\<lambda>e. \<not> has_id eventId e) es" for es
    by (induction es) (simp_all add: kept, simp add: patch_event_def)
  have new: "has_id eventId ?moved" using id by (simp add: has_id_def)
  have moved: "map_option (patch_event eventId patch) (findCachedEvent_in (getQueriesData qc c) eventId) = Some ?moved"
    using assms(2) id by (simp add: findCachedEvent_def patch_event_def)
  have "getQueriesData qc (fst (optimisticallyPatchEvent qc toDate c eventId patch)) =
      map (\<lambda>(k, d). (k, if d \<noteq> None then updated (map_events (patch_events toDate eventId patch (Some ?moved) k)) d else d))
        (getQueriesData qc c)"
    unfolding optimisticallyPatchEvent_def Let_def query_cache.change_cancelled [OF assms(1)]
    unfolding query_cache.get_cancelled [OF assms(1)] moved ..
  then have "(k, Some (d\<lparr>er_events := ?es\<rparr>)) \<in>
      set (getQueriesData qc (fst (optimisticallyPatchEvent qc toDate c eventId patch)))"
    using assms(3) by (force simp: updated_def map_events_def)
  moreover have "list_ex (has_id eventId) ?es \<longleftrightarrow> eventOverlapsRange ?moved from_t to_t"
    "list_all (\<lambda>e. has_id eventId e \<longrightarrow> ce_start e = fst patch \<and> ce_end e = snd patch) ?es"
    "filter (\<lambda>e. \<not> has_id eventId e) ?es = filter (\<lambda>e. \<not> has_id eventId e) (er_events d)"
    using assms(4) new
    by (auto simp: patch_events_def Let_def list_ex_iff list_all_iff kept others case_prod_unfold,
        auto simp: patch_event_def)
  ultimately show ?thesis by (intro exI [of _ "d\<lparr>er_events := ?es\<rparr>"]) simp
qed

section \<open>Reading a range\<close>

interpretation starts: js_comparator compare_starts
  by unfold_locales (auto simp: compare_starts_def)

interpretation recency: js_comparator compare_recency
  by unfold_locales (auto simp: compare_recency_def)

lemma covered_until_ge: "t \<le> covered_until t ss"
  by (induction t ss rule: covered_until.induct) auto

lemma covered_until_sound:
  "t \<le> u \<Longrightarrow> u < covered_until t ss \<Longrightarrow> \<exists>s \<in> set ss. rs_start s \<le> u \<and> u < rs_end s"
proof (induction t ss rule: covered_until.induct)
  case (2 t s ss)
  show ?case
  proof (cases "rs_start s > t")
    case False
    with 2 show ?thesis by (cases "u < rs_end s") auto
  qed (use 2 in auto)
qed auto

lemma covered_until_complete:
  assumes "sorted_wrt (\<lambda>a b. compare_starts a b \<le> 0) ss"
    and "\<And>u. t \<le> u \<Longrightarrow> u < bound \<Longrightarrow> \<exists>s \<in> set ss. rs_start s \<le> u \<and> u < rs_end s"
  shows "bound \<le> covered_until t ss"
  using assms
proof (induction t ss rule: covered_until.induct)
  case (1 t)
  from 1(2) [of t] show ?case by force
next
  case (2 t s ss)
  show ?case
  proof (cases "t < bound")
    case True
    with 2(3) [of t] 2(2) have no_gap: "\<not> rs_start s > t" by (auto simp: compare_starts_def)
    have "\<exists>x \<in> set ss. rs_start x \<le> u \<and> u < rs_end x" if "max t (rs_end s) \<le> u" "u < bound" for u
      using 2(3) [of u] that by auto
    with 2(1,2) no_gap show ?thesis by auto
  next
    case False
    with covered_until_ge [of t "s # ss"] show ?thesis by linarith
  qed
qed

lemma source_of_Some:
  "source_of qc toDate c start endAt (k, data) = Some s \<longleftrightarrow>
    data = Some (rs_data s) \<and> parseEventsQueryRange toDate k = Some (rs_start s, rs_end s) \<and>
    start < rs_end s \<and> rs_start s < endAt \<and> rs_updatedAt s = source_updatedAt qc c k"
  by (cases s) (auto simp: source_of_def split: option.splits)

lemma set_range_sources:
  "s \<in> set (range_sources qc toDate c start endAt) \<longleftrightarrow>
    (\<exists>k. (k, Some (rs_data s)) \<in> set (getQueriesData qc c) \<and>
       parseEventsQueryRange toDate k = Some (rs_start s, rs_end s) \<and> start < rs_end s \<and> rs_start s < endAt \<and>
       rs_updatedAt s = source_updatedAt qc c k)"
  by (auto simp: range_sources_def set_map_filter Bex_def source_of_Some)

text \<open>C25: A range is served from the cache exactly when the loaded ranges cover every instant of it.\<close>

theorem cached_range_iff_covered:
  assumes "start < endAt"
  shows "readCachedEventsForRange qc toDate c start endAt \<noteq> None \<longleftrightarrow>
    (\<forall>t. start \<le> t \<and> t < endAt \<longrightarrow>
      (\<exists>k d s e. (k, Some d) \<in> set (getQueriesData qc c) \<and> parseEventsQueryRange toDate k = Some (s, e) \<and>
         s \<le> t \<and> t < e))"
proof -
  let ?ss = "js_sort compare_starts (range_sources qc toDate c start endAt)"
  have cover: "(\<exists>s \<in> set ?ss. rs_start s \<le> t \<and> t < rs_end s) \<longleftrightarrow>
      (\<exists>k d s e. (k, Some d) \<in> set (getQueriesData qc c) \<and> parseEventsQueryRange toDate k = Some (s, e) \<and>
         s \<le> t \<and> t < e)" (is "?l = ?r") if "start \<le> t" "t < endAt" for t
  proof
    assume ?l
    then obtain s where "s \<in> set (range_sources qc toDate c start endAt)" "rs_start s \<le> t" "t < rs_end s" by auto
    then show ?r unfolding set_range_sources by blast
  next
    assume ?r
    then obtain k d s e where kd: "(k, Some d) \<in> set (getQueriesData qc c)" "parseEventsQueryRange toDate k = Some (s, e)"
      "s \<le> t" "t < e" by blast
    with that have "\<lparr>rs_start = s, rs_end = e, rs_data = d, rs_updatedAt = source_updatedAt qc c k\<rparr> \<in> set ?ss"
      by (auto simp: set_range_sources)
    with kd show ?l by force
  qed
  have "readCachedEventsForRange qc toDate c start endAt \<noteq> None \<longleftrightarrow> endAt \<le> covered_until start ?ss"
    using assms by (auto simp: readCachedEventsForRange_def Let_def)
  also have "\<dots> \<longleftrightarrow> (\<forall>t. start \<le> t \<and> t < endAt \<longrightarrow> (\<exists>s \<in> set ?ss. rs_start s \<le> t \<and> t < rs_end s))"
    using covered_until_sound [of start _ ?ss] covered_until_complete [OF starts.sorted_js_sort, of start endAt]
    by (meson order.strict_trans2)
  finally show ?thesis using cover by auto
qed

text \<open>The event a key keeps comes from the latest source that lists it.\<close>

definition tagged_events :: "int \<Rightarrow> int \<Rightarrow> range_source list \<Rightarrow> (range_source \<times> calendar_event) list" where
  "tagged_events start endAt ss =
     concat (map (\<lambda>s. map (Pair s) (filter (\<lambda>e. eventOverlapsRange e start endAt) (er_events (rs_data s)))) ss)"

lemma events_in_range_tagged: "events_in_range start endAt ss = map snd (tagged_events start endAt ss)"
  by (simp add: events_in_range_def tagged_events_def map_concat filter_concat comp_def)

lemma sorted_tagged:
  assumes "sorted_wrt (\<lambda>a b. compare_recency a b \<le> 0) ss"
  shows "sorted_wrt (\<lambda>a b. rs_updatedAt (fst a) \<le> rs_updatedAt (fst b)) (tagged_events start endAt ss)"
  using assms
  by (induction ss) (auto simp: tagged_events_def sorted_wrt_append sorted_wrt_map compare_recency_def)

lemma latest_tagged:
  assumes "sorted_wrt (\<lambda>a b. u (fst a) \<le> (u (fst b) :: int)) T" "(s, x) \<in> set T"
  shows "\<exists>s'. (s', the (map_of (rev (map (\<lambda>x. (key x, x)) (map snd T))) (key x))) \<in> set T \<and> u s \<le> u s'"
  using assms
proof (induction T rule: rev_induct)
  case (snoc y T)
  obtain s' e where y: "y = (s', e)" by (cases y)
  show ?case
  proof (cases "key e = key x")
    case True
    with snoc.prems y have "u s \<le> u s'" by (auto simp: sorted_wrt_append)
    with True y show ?thesis by (intro exI [of _ s']) simp
  next
    case False
    with snoc y show ?thesis by (auto simp: sorted_wrt_append)
  qed
qed simp

text \<open>A range served from the cache lists every overlapping event of the loaded ranges once, by
  identifier, in the version of a source at least as recent as any other that has it.\<close>

lemma cached_range_freshest:
  assumes "readCachedEventsForRange qc toDate c start endAt = Some (r, updatedAt)"
  shows "distinct (map ce_id (er_events r)) \<and>
    (\<forall>s x. s \<in> set (range_sources qc toDate c start endAt) \<and> x \<in> set (er_events (rs_data s)) \<and>
        eventOverlapsRange x start endAt \<longrightarrow>
      updatedAt \<le> rs_updatedAt s \<and>
      (\<exists>s' y. y \<in> set (er_events r) \<and> ce_id y = ce_id x \<and> s' \<in> set (range_sources qc toDate c start endAt) \<and>
         y \<in> set (er_events (rs_data s')) \<and> rs_updatedAt s \<le> rs_updatedAt s'))"
proof -
  define ss where "ss = js_sort compare_recency (js_sort compare_starts (range_sources qc toDate c start endAt))"
  define T where "T = tagged_events start endAt ss"
  have r: "er_events r = last_by ce_id (map snd T)"
    and upd: "updatedAt = Min (set (map rs_updatedAt (js_sort compare_starts (range_sources qc toDate c start endAt))))"
    using assms
    by (auto simp: readCachedEventsForRange_def Let_def T_def ss_def last_by_fold events_in_range_tagged split: if_splits)
  have members: "(s, x) \<in> set T \<longleftrightarrow> s \<in> set (range_sources qc toDate c start endAt) \<and>
      x \<in> set (er_events (rs_data s)) \<and> eventOverlapsRange x start endAt" for s x
    by (auto simp: T_def tagged_events_def ss_def)
  have sorted: "sorted_wrt (\<lambda>a b. rs_updatedAt (fst a) \<le> rs_updatedAt (fst b)) T"
    unfolding T_def ss_def by (intro sorted_tagged recency.sorted_js_sort)
  have "\<exists>s' y. y \<in> set (er_events r) \<and> ce_id y = ce_id x \<and> s' \<in> set (range_sources qc toDate c start endAt) \<and>
      y \<in> set (er_events (rs_data s')) \<and> rs_updatedAt s \<le> rs_updatedAt s'" if "(s, x) \<in> set T" for s x
  proof -
    let ?y = "the (map_of (rev (map (\<lambda>x. (ce_id x, x)) (map snd T))) (ce_id x))"
    from latest_tagged [OF sorted that, of ce_id] obtain s' where s': "(s', ?y) \<in> set T" "rs_updatedAt s \<le> rs_updatedAt s'"
      by blast
    have x: "ce_id x \<in> ce_id ` set (map snd T)" using that by force
    then have "ce_id ?y = ce_id x" by (rule last_by_lookup) simp
    moreover have "?y \<in> set (er_events r)" using x by (auto simp: r last_by_def)
    ultimately show ?thesis using s' members by blast
  qed
  moreover have "distinct (map ce_id (er_events r))" by (simp add: r keys_last_by)
  moreover have "updatedAt \<le> rs_updatedAt s" if "s \<in> set (range_sources qc toDate c start endAt)" for s
    unfolding upd using that by (intro Min_le) auto
  ultimately show ?thesis using members by blast
qed

section \<open>A query client\<close>

text \<open>Queries in the order of their keys, each with its data, whether it is invalidated and when it
  was updated.\<close>

type_synonym listed_cache = "query_key list \<times> (query_key \<Rightarrow> events_response option \<times> bool \<times> int)"

definition list_client :: "listed_cache query_client" where
  "list_client =
     \<lparr>getQueriesData = (\<lambda>(ks, m). map (\<lambda>k. (k, fst (m k))) (uniq ks)),
      setQueryData = (\<lambda>(ks, m) k f.
        if k \<in> set ks then (ks, m(k := (updated f (fst (m k)), False, snd (snd (m k)) + 1)))
        else (case f None of None \<Rightarrow> (ks, m) | Some d \<Rightarrow> (ks @ [k], m(k := (Some d, False, 1))))),
      getQueryState = (\<lambda>(ks, m) k. if k \<in> set ks then Some (snd (m k)) else None),
      cancelQueries = (\<lambda>c p. c),
      invalidateQueries = (\<lambda>(ks, m) p. (ks, \<lambda>k. if p k then (fst (m k), True, snd (snd (m k))) else m k))\<rparr>"

interpretation listed: query_cache list_client
proof
  fix c :: listed_cache and k f p
  obtain ks m where c: "c = (ks, m)" by (cases c)
  show "distinct (map fst (getQueriesData list_client c))" by (simp add: c list_client_def comp_def)
  show "getQueriesData list_client (cancelQueries list_client c p) = getQueriesData list_client c"
    by (simp add: list_client_def)
  assume "k \<in> fst ` set (getQueriesData list_client c)"
  then show "getQueriesData list_client (setQueryData list_client c k f) = update_at k f (getQueriesData list_client c)"
    by (auto simp: c list_client_def update_at_def)
qed

section \<open>Witnesses\<close>

definition sample_day :: "string \<Rightarrow> int option" where
  "sample_day s = parse_int10 s"

definition meeting :: calendar_event where
  "meeting = \<lparr>ce_id = ''m'', ce_start = Some 5, ce_end = Some 6, ce_recurrence = None, ce_rest = JNull\<rparr>"

definition day_response :: "calendar_event list \<Rightarrow> events_response" where
  "day_response es = \<lparr>er_events = es, er_categories = JNull, er_calendars = JNull\<rparr>"

definition sample_cache :: listed_cache where
  "sample_cache =
     ([[''events'', ''0'', ''10''], [''events'', ''10'', ''20'']],
      \<lambda>k. if k = [''events'', ''0'', ''10''] then (Some (day_response [meeting]), False, 7)
          else (Some (day_response []), True, 9))"

lemma sample_entries:
  "getQueriesData list_client sample_cache =
    [([''events'', ''0'', ''10''], Some (day_response [meeting])), ([''events'', ''10'', ''20''], Some (day_response []))]"
  by (simp add: list_client_def sample_cache_def uniq_def)

lemma sample_ranges:
  "parseEventsQueryRange sample_day [''events'', ''0'', ''10''] = Some (0, 10)"
  "parseEventsQueryRange sample_day [''events'', ''10'', ''20''] = Some (10, 20)"
  by code_simp+

theorem rollback_restores_cache_witness:
  "(case optimisticallyInsertEvent list_client sample_day sample_cache meeting of
     (c', snapshot) \<Rightarrow> getQueriesData list_client (rollbackFromSnapshot list_client c' snapshot)) =
   getQueriesData list_client sample_cache"
  using rollback_restores_cache [OF listed.query_cache_axioms] by blast

lemma commit_replaces_placeholder_witness:
  "\<exists>d'. ([''events'', ''10'', ''20''], Some d') \<in> set (getQueriesData list_client
      (commitOptimisticEvent list_client sample_day sample_cache ''m'' (meeting\<lparr>ce_id := ''s'', ce_start := Some 12, ce_end := Some 13\<rparr>))) \<and>
    filter (\<lambda>e. ce_id e = ''s'') (er_events d') = [meeting\<lparr>ce_id := ''s'', ce_start := Some 12, ce_end := Some 13\<rparr>]"
proof -
  let ?saved = "meeting\<lparr>ce_id := ''s'', ce_start := Some 12, ce_end := Some 13\<rparr>"
  have "([''events'', ''10'', ''20''], Some (day_response [])) \<in> set (getQueriesData list_client sample_cache)"
    by (simp add: sample_entries)
  from commit_replaces_placeholder [OF listed.query_cache_axioms this, of sample_day "''m''" ?saved]
  show ?thesis by (auto simp: overlaps_key_def sample_ranges eventOverlapsRange_def)
qed

lemma patch_moves_between_ranges_witness:
  "\<exists>d'. ([''events'', ''0'', ''10''], Some d') \<in> set (getQueriesData list_client
      (fst (optimisticallyPatchEvent list_client sample_day sample_cache ''m'' (Some 12, Some 13)))) \<and>
    \<not> list_ex (has_id ''m'') (er_events d')"
proof -
  have "findCachedEvent list_client sample_cache ''m'' = Some meeting"
    by (simp add: findCachedEvent_def sample_entries day_response_def has_id_def meeting_def)
  moreover have "([''events'', ''0'', ''10''], Some (day_response [meeting])) \<in> set (getQueriesData list_client sample_cache)"
    by (simp add: sample_entries)
  ultimately show ?thesis
    using patch_moves_between_ranges [OF listed.query_cache_axioms _ _ sample_ranges(1), of sample_cache "''m''" meeting
        "day_response [meeting]" "(Some 12, Some 13)"]
    by (auto simp: eventOverlapsRange_def)
qed

theorem cached_range_iff_covered_witness:
  "readCachedEventsForRange list_client sample_day sample_cache 3 25 = None"
proof (rule ccontr)
  assume "readCachedEventsForRange list_client sample_day sample_cache 3 25 \<noteq> None"
  with cached_range_iff_covered [of 3 25 list_client sample_day sample_cache] show False
    by (auto simp: sample_entries sample_ranges dest!: spec [of _ 22])
qed

lemma cached_range_freshest_witness:
  "\<exists>r. readCachedEventsForRange list_client sample_day sample_cache 3 15 = Some (r, 0) \<and>
    distinct (map ce_id (er_events r)) \<and> er_events r = [meeting]"
proof -
  have r: "readCachedEventsForRange list_client sample_day sample_cache 3 15 = Some (day_response [meeting], 0)"
    by code_simp
  from cached_range_freshest [OF r] r show ?thesis by (auto simp: day_response_def)
qed

end
