(* ===== verification/MailAddresses.thy ===== *)
theory MailAddresses
  imports JsValue JsMap
begin

text \<open>
  Mail addresses, \<open>packages/calendar-core/src/mail-addresses.ts\<close>: parsing and validating
  recipients, machine and reserved addresses, the domain test behind outgoing encryption, and
  the recipients of a reply.
\<close>

section \<open>Parsing\<close>

record parsed_mail_address =
  pa_email :: string
  pa_name :: "string option"

definition AT :: char where "AT = CHR ''@''"
definition LESS :: char where "LESS = CHR ''<''"
definition GREATER :: char where "GREATER = CHR ''>''"

text \<open>The pattern: one \<open>@\<close>, no white space, and a dot inside the domain.\<close>

definition EMAIL_PATTERN :: "string \<Rightarrow> bool" where
  "EMAIL_PATTERN s \<longleftrightarrow>
     (case split_on AT s of
        [local, domain] \<Rightarrow> local \<noteq> [] \<and> list_all (\<lambda>c. \<not> is_ws c) (local @ domain) \<and>
          CHR ''.'' \<in> set (butlast (tl domain))
      | _ \<Rightarrow> False)"

definition normalizeEmailAddress :: "string \<Rightarrow> string" where
  "normalizeEmailAddress value = to_lower (trim value)"

text \<open>\<open>match(/^([^<]+)<([^<>]+)>$/)\<close>: the name and the address between the brackets.\<close>

definition angle_match :: "string \<Rightarrow> (string \<times> string) option" where
  "angle_match s =
     (let name = takeWhile (\<lambda>c. c \<noteq> LESS) s; rest = dropWhile (\<lambda>c. c \<noteq> LESS) s; body = butlast (tl rest)
      in if name \<noteq> [] \<and> 2 \<le> length rest \<and> last rest = GREATER \<and> body \<noteq> [] \<and>
            LESS \<notin> set body \<and> GREATER \<notin> set body
         then Some (name, body) else None)"

definition parseRecipientString :: "string \<Rightarrow> parsed_mail_address" where
  "parseRecipientString value =
     (let trimmed = trim value in
      case angle_match trimmed of
        Some (n, e) \<Rightarrow>
          let name = trim n; email = normalizeEmailAddress e
          in \<lparr>pa_email = email, pa_name = (if name \<noteq> [] then Some name else None)\<rparr>
      | None \<Rightarrow> \<lparr>pa_email = normalizeEmailAddress trimmed, pa_name = None\<rparr>)"

text \<open>\<open>split(/[,;]+/)\<close>; the empty pieces between two separators are dropped with the blank ones.\<close>

definition splitRecipientList :: "string \<Rightarrow> string list" where
  "splitRecipientList raw =
     filter (\<lambda>e. e \<noteq> []) (map trim (split_on (CHR '','') (map (\<lambda>c. if c = CHR '';'' then CHR '','' else c) raw)))"

fun parse_address_loop :: "string list \<Rightarrow> string list \<Rightarrow> parsed_mail_address list" where
  "parse_address_loop seen [] = []"
| "parse_address_loop seen (token # tokens) =
     (let parsed = parseRecipientString token in
      if pa_email parsed = [] \<or> pa_email parsed \<in> set seen then parse_address_loop seen tokens
      else parsed # parse_address_loop (pa_email parsed # seen) tokens)"

definition parseAddressList :: "string \<Rightarrow> parsed_mail_address list" where
  "parseAddressList raw = parse_address_loop [] (splitRecipientList raw)"

definition isValidEmailAddress :: "string \<Rightarrow> bool" where
  "isValidEmailAddress value = EMAIL_PATTERN (pa_email (parseRecipientString value))"

section \<open>Machine and reserved addresses\<close>

definition RESERVED_SYSTEM_LOCAL_PARTS :: "string list" where
  "RESERVED_SYSTEM_LOCAL_PARTS =
     [''admin'', ''administrator'', ''root'', ''postmaster'', ''hostmaster'', ''abuse'', ''noreply'',
      ''no-reply'', ''no_reply'', ''donotreply'', ''do-not-reply'', ''do_not_reply'', ''mailer-daemon'',
      ''mailerdaemon'', ''alert'', ''alerts'', ''system'', ''security'']"

definition AUTOMATED_LOCAL_PARTS :: "string list" where
  "AUTOMATED_LOCAL_PARTS =
     [''admin'', ''administrator'', ''root'', ''system'', ''security'', ''hostmaster'', ''abuse'', ''noreply'',
      ''no-reply'', ''no_reply'', ''donotreply'', ''do-not-reply'', ''do_not_reply'', ''mailer-daemon'',
      ''mailerdaemon'', ''postmaster'', ''bounce'', ''bounces'', ''notifications'', ''notification'', ''notify'',
      ''alerts'', ''alert'']"

text \<open>\<open>(local.split("+")[0]).replace(/[._]/g, "-")\<close>.\<close>

definition base_local :: "string \<Rightarrow> string" where
  "base_local loc =
     map (\<lambda>c. if c = CHR ''.'' \<or> c = CHR ''_'' then CHR ''-'' else c) (takeWhile (\<lambda>c. c \<noteq> CHR ''+'') loc)"

definition isAutomatedMailAddress :: "string \<Rightarrow> bool" where
  "isAutomatedMailAddress value =
     (let email = normalizeEmailAddress (pa_email (parseRecipientString value));
          loc = takeWhile (\<lambda>c. c \<noteq> AT) email; base = base_local loc
      in if base = [] then False
         else if base \<in> set AUTOMATED_LOCAL_PARTS \<or> loc \<in> set AUTOMATED_LOCAL_PARTS then True
         else str_includes base ''noreply'' \<or> str_includes base ''no-reply'')"

text \<open>\<open>s.lastIndexOf(c)\<close> as the parts before and after it; \<open>None\<close> for \<open>-1\<close>.\<close>

definition split_last :: "char \<Rightarrow> string \<Rightarrow> (string \<times> string) option" where
  "split_last c s =
     (if c \<in> set s then
        let after = rev (takeWhile (\<lambda>x. x \<noteq> c) (rev s))
        in Some (take (length s - length after - 1) s, after)
      else None)"

definition ends_with :: "string \<Rightarrow> string \<Rightarrow> bool" where
  "ends_with s p \<longleftrightarrow> length p \<le> length s \<and> drop (length s - length p) s = p"

definition in_domain :: "string \<Rightarrow> string \<Rightarrow> bool" where
  "in_domain domain d \<longleftrightarrow> domain = d \<or> ends_with domain (CHR ''.'' # d)"

definition isReservedSystemEmail :: "string \<Rightarrow> string option \<Rightarrow> bool" where
  "isReservedSystemEmail value systemDomain =
     (if value = [] then False
      else let normalized = normalizeEmailAddress (pa_email (parseRecipientString value)) in
        if normalized = [] then False
        else case split_last AT normalized of
          None \<Rightarrow> False
        | Some (loc, domain) \<Rightarrow>
            if loc = [] then False
            else let baseLocal = base_local loc;
                     configuredDomain = to_lower (trim (case systemDomain of None \<Rightarrow> [] | Some d \<Rightarrow> d));
                     isSystemDomain = in_domain domain (if configuredDomain = [] then ''solace.onl'' else configuredDomain)
                 in if normalized = ''admin@solace.onl'' \<or> (baseLocal = ''admin'' \<and> in_domain domain ''solace.onl'') then True
                    else if isSystemDomain \<and>
                        (baseLocal \<in> set RESERVED_SYSTEM_LOCAL_PARTS \<or> loc \<in> set RESERVED_SYSTEM_LOCAL_PARTS) then True
                    else baseLocal \<in> {''admin'', ''postmaster'', ''mailer-daemon'', ''mailerdaemon'', ''noreply'', ''no-reply'', ''root''})"

section \<open>Composing\<close>

record compose_errors =
  er_to :: "string option"
  er_subject :: "string option"
  er_recipients :: "string option"

record compose_recipient_validation =
  cv_to :: "parsed_mail_address list"
  cv_cc :: "parsed_mail_address list"
  cv_bcc :: "parsed_mail_address list"
  cv_errors :: compose_errors

definition address_label :: "parsed_mail_address \<Rightarrow> string" where
  "address_label a =
     (case pa_name a of
        Some n \<Rightarrow> if n \<noteq> [] then n @ '' <'' @ pa_email a @ ''>'' else pa_email a
      | None \<Rightarrow> pa_email a)"

definition text_of :: "string option \<Rightarrow> string" where
  "text_of v = (case v of None \<Rightarrow> [] | Some s \<Rightarrow> s)"

definition validateComposeRecipients ::
  "string \<Rightarrow> string option \<Rightarrow> string option \<Rightarrow> string option \<Rightarrow> compose_recipient_validation" where
  "validateComposeRecipients toText ccText bccText subject =
     (let to' = parseAddressList toText; cc = parseAddressList (text_of ccText); bcc = parseAddressList (text_of bccText);
          invalid = filter (\<lambda>a. \<not> EMAIL_PATTERN (pa_email a)) (to' @ cc @ bcc)
      in \<lparr>cv_to = to', cv_cc = cc, cv_bcc = bcc,
          cv_errors = \<lparr>
            er_to = (if to' = [] then Some ''Enter at least one recipient email address.'' else None),
            er_subject = (case subject of
               Some s \<Rightarrow> if trim s = [] then Some ''Enter a subject line.'' else None | None \<Rightarrow> None),
            er_recipients = (case invalid of [] \<Rightarrow> None | a # _ \<Rightarrow> Some (''Invalid email address: '' @ address_label a))\<rparr>\<rparr>)"

definition canSendCompose :: "string \<Rightarrow> string option \<Rightarrow> string option \<Rightarrow> string \<Rightarrow> string \<Rightarrow> int \<Rightarrow> bool" where
  "canSendCompose toText ccText bccText subject bodyText attachmentCount =
     (let v = validateComposeRecipients toText ccText bccText (Some subject); errors = cv_errors v;
          hasContent = (trim bodyText \<noteq> [] \<or> attachmentCount > 0)
      in cv_to v \<noteq> [] \<and> er_to errors = None \<and> er_recipients errors = None \<and> er_subject errors = None \<and> hasContent)"

definition parsedAddressesToEmails :: "parsed_mail_address list \<Rightarrow> string list" where
  "parsedAddressesToEmails addresses = map pa_email addresses"

section \<open>Domains and encryption\<close>

definition getEmailDomain :: "string \<Rightarrow> string option" where
  "getEmailDomain value =
     (case split_last AT (normalizeEmailAddress (pa_email (parseRecipientString value))) of
        None \<Rightarrow> None
      | Some (loc, domain) \<Rightarrow> if loc = [] \<or> domain = [] then None else Some domain)"

definition resolveEncryptionInternalDomain :: "string option \<Rightarrow> string option" where
  "resolveEncryptionInternalDomain defaultDomain =
     (let configured = to_lower (trim (text_of defaultDomain)) in if configured = [] then None else Some configured)"

definition shouldEncryptOutgoingMail :: "string list \<Rightarrow> string option \<Rightarrow> bool" where
  "shouldEncryptOutgoingMail recipients internalDomain =
     (let domain = to_lower (trim (text_of internalDomain)) in
      if domain = [] \<or> recipients = [] then False
      else list_all (\<lambda>recipient. getEmailDomain recipient = Some domain) recipients)"

definition isStalwartEncryptOnAppendEnabled :: "jsval \<Rightarrow> bool" where
  "isStalwartEncryptOnAppendEnabled accountSettings =
     (let encryptionAtRest = js_get accountSettings ''encryptionAtRest'' in
      if \<not> is_object encryptionAtRest then False
      else js_get encryptionAtRest ''encryptOnAppend'' = JBool True)"

section \<open>Replies\<close>

type_synonym reply_address = "string option"

record reply_recipients_input =
  ri_from :: "reply_address list"
  ri_replyTo :: "reply_address list"
  ri_to :: "reply_address list"
  ri_cc :: "reply_address list"
  ri_currentUserEmail :: "string option"
  ri_identityEmails :: "string list"
  ri_excludeEmails :: "string list"

definition self_emails :: "reply_recipients_input \<Rightarrow> string list" where
  "self_emails input =
     map normalizeEmailAddress
       (filter (\<lambda>e. trim e \<noteq> []) (List.map_filter (\<lambda>e. e) (ri_currentUserEmail input # map Some (ri_identityEmails input))))"

definition excluded_emails :: "reply_recipients_input \<Rightarrow> string list" where
  "excluded_emails input = self_emails input @ map normalizeEmailAddress (ri_excludeEmails input)"

fun collect_loop :: "string list \<Rightarrow> string list \<Rightarrow> reply_address list \<Rightarrow> string list" where
  "collect_loop excluded seen [] = []"
| "collect_loop excluded seen (entry # entries) =
     (let email = trim (text_of entry) in
      if email = [] then collect_loop excluded seen entries
      else let normalized = normalizeEmailAddress email in
        if normalized \<in> set excluded \<or> normalized \<in> set seen then collect_loop excluded seen entries
        else normalized # collect_loop excluded (normalized # seen) entries)"

definition reply_collect :: "reply_recipients_input \<Rightarrow> reply_address list list \<Rightarrow> string list" where
  "reply_collect input entries = collect_loop (excluded_emails input) [] (concat entries)"

definition sent_by_user :: "reply_recipients_input \<Rightarrow> bool" where
  "sent_by_user input \<longleftrightarrow>
     list_ex (\<lambda>entry. trim (text_of entry) \<noteq> [] \<and> normalizeEmailAddress (text_of entry) \<in> set (self_emails input))
       (ri_from input)"

definition senderTargets :: "reply_recipients_input \<Rightarrow> string list" where
  "senderTargets input =
     (if sent_by_user input then []
      else let replyTo = reply_collect input [ri_replyTo input]
           in if replyTo \<noteq> [] then replyTo else reply_collect input [ri_from input])"

definition resolveReplyRecipients :: "reply_recipients_input \<Rightarrow> string list" where
  "resolveReplyRecipients input =
     (let targets = senderTargets input
      in if targets \<noteq> [] then targets else reply_collect input [ri_to input, ri_cc input])"

record reply_all_recipients =
  ra_to :: "string list"
  ra_cc :: "string list"

definition resolveReplyAllRecipients :: "reply_recipients_input \<Rightarrow> reply_all_recipients" where
  "resolveReplyAllRecipients input =
     (let targets = senderTargets input;
          to' = (if targets \<noteq> [] then targets else reply_collect input [ri_to input]);
          cc = filter (\<lambda>email. email \<notin> set to')
                 (reply_collect input (if targets \<noteq> [] then [ri_to input, ri_cc input] else [ri_cc input]))
      in \<lparr>ra_to = to', ra_cc = cc\<rparr>)"

section \<open>Normalised addresses\<close>

lemma is_ws_to_lower_char: "is_ws (to_lower_char c) = is_ws c"
  by (auto simp: is_ws_def to_lower_char_def Let_def)

lemma to_lower_to_lower [simp]: "to_lower (to_lower s) = to_lower s"
  by (simp add: to_lower_def to_lower_char_idem)

lemma dropWhile_to_lower: "dropWhile is_ws (to_lower s) = to_lower (dropWhile is_ws s)"
  by (simp add: to_lower_def dropWhile_map comp_def is_ws_to_lower_char)

lemma trim_to_lower: "trim (to_lower s) = to_lower (trim s)"
proof -
  have r: "rev (to_lower t) = to_lower (rev t)" for t by (simp add: to_lower_def rev_map)
  show ?thesis unfolding trim_def dropWhile_to_lower r dropWhile_to_lower ..
qed

lemma normalize_idem [simp]: "normalizeEmailAddress (normalizeEmailAddress v) = normalizeEmailAddress v"
  by (simp add: normalizeEmailAddress_def trim_to_lower)

lemma parsed_email_normal [simp]:
  "normalizeEmailAddress (pa_email (parseRecipientString v)) = pa_email (parseRecipientString v)"
  by (simp add: parseRecipientString_def Let_def split: option.splits prod.splits)

lemma split_last_Some: "split_last c s = Some (a, b) \<longleftrightarrow> s = a @ c # b \<and> c \<notin> set b"
proof
  assume l: "split_last c s = Some (a, b)"
  then have c: "c \<in> set (rev s)" and b: "b = rev (takeWhile (\<lambda>x. x \<noteq> c) (rev s))"
    and a: "a = take (length s - length b - 1) s"
    by (auto simp: split_last_def Let_def split: if_splits)
  from c obtain p q where pq: "rev s = p @ c # q" "c \<notin> set p" by (metis split_list_first)
  then have "takeWhile (\<lambda>x. x \<noteq> c) (rev s) = p" by (simp add: takeWhile_append)
  with pq b have "s = rev q @ c # b" "c \<notin> set b" by (auto simp: rev_swap)
  with a show "s = a @ c # b \<and> c \<notin> set b" by simp
next
  assume "s = a @ c # b \<and> c \<notin> set b"
  then have s: "s = a @ c # b" "c \<notin> set (rev b)" by auto
  then have "takeWhile (\<lambda>x. x \<noteq> c) (rev s) = rev b" by (simp add: takeWhile_append)
  with s(1) show "split_last c s = Some (a, b)" by (simp add: split_last_def)
qed

lemma getEmailDomain_Some:
  "getEmailDomain v = Some d \<longleftrightarrow>
    d \<noteq> [] \<and> AT \<notin> set d \<and> (\<exists>loc. loc \<noteq> [] \<and> pa_email (parseRecipientString v) = loc @ AT # d)"
  (is "?l = ?r")
proof
  assume ?l
  then show ?r by (auto simp: getEmailDomain_def split_last_Some split: option.splits if_splits)
next
  assume ?r
  then obtain loc where "loc \<noteq> []" "d \<noteq> []" "split_last AT (pa_email (parseRecipientString v)) = Some (loc, d)"
    using split_last_Some by metis
  then show ?l by (simp add: getEmailDomain_def)
qed

text \<open>C26: The decision to encrypt agrees with the envelope: mail is encrypted exactly when there is an
  internal domain and every address the message is sent to is a mailbox of that very domain.\<close>

theorem encrypts_iff_all_internal:
  "shouldEncryptOutgoingMail recipients internalDomain \<longleftrightarrow>
    (\<exists>domain. resolveEncryptionInternalDomain internalDomain = Some domain \<and> AT \<notin> set domain) \<and> recipients \<noteq> [] \<and>
    list_all (\<lambda>r. \<exists>loc. loc \<noteq> [] \<and>
      pa_email (parseRecipientString r) = loc @ AT # the (resolveEncryptionInternalDomain internalDomain)) recipients"
proof (cases "to_lower (trim (text_of internalDomain)) = [] \<or> recipients = []")
  case True
  then show ?thesis by (auto simp: shouldEncryptOutgoingMail_def resolveEncryptionInternalDomain_def Let_def)
next
  case False
  then obtain r where "r \<in> set recipients" by (cases recipients) auto
  with False show ?thesis
    by (auto simp: shouldEncryptOutgoingMail_def resolveEncryptionInternalDomain_def Let_def list_all_iff getEmailDomain_Some)
qed

section \<open>Lists of addresses\<close>

lemma parse_address_loop_spec:
  "distinct (map pa_email (parse_address_loop seen ts)) \<and>
   pa_email ` set (parse_address_loop seen ts) = pa_email ` parseRecipientString ` set ts - insert [] (set seen)"
  by (induction ts arbitrary: seen) (auto simp: Let_def)

text \<open>What the reply code collects: the nonblank addresses that are not excluded, each once.\<close>

definition address_set :: "reply_address list \<Rightarrow> string set" where
  "address_set entries = normalizeEmailAddress ` {e. Some e \<in> set entries \<and> trim e \<noteq> []}"

lemma normalize_trim: "normalizeEmailAddress (trim e) = normalizeEmailAddress e"
  by (simp add: normalizeEmailAddress_def)

lemma address_set_simps [simp]:
  "address_set [] = {}" "address_set (None # es) = address_set es"
  "address_set (Some e # es) = (if trim e = [] then address_set es else insert (normalizeEmailAddress e) (address_set es))"
  "address_set (xs @ ys) = address_set xs \<union> address_set ys"
  by (auto simp: address_set_def)

lemma trim_Nil [simp]: "trim [] = []"
  by (simp add: trim_def)

lemma collect_loop_spec:
  "distinct (collect_loop excluded seen es) \<and>
   set (collect_loop excluded seen es) = address_set es - set excluded - set seen"
proof (induction es arbitrary: seen)
  case (Cons e es)
  then show ?case
    by (cases e) (auto simp: Let_def text_of_def normalize_trim)
qed simp

lemma reply_collect_spec [simp]:
  "distinct (reply_collect input groups)"
  "set (reply_collect input groups) = address_set (concat groups) - set (excluded_emails input)"
  using collect_loop_spec by (simp_all add: reply_collect_def)

lemma senderTargets_spec:
  "distinct (senderTargets input)" "set (senderTargets input) \<inter> set (excluded_emails input) = {}"
  by (auto simp: senderTargets_def Let_def)

text \<open>Reply all addresses everyone once: no address is in To and Cc, none is the user's own or
  excluded, and everyone in To and Cc of the message is reached.\<close>

lemma reply_all_reaches_everyone_once:
  "distinct (ra_to (resolveReplyAllRecipients input) @ ra_cc (resolveReplyAllRecipients input)) \<and>
   set (ra_to (resolveReplyAllRecipients input)) \<union> set (ra_cc (resolveReplyAllRecipients input)) =
     set (senderTargets input) \<union> (address_set (ri_to input @ ri_cc input) - set (excluded_emails input)) \<and>
   (set (ra_to (resolveReplyAllRecipients input)) \<union> set (ra_cc (resolveReplyAllRecipients input))) \<inter>
     set (excluded_emails input) = {}"
  using senderTargets_spec [of input]
  by (auto simp: resolveReplyAllRecipients_def Let_def)

text \<open>The targets of a reply.\<close>

lemma reply_targets:
  "\<not> sent_by_user input \<Longrightarrow> set (senderTargets input) =
    (if address_set (ri_replyTo input) \<subseteq> set (excluded_emails input)
     then address_set (ri_from input) else address_set (ri_replyTo input)) - set (excluded_emails input)"
proof -
  assume "\<not> sent_by_user input"
  moreover have "reply_collect input [ri_replyTo input] = [] \<longleftrightarrow> address_set (ri_replyTo input) \<subseteq> set (excluded_emails input)"
    using reply_collect_spec(2) [of input "[ri_replyTo input]"] by (metis Diff_eq_empty_iff concat.simps append_Nil2 set_empty)
  ultimately show ?thesis by (simp add: senderTargets_def Let_def)
qed

end
