(* ===== verification/RecentContacts.thy ===== *)
theory RecentContacts
  imports MailAddresses
begin

text \<open>
  Recent contacts, \<open>packages/calendar-core/src/recent-contacts.ts\<close>: the record of the people a
  user writes to or invites, and the recipient suggestions made from it.

  \<open>localeCompare\<close> is the argument \<open>lc\<close>; where an order matters, it is assumed to be a total
  preorder (the locale \<open>js_comparator\<close>). Times are ISO texts. The current time is an argument.
\<close>

section \<open>Data\<close>

datatype contact_context = Mail_context | Calendar_context

record recent_contact_entry =
  rc_email :: string
  rc_displayName :: "string option"
  rc_phone :: "string option"
  rc_notes :: "string option"
  rc_manual :: "bool option"
  rc_lastUsedAt :: string
  rc_useCount :: int
  rc_contexts :: "contact_context list"

text \<open>The payload's constant \<open>version\<close> is left out.\<close>

type_synonym contacts_payload = "recent_contact_entry list"

record contact_details_patch =
  cp_displayName :: "string option"
  cp_phone :: "string option"
  cp_notes :: "string option"

record manual_contact_input =
  mc_email :: string
  mc_displayName :: "string option"
  mc_phone :: "string option"
  mc_notes :: "string option"

type_synonym usage_input = "string \<times> string option"

definition MAX_RECENT_CONTACTS :: nat where
  "MAX_RECENT_CONTACTS = 150"

section \<open>Fields\<close>

definition formatRecentContactForField :: "recent_contact_entry \<Rightarrow> string" where
  "formatRecentContactForField entry =
     (let name = trim (text_of (rc_displayName entry)) in
      if name \<noteq> [] \<and> to_lower name \<noteq> rc_email entry then name @ '' <'' @ rc_email entry @ ''>''
      else rc_email entry)"

text \<open>The text up to the last comma or semicolon, with it.\<close>

definition recipient_prefix :: "string \<Rightarrow> string" where
  "recipient_prefix s = rev (dropWhile (\<lambda>c. c \<noteq> CHR '','' \<and> c \<noteq> CHR '';'') (rev s))"

definition insertRecipientSuggestion :: "string \<Rightarrow> string \<Rightarrow> bool \<Rightarrow> string" where
  "insertRecipientSuggestion currentValue suggestion appendSeparator =
     (let upto = recipient_prefix currentValue;
          pre = (if upto \<noteq> [] then upto @ '' '' else []);
          combined = pre @ suggestion
      in if appendSeparator then combined @ '', '' else combined)"

definition normalizeUsageInput :: "usage_input \<Rightarrow> usage_input option" where
  "normalizeUsageInput input =
     (let email = normalizeEmailAddress (fst input) in
      if email = [] \<or> isAutomatedMailAddress email \<or> isReservedSystemEmail email None then None
      else let displayName = trim (text_of (snd input))
           in Some (email, if displayName \<noteq> [] then Some displayName else None))"

definition is_person :: "recent_contact_entry \<Rightarrow> bool" where
  "is_person entry \<longleftrightarrow> \<not> isAutomatedMailAddress (rc_email entry) \<and> \<not> isReservedSystemEmail (rc_email entry) None"

definition peopleContacts :: "recent_contact_entry list \<Rightarrow> recent_contact_entry list" where
  "peopleContacts contacts = filter is_person contacts"

definition sanitizeRecentContactsPayload :: "contacts_payload \<Rightarrow> contacts_payload" where
  "sanitizeRecentContactsPayload payload =
     (let contacts = peopleContacts payload
      in if length contacts = length payload then payload else contacts)"

definition mergeContactEntry ::
  "recent_contact_entry option \<Rightarrow> usage_input \<Rightarrow> contact_context \<Rightarrow> string \<Rightarrow> recent_contact_entry" where
  "mergeContactEntry existing input context' usedAt =
     (let contexts = (case existing of None \<Rightarrow> [] | Some x \<Rightarrow> rc_contexts x) in
      \<lparr>rc_email = fst input,
       rc_displayName = (case snd input of Some n \<Rightarrow> Some n | None \<Rightarrow> Option.bind existing rc_displayName),
       rc_phone = Option.bind existing rc_phone,
       rc_notes = Option.bind existing rc_notes,
       rc_manual = Option.bind existing rc_manual,
       rc_lastUsedAt = usedAt,
       rc_useCount = (case existing of None \<Rightarrow> 0 | Some x \<Rightarrow> rc_useCount x) + 1,
       rc_contexts = (if context' \<in> set contexts then contexts else contexts @ [context'])\<rparr>)"

definition trimOptionalField :: "string option \<Rightarrow> string option" where
  "trimOptionalField value = (let trimmed = trim (text_of value) in if trimmed = [] then None else Some trimmed)"

section \<open>Changing the record\<close>

definition updateContactDetails :: "contacts_payload \<Rightarrow> string \<Rightarrow> contact_details_patch \<Rightarrow> contacts_payload" where
  "updateContactDetails payload email patch =
     (let normalized = normalizeEmailAddress email in
      if normalized = [] then payload
      else case find_index (\<lambda>contact. rc_email contact = normalized) payload of
        None \<Rightarrow> payload
      | Some index \<Rightarrow>
          let existing = payload ! index;
              set' = (\<lambda>p old. if p = None then old else trimOptionalField p)
          in payload[index := existing\<lparr>rc_manual := Some True,
               rc_displayName := set' (cp_displayName patch) (rc_displayName existing),
               rc_phone := set' (cp_phone patch) (rc_phone existing),
               rc_notes := set' (cp_notes patch) (rc_notes existing)\<rparr>])"

definition removeContact :: "contacts_payload \<Rightarrow> string \<Rightarrow> contacts_payload" where
  "removeContact payload email =
     (let normalized = normalizeEmailAddress email in
      if normalized = [] then payload else filter (\<lambda>contact. rc_email contact \<noteq> normalized) payload)"

definition by_recency :: "(string \<Rightarrow> string \<Rightarrow> int) \<Rightarrow> recent_contact_entry \<Rightarrow> recent_contact_entry \<Rightarrow> int" where
  "by_recency lc a b = lc (rc_lastUsedAt b) (rc_lastUsedAt a)"

definition or_existing :: "'a option \<Rightarrow> 'a option \<Rightarrow> 'a option" where
  "or_existing a b = (case a of Some x \<Rightarrow> Some x | None \<Rightarrow> b)"

definition manual_entry ::
  "string \<Rightarrow> recent_contact_entry option \<Rightarrow> manual_contact_input \<Rightarrow> string \<Rightarrow> recent_contact_entry" where
  "manual_entry email existing input addedAt =
     \<lparr>rc_email = email,
      rc_displayName = or_existing (trimOptionalField (mc_displayName input)) (Option.bind existing rc_displayName),
      rc_phone = or_existing (trimOptionalField (mc_phone input)) (Option.bind existing rc_phone),
      rc_notes = or_existing (trimOptionalField (mc_notes input)) (Option.bind existing rc_notes),
      rc_manual = Some True,
      rc_lastUsedAt = (case existing of None \<Rightarrow> addedAt | Some x \<Rightarrow> rc_lastUsedAt x),
      rc_useCount = (case existing of None \<Rightarrow> 0 | Some x \<Rightarrow> rc_useCount x),
      rc_contexts = (case existing of None \<Rightarrow> [] | Some x \<Rightarrow> rc_contexts x)\<rparr>"

definition addManualContact ::
  "(string \<Rightarrow> string \<Rightarrow> int) \<Rightarrow> contacts_payload option \<Rightarrow> manual_contact_input \<Rightarrow> string \<Rightarrow> contacts_payload option" where
  "addManualContact lc payload input addedAt =
     (let email = normalizeEmailAddress (mc_email input) in
      if email = [] \<or> isAutomatedMailAddress email then payload
      else let base = (case payload of None \<Rightarrow> [] | Some p \<Rightarrow> p);
               existing = find (\<lambda>contact. rc_email contact = email) base;
               without = filter (\<lambda>contact. rc_email contact \<noteq> email) base
           in Some (take MAX_RECENT_CONTACTS
                (js_sort (by_recency lc) (manual_entry email existing input addedAt # without))))"

fun usage_loop ::
  "contact_context \<Rightarrow> string \<Rightarrow> usage_input list \<Rightarrow> (string \<times> recent_contact_entry) list \<Rightarrow>
   (string \<times> recent_contact_entry) list" where
  "usage_loop context' usedAt [] byEmail = byEmail"
| "usage_loop context' usedAt (raw # entries) byEmail =
     (case normalizeUsageInput raw of
        None \<Rightarrow> usage_loop context' usedAt entries byEmail
      | Some input \<Rightarrow>
          usage_loop context' usedAt entries
            (map_set (fst input) (mergeContactEntry (map_of byEmail (fst input)) input context' usedAt) byEmail))"

definition contacts_map :: "recent_contact_entry list \<Rightarrow> (string \<times> recent_contact_entry) list" where
  "contacts_map contacts = fold (\<lambda>c. map_set (rc_email c) c) contacts []"

definition recordRecentContactUsage ::
  "(string \<Rightarrow> string \<Rightarrow> int) \<Rightarrow> contacts_payload option \<Rightarrow> usage_input list \<Rightarrow> contact_context \<Rightarrow> string \<Rightarrow> contacts_payload" where
  "recordRecentContactUsage lc payload entries context' usedAt =
     (let base = (case payload of None \<Rightarrow> [] | Some p \<Rightarrow> p);
          byEmail = usage_loop context' usedAt entries (contacts_map base)
      in take MAX_RECENT_CONTACTS (js_sort (by_recency lc) (peopleContacts (map snd byEmail))))"

section \<open>Searching\<close>

definition field_matches :: "(string \<Rightarrow> string \<Rightarrow> bool) \<Rightarrow> string option \<Rightarrow> string \<Rightarrow> bool" where
  "field_matches test field query = (case field of None \<Rightarrow> False | Some f \<Rightarrow> test (to_lower (trim f)) query)"

definition contactMatchesListQuery :: "recent_contact_entry \<Rightarrow> string \<Rightarrow> bool" where
  "contactMatchesListQuery entry query =
     (let normalized = to_lower (trim query) in
      normalized = [] \<or> str_includes (rc_email entry) normalized \<or>
      field_matches str_includes (rc_displayName entry) normalized \<or>
      field_matches str_includes (rc_phone entry) normalized \<or>
      field_matches str_includes (rc_notes entry) normalized)"

definition by_name :: "(string \<Rightarrow> string \<Rightarrow> int) \<Rightarrow> recent_contact_entry \<Rightarrow> recent_contact_entry \<Rightarrow> int" where
  "by_name lc a b =
     (let name = (\<lambda>x. to_lower (case rc_displayName x of Some n \<Rightarrow> n | None \<Rightarrow> rc_email x));
          byName = lc (name a) (name b)
      in if byName \<noteq> 0 then byName else lc (rc_lastUsedAt b) (rc_lastUsedAt a))"

definition filterContactsList ::
  "(string \<Rightarrow> string \<Rightarrow> int) \<Rightarrow> contacts_payload option \<Rightarrow> string \<Rightarrow> recent_contact_entry list" where
  "filterContactsList lc payload query =
     (case payload of
        None \<Rightarrow> []
      | Some contacts \<Rightarrow>
          js_sort (by_name lc) (filter (\<lambda>entry. contactMatchesListQuery entry query) (peopleContacts contacts)))"

definition getContactDisplayLabel :: "recent_contact_entry \<Rightarrow> string" where
  "getContactDisplayLabel entry =
     (let name = trim (text_of (rc_displayName entry)) in if name \<noteq> [] then name else rc_email entry)"

definition formatContactContextSummary :: "recent_contact_entry \<Rightarrow> string option" where
  "formatContactContextSummary entry =
     (if rc_contexts entry = [] then
        (if rc_manual entry = Some True then Some ''Added manually'' else None)
      else let parts = (if Mail_context \<in> set (rc_contexts entry) then [''mail''] else []) @
                       (if Calendar_context \<in> set (rc_contexts entry) then [''calendar''] else [])
           in if parts = [] then None else Some (''From '' @ join_with '' & '' parts))"

definition matchesQuery :: "recent_contact_entry \<Rightarrow> string \<Rightarrow> bool" where
  "matchesQuery entry query =
     (let normalized = to_lower (trim query) in
      normalized = [] \<or> starts_with (rc_email entry) normalized \<or>
      field_matches starts_with (rc_displayName entry) normalized \<or>
      field_matches starts_with (rc_phone entry) normalized)"

definition filterRecentContactSuggestions ::
  "(string \<Rightarrow> string \<Rightarrow> int) \<Rightarrow> contacts_payload option \<Rightarrow> string \<Rightarrow> string list \<Rightarrow> nat \<Rightarrow> recent_contact_entry list" where
  "filterRecentContactSuggestions lc payload query excludeEmails limit =
     (case payload of
        None \<Rightarrow> []
      | Some contacts \<Rightarrow>
          let exclude = map normalizeEmailAddress excludeEmails
          in take limit (js_sort (by_recency lc)
               (filter (\<lambda>entry. matchesQuery entry query)
                 (filter (\<lambda>entry. rc_email entry \<notin> set exclude) (peopleContacts contacts)))))"

definition resolveRecipientSuggestions ::
  "(string \<Rightarrow> string \<Rightarrow> int) \<Rightarrow> contacts_payload option \<Rightarrow> string \<Rightarrow> string list \<Rightarrow> nat option \<Rightarrow> recent_contact_entry list" where
  "resolveRecipientSuggestions lc payload query0 excludeEmails limit0 =
     (let query = trim query0;
          limit = (case limit0 of Some n \<Rightarrow> n | None \<Rightarrow> if query \<noteq> [] then 8 else 12);
          prefixMatches = filterRecentContactSuggestions lc payload query excludeEmails limit
      in if query = [] \<or> prefixMatches \<noteq> [] then prefixMatches
         else take limit (filter (\<lambda>entry. rc_email entry \<notin> set (map normalizeEmailAddress excludeEmails))
                (filterContactsList lc payload query)))"

section \<open>The invariant of the record\<close>

text \<open>Addresses are normalised and occur once, and the record is bounded.\<close>

definition contacts_ok :: "contacts_payload \<Rightarrow> bool" where
  "contacts_ok p \<longleftrightarrow>
     distinct (map rc_email p) \<and>
     list_all (\<lambda>x. rc_email x \<noteq> [] \<and> normalizeEmailAddress (rc_email x) = rc_email x) p \<and>
     length p \<le> MAX_RECENT_CONTACTS"

lemma contacts_ok_emails: "map rc_email p = map rc_email q \<Longrightarrow> contacts_ok q \<Longrightarrow> contacts_ok p"
proof -
  assume e: "map rc_email p = map rc_email q" and q: "contacts_ok q"
  have ok: "contacts_ok x \<longleftrightarrow> distinct (map rc_email x) \<and>
      list_all (\<lambda>k. k \<noteq> [] \<and> normalizeEmailAddress k = k) (map rc_email x) \<and> length (map rc_email x) \<le> MAX_RECENT_CONTACTS" for x
    by (simp add: contacts_ok_def list.pred_map comp_def)
  from q show "contacts_ok p" unfolding ok e .
qed

lemma contacts_ok_filter: "contacts_ok p \<Longrightarrow> contacts_ok (filter q p)"
  by (auto simp: contacts_ok_def list_all_iff distinct_map inj_on_def intro: order.trans [OF length_filter_le])

lemma contacts_ok_sorted:
  assumes "distinct (map rc_email xs)" "list_all (\<lambda>x. rc_email x \<noteq> [] \<and> normalizeEmailAddress (rc_email x) = rc_email x) xs"
  shows "contacts_ok (take MAX_RECENT_CONTACTS (js_sort cmp xs))"
proof -
  have "distinct (map rc_email (js_sort cmp xs))"
    using assms(1) by (metis distinct_map distinct_js_sort set_js_sort)
  then have "distinct (map rc_email (take MAX_RECENT_CONTACTS (js_sort cmp xs)))"
    by (simp add: take_map [symmetric])
  with assms(2) show ?thesis by (auto simp: contacts_ok_def list_all_iff dest: in_set_takeD)
qed

lemma updateContactDetails_emails: "map rc_email (updateContactDetails p e patch) = map rc_email p"
  by (auto simp: updateContactDetails_def Let_def map_update list_update_same_conv split: option.splits dest: find_index_Some)

lemma contacts_map_keys:
  "distinct (map rc_email p) \<Longrightarrow> contacts_map p = map (\<lambda>x. (rc_email x, x)) p"
proof (induction p rule: rev_induct)
  case (snoc x p)
  have new: "map_set k v m = m @ [(k, v)]" if "k \<notin> fst ` set m" for k and v :: recent_contact_entry and m
    using that by (induction m) auto
  from snoc have "contacts_map p = map (\<lambda>x. (rc_email x, x)) p" "rc_email x \<notin> rc_email ` set p" by auto
  moreover from this have "rc_email x \<notin> fst ` set (map (\<lambda>x. (rc_email x, x)) p)" by (simp add: image_iff)
  ultimately show ?case by (simp add: contacts_map_def new)
qed (simp add: contacts_map_def)

text \<open>The map of the record: every entry is stored under its own, normalised address.\<close>

definition contact_map_ok :: "(string \<times> recent_contact_entry) list \<Rightarrow> bool" where
  "contact_map_ok m \<longleftrightarrow>
     distinct (map fst m) \<and> list_all (\<lambda>(k, x). rc_email x = k \<and> k \<noteq> [] \<and> normalizeEmailAddress k = k) m"

lemma normalizeUsageInput_Some:
  "normalizeUsageInput raw = Some input \<Longrightarrow> fst input = normalizeEmailAddress (fst raw) \<and> fst input \<noteq> []"
  by (auto simp: normalizeUsageInput_def Let_def split: if_splits)

lemma usage_loop_ok: "contact_map_ok m \<Longrightarrow> contact_map_ok (usage_loop ctx t es m)"
proof (induction es arbitrary: m)
  case (Cons raw es)
  show ?case
  proof (cases "normalizeUsageInput raw")
    case (Some input)
    note n = normalizeUsageInput_Some [OF Some]
    have "contact_map_ok (map_set (fst input) (mergeContactEntry (map_of m (fst input)) input ctx t) m)"
      using Cons.prems n
      by (auto simp: contact_map_ok_def distinct_map_set set_map_set list_all_iff mergeContactEntry_def Let_def)
    with Cons.IH Some show ?thesis by simp
  qed (use Cons in simp)
qed simp

lemma contact_map_ok_values:
  assumes "contact_map_ok m"
  shows "distinct (map rc_email (map snd m))"
    "list_all (\<lambda>x. rc_email x \<noteq> [] \<and> normalizeEmailAddress (rc_email x) = rc_email x) (map snd m)"
proof -
  have "map rc_email (map snd m) = map fst m" using assms by (auto simp: contact_map_ok_def list_all_iff)
  with assms show "distinct (map rc_email (map snd m))" by (simp only: contact_map_ok_def)
  show "list_all (\<lambda>x. rc_email x \<noteq> [] \<and> normalizeEmailAddress (rc_email x) = rc_email x) (map snd m)"
    using assms by (auto simp: contact_map_ok_def list_all_iff)
qed

lemma contact_map_ok_of: "contacts_ok p \<Longrightarrow> contact_map_ok (contacts_map p)"
  by (simp add: contacts_map_keys contacts_ok_def contact_map_ok_def comp_def list_all_iff)

lemma record_ok:
  assumes "contacts_ok p"
  shows "contacts_ok (recordRecentContactUsage lc (Some p) es ctx t)"
proof -
  note m = contact_map_ok_values [OF usage_loop_ok [OF contact_map_ok_of [OF assms]], of ctx t es]
  have "distinct (map rc_email (peopleContacts (map snd (usage_loop ctx t es (contacts_map p)))))"
    using m(1) unfolding peopleContacts_def by (auto simp: distinct_map inj_on_def)
  moreover have "list_all (\<lambda>x. rc_email x \<noteq> [] \<and> normalizeEmailAddress (rc_email x) = rc_email x)
      (peopleContacts (map snd (usage_loop ctx t es (contacts_map p))))"
    using m(2) unfolding peopleContacts_def by (auto simp: list_all_iff)
  ultimately show ?thesis
    unfolding recordRecentContactUsage_def Let_def option.case by (rule contacts_ok_sorted)
qed

lemma addManual_ok:
  assumes "contacts_ok p" "addManualContact lc (Some p) input t = Some q"
  shows "contacts_ok q"
proof (cases "normalizeEmailAddress (mc_email input) = [] \<or> isAutomatedMailAddress (normalizeEmailAddress (mc_email input))")
  case True
  with assms show ?thesis by (simp add: addManualContact_def Let_def)
next
  case False
  let ?e = "normalizeEmailAddress (mc_email input)"
  have "contacts_ok (filter (\<lambda>c. rc_email c \<noteq> ?e) p)" using assms(1) by (rule contacts_ok_filter)
  moreover have "q = take MAX_RECENT_CONTACTS (js_sort (by_recency lc)
      (manual_entry ?e (find (\<lambda>c. rc_email c = ?e) p) input t # filter (\<lambda>c. rc_email c \<noteq> ?e) p))"
    using False assms(2) by (simp add: addManualContact_def Let_def del: js_sort.simps)
  moreover have "rc_email (manual_entry ?e x input t) = ?e" for x by (simp add: manual_entry_def)
  ultimately show ?thesis
    using False by (auto simp: contacts_ok_def [of "filter _ _"] simp del: js_sort.simps intro!: contacts_ok_sorted)
qed

text \<open>C27: Every operation keeps the record of contacts in order: one entry per normalised address and
  at most 150 entries.\<close>

theorem contacts_invariant:
  assumes "contacts_ok p"
  shows "contacts_ok (updateContactDetails p e patch) \<and> contacts_ok (removeContact p e) \<and>
    contacts_ok (sanitizeRecentContactsPayload p) \<and> contacts_ok (recordRecentContactUsage lc (Some p) entries ctx t) \<and>
    (case addManualContact lc (Some p) input t of None \<Rightarrow> False | Some q \<Rightarrow> contacts_ok q)"
proof (intro conjI)
  show "contacts_ok (updateContactDetails p e patch)"
    by (rule contacts_ok_emails [OF updateContactDetails_emails assms])
  show "contacts_ok (removeContact p e)" "contacts_ok (sanitizeRecentContactsPayload p)"
    using assms by (simp_all add: removeContact_def sanitizeRecentContactsPayload_def peopleContacts_def Let_def contacts_ok_filter)
  show "contacts_ok (recordRecentContactUsage lc (Some p) entries ctx t)" using assms by (rule record_ok)
  have "addManualContact lc (Some p) input t \<noteq> None" by (simp add: addManualContact_def Let_def)
  then show "case addManualContact lc (Some p) input t of None \<Rightarrow> False | Some q \<Rightarrow> contacts_ok q"
    using addManual_ok [OF assms] by (auto split: option.splits)
qed

section \<open>Suggestions\<close>

text \<open>Recipient suggestions are contacts of the record: never a machine or reserved address, never
  one that is already a recipient, no two with one address, and at most as many as asked for.\<close>

lemma suggestions_sound:
  assumes "contacts_ok p"
  shows "set (resolveRecipientSuggestions lc (Some p) query excludeEmails (Some limit)) \<subseteq>
      {x \<in> set p. is_person x \<and> rc_email x \<notin> normalizeEmailAddress ` set excludeEmails} \<and>
    distinct (map rc_email (resolveRecipientSuggestions lc (Some p) query excludeEmails (Some limit))) \<and>
    length (resolveRecipientSuggestions lc (Some p) query excludeEmails (Some limit)) \<le> limit"
proof -
  have sorted: "distinct (map rc_email (js_sort cmp (filter q p)))" for cmp q
  proof -
    have "distinct (map rc_email (filter q p))" using contacts_ok_filter [OF assms] by (simp add: contacts_ok_def)
    then show ?thesis by (metis distinct_map distinct_js_sort set_js_sort)
  qed
  have pre: "distinct (map rc_email (filterRecentContactSuggestions lc (Some p) q ex n))" for q ex n
    using sorted [of "by_recency lc" "\<lambda>x. matchesQuery x q \<and> rc_email x \<notin> set (map normalizeEmailAddress ex) \<and> is_person x"]
    by (simp add: filterRecentContactSuggestions_def peopleContacts_def Let_def take_map [symmetric] conj_ac)
  have full: "distinct (map rc_email (filterContactsList lc (Some p) q))" for q
    using sorted [of "by_name lc" "\<lambda>x. is_person x \<and> contactMatchesListQuery x q"]
    by (simp add: filterContactsList_def peopleContacts_def)
  then have "distinct (map rc_email (take n (filter r (filterContactsList lc (Some p) q))))" for n r q
    by (metis distinct_map_filter distinct_take take_map)
  with pre have "distinct (map rc_email (resolveRecipientSuggestions lc (Some p) query excludeEmails (Some limit)))"
    by (simp add: resolveRecipientSuggestions_def Let_def)
  moreover have "length (resolveRecipientSuggestions lc (Some p) query excludeEmails (Some limit)) \<le> limit"
    by (simp add: resolveRecipientSuggestions_def filterRecentContactSuggestions_def Let_def)
  moreover have "set (resolveRecipientSuggestions lc (Some p) query excludeEmails (Some limit)) \<subseteq>
      {x \<in> set p. is_person x \<and> rc_email x \<notin> normalizeEmailAddress ` set excludeEmails}"
    by (auto simp: resolveRecipientSuggestions_def filterRecentContactSuggestions_def filterContactsList_def
        peopleContacts_def Let_def dest!: in_set_takeD split: if_splits)
  ultimately show ?thesis by blast
qed

section \<open>The recipient field\<close>

lemma trim_id: "s \<noteq> [] \<Longrightarrow> \<not> is_ws (hd s) \<Longrightarrow> \<not> is_ws (last s) \<Longrightarrow> trim s = s"
proof -
  assume s: "s \<noteq> []" "\<not> is_ws (hd s)" "\<not> is_ws (last s)"
  have keep: "dropWhile is_ws r = r" if "r \<noteq> []" "\<not> is_ws (hd r)" for r using that by (cases r) auto
  from s keep [of s] keep [of "rev s"] show ?thesis by (simp add: trim_def hd_rev)
qed

lemma trim_ends:
  assumes "trim s = s" "s \<noteq> []"
  shows "\<not> is_ws (hd s)" "\<not> is_ws (last s)"
proof -
  have "dropWhile is_ws s = s" using assms(1) unfolding trim_def
    by (metis dropWhile_rev_dropWhile)
  then show "\<not> is_ws (hd s)" using assms(2) by (metis hd_dropWhile dropWhile_eq_Nil_conv)
  have "dropWhile is_ws (rev s) = rev s"
    using assms(1) \<open>dropWhile is_ws s = s\<close> unfolding trim_def by (metis rev_swap)
  then show "\<not> is_ws (last s)" using assms(2) by (metis hd_dropWhile dropWhile_eq_Nil_conv hd_rev rev_is_Nil_conv)
qed

text \<open>A name and an address that the field can hold.\<close>

definition field_safe :: "string \<Rightarrow> bool" where
  "field_safe s \<longleftrightarrow> CHR '','' \<notin> set s \<and> CHR '';'' \<notin> set s \<and> LESS \<notin> set s \<and> GREATER \<notin> set s"

lemma angle_match_label:
  assumes "n \<noteq> []" "LESS \<notin> set n" "e \<noteq> []" "LESS \<notin> set e" "GREATER \<notin> set e"
  shows "angle_match (n @ '' <'' @ e @ ''>'') = Some (n @ '' '', e)"
proof -
  have b: "CHR ''<'' = LESS" "CHR ''>'' = GREATER" "CHR '' '' \<noteq> LESS" by (simp_all add: LESS_def GREATER_def)
  have s: "n @ '' <'' @ e @ ''>'' = (n @ '' '') @ LESS # (e @ [GREATER])" by (simp add: b)
  have "takeWhile (\<lambda>c. c \<noteq> LESS) (n @ '' <'' @ e @ ''>'') = n @ '' ''"
    "dropWhile (\<lambda>c. c \<noteq> LESS) (n @ '' <'' @ e @ ''>'') = LESS # (e @ [GREATER])"
    unfolding s using assms(2) b(3) by (auto simp: takeWhile_append dropWhile_append)
  with assms show ?thesis by (simp add: angle_match_def Let_def)
qed

lemma angle_match_plain: "LESS \<notin> set s \<Longrightarrow> angle_match s = None"
proof -
  assume "LESS \<notin> set s"
  then have "dropWhile (\<lambda>c. c \<noteq> LESS) s = []" by auto
  then show ?thesis unfolding angle_match_def Let_def by (simp only: list.size) simp
qed

lemma trim_snoc_ws: "trim s = s \<Longrightarrow> s \<noteq> [] \<Longrightarrow> is_ws c \<Longrightarrow> trim (s @ [c]) = s"
  using trim_ends [of s] by (cases s) (auto simp: trim_def)

lemma normal_trim: "normalizeEmailAddress e = e \<Longrightarrow> trim e = e"
  by (metis normalizeEmailAddress_def trim_to_lower trim_trim)

lemma format_parses:
  assumes "rc_email x \<noteq> []" "normalizeEmailAddress (rc_email x) = rc_email x" "field_safe (rc_email x)"
    "field_safe (trim (text_of (rc_displayName x)))"
  shows "pa_email (parseRecipientString (formatRecentContactForField x)) = rc_email x"
    "trim (formatRecentContactForField x) = formatRecentContactForField x" "formatRecentContactForField x \<noteq> []"
proof -
  let ?n = "trim (text_of (rc_displayName x))"
  let ?e = "rc_email x"
  have t: "trim ?e = ?e" using assms(2) by (rule normal_trim)
  show "trim (formatRecentContactForField x) = formatRecentContactForField x"
  proof (cases "?n \<noteq> [] \<and> to_lower ?n \<noteq> ?e")
    case True
    then have "\<not> is_ws (hd (?n @ '' <'' @ ?e @ ''>''))" using trim_ends(1) [of ?n] by simp
    moreover have "\<not> is_ws (last (?n @ '' <'' @ ?e @ ''>''))" by (simp add: is_ws_def)
    ultimately show ?thesis using True by (simp add: formatRecentContactForField_def Let_def trim_id)
  qed (auto simp: formatRecentContactForField_def Let_def t)
  then show "pa_email (parseRecipientString (formatRecentContactForField x)) = ?e"
    using assms angle_match_label [of ?n ?e] angle_match_plain [of ?e]
    by (auto simp: parseRecipientString_def formatRecentContactForField_def field_safe_def Let_def)
  show "formatRecentContactForField x \<noteq> []" using assms(1) by (simp add: formatRecentContactForField_def Let_def)
qed

lemma split_on_append_sep: "split_on c (s @ c # t) = split_on c s @ split_on c t"
proof (induction s)
  case (Cons x s)
  obtain w ws where "split_on c s = w # ws" by (cases "split_on c s") auto
  with Cons show ?case by auto
qed simp

lemma split_append:
  "d \<in> {CHR '','', CHR '';''} \<Longrightarrow> splitRecipientList (s @ d # t) = splitRecipientList s @ splitRecipientList t"
  by (auto simp: splitRecipientList_def split_on_append_sep)

lemma split_single:
  assumes "CHR '','' \<notin> set s" "CHR '';'' \<notin> set s"
  shows "splitRecipientList s = (if trim s = [] then [] else [trim s])"
proof -
  have "map (\<lambda>c. if c = CHR '';'' then CHR '','' else c) s = s" using assms(2) by (intro map_idI) auto
  with assms show ?thesis by (simp add: splitRecipientList_def split_on_no_sep)
qed

lemma parsed_emails:
  "pa_email ` set (parseAddressList raw) = pa_email ` parseRecipientString ` set (splitRecipientList raw) - {[]}"
  using parse_address_loop_spec [of "[]" "splitRecipientList raw"] by (simp add: parseAddressList_def)

lemma format_safe:
  assumes "field_safe (rc_email x)" "field_safe (trim (text_of (rc_displayName x)))"
  shows "CHR '','' \<notin> set (formatRecentContactForField x)" "CHR '';'' \<notin> set (formatRecentContactForField x)"
  using assms by (auto simp: formatRecentContactForField_def field_safe_def Let_def)

lemma trim_sp: "trim (CHR '' '' # s) = trim s"
  by (simp add: trim_def is_ws_def)

text \<open>Accepting a suggestion adds exactly that contact to the recipients before it, when its name
  has none of the characters that separate recipients or enclose an address.\<close>

lemma suggestion_adds_contact:
  assumes "rc_email x \<noteq> []" "normalizeEmailAddress (rc_email x) = rc_email x" "field_safe (rc_email x)"
    "field_safe (trim (text_of (rc_displayName x)))"
  shows "pa_email ` set (parseAddressList (insertRecipientSuggestion current (formatRecentContactForField x) sep)) =
    insert (rc_email x) (pa_email ` set (parseAddressList (recipient_prefix current)))"
proof -
  note f = format_parses [OF assms] and safe = format_safe [OF assms(3,4)]
  have tail: "splitRecipientList (formatRecentContactForField x @ (if sep then '', '' else [])) = [formatRecentContactForField x]"
    using f safe split_append [of "CHR '',''" "formatRecentContactForField x" "'' ''"]
    by (simp add: split_single) (simp add: trim_def is_ws_def)
  have "splitRecipientList (insertRecipientSuggestion current (formatRecentContactForField x) sep) =
      splitRecipientList (recipient_prefix current) @ [formatRecentContactForField x]"
  proof (cases "recipient_prefix current = []")
    case True
    then show ?thesis using tail by (auto simp: insertRecipientSuggestion_def Let_def splitRecipientList_def [of "[]"])
  next
    case False
    have "last (recipient_prefix current) \<in> {CHR '','', CHR '';''}"
      using False hd_dropWhile [of "\<lambda>c. c \<noteq> CHR '','' \<and> c \<noteq> CHR '';''" "rev current"]
      by (auto simp: recipient_prefix_def last_rev)
    moreover define b where "b = butlast (recipient_prefix current)"
    ultimately obtain d where p: "recipient_prefix current = b @ [d]" "d \<in> {CHR '','', CHR '';''}"
      using False by (metis append_butlast_last_id)
    have sp: "splitRecipientList (CHR '' '' # r) = splitRecipientList r" for r
    proof (cases "split_on (CHR '','') (map (\<lambda>c. if c = CHR '';'' then CHR '','' else c) r)")
      case (Cons w ws)
      then show ?thesis by (simp add: splitRecipientList_def trim_sp)
    qed simp
    have "insertRecipientSuggestion current (formatRecentContactForField x) sep =
        b @ d # (CHR '' '' # (formatRecentContactForField x @ (if sep then '', '' else [])))"
      by (simp add: insertRecipientSuggestion_def Let_def p)
    then have "splitRecipientList (insertRecipientSuggestion current (formatRecentContactForField x) sep) =
        splitRecipientList b @ [formatRecentContactForField x]"
      by (simp only: split_append [OF p(2)] sp tail)
    moreover have "splitRecipientList (b @ [d]) = splitRecipientList b"
      using split_append [OF p(2), of b "[]"] by (simp add: splitRecipientList_def [of "[]"])
    ultimately show ?thesis by (simp add: p)
  qed
  then show ?thesis using f assms(1) by (auto simp: parsed_emails)
qed

definition sample_contact :: recent_contact_entry where
  "sample_contact =
     \<lparr>rc_email = ''jo@x.org'', rc_displayName = Some ''Jo Doe'', rc_phone = None, rc_notes = None, rc_manual = None,
      rc_lastUsedAt = ''2026'', rc_useCount = 1, rc_contexts = [Mail_context]\<rparr>"

definition char_compare :: "string \<Rightarrow> string \<Rightarrow> int" where
  "char_compare a b = int (length a) - int (length b)"

lemma sample_contacts_ok: "contacts_ok [sample_contact]"
  by code_simp

theorem contacts_invariant_witness:
  "contacts_ok (removeContact [sample_contact] ''X'') \<and>
   contacts_ok (recordRecentContactUsage char_compare (Some [sample_contact]) [(''A@b.c'', None)] Calendar_context ''2027'')"
  using contacts_invariant [OF sample_contacts_ok, where lc = char_compare] by blast

lemma suggestions_sound_witness:
  "length (resolveRecipientSuggestions char_compare (Some [sample_contact]) ''jo'' [''X@y.z''] (Some 3)) \<le> 3"
  using suggestions_sound [OF sample_contacts_ok] by blast

lemma suggestion_adds_contact_witness:
  "pa_email ` set (parseAddressList (insertRecipientSuggestion ''a@b.c, jo'' (formatRecentContactForField sample_contact) True)) =
    insert ''jo@x.org'' (pa_email ` set (parseAddressList ''a@b.c,''))"
proof -
  have p: "recipient_prefix ''a@b.c, jo'' = ''a@b.c,''" and e: "rc_email sample_contact = ''jo@x.org''" by code_simp+
  show ?thesis unfolding p [symmetric] e [symmetric] by (rule suggestion_adds_contact; code_simp)
qed

text \<open>A contact whose display name has a comma cannot be written to from the suggestion: the
  field it fills in reads as an invalid address and the message cannot be sent.\<close>

lemma comma_name_blocks_sending:
  "\<not> canSendCompose (insertRecipientSuggestion [] (formatRecentContactForField
      (sample_contact\<lparr>rc_displayName := Some ''Doe, Jo''\<rparr>)) True) None None ''Hello'' ''Hi'' 0"
  by code_simp

end
