(* ===== verification/TaskPool.thy ===== *)
theory TaskPool
  imports Prelude
begin

text \<open>
  \<open>runTasksWithConcurrencyLimit\<close> of \<open>packages/calendar-core/src/mail-server-policy.ts\<close>: a pool of
  asynchronous workers that take tasks from a shared counter. Tasks settle in any order, so the
  pool is a step relation: one step is the settling of one awaited task and what its worker then
  does without a pause.
\<close>

section \<open>The state of a pool\<close>

text \<open>
  A worker awaits the task it called, has left its loop, or was stopped by a rejection. \<open>results\<close>
  is \<open>new Array(tasks.length)\<close> with \<open>None\<close> for its holes, \<open>called\<close> lists the tasks called so far,
  \<open>failure\<close> is the first rejection, with which \<open>Promise.all\<close> rejects.
\<close>

datatype worker = Awaiting nat | Returned | Stopped

record ('e, 'a) pool =
  nextIndex :: nat
  results :: "'a option list"
  workers :: "worker list"
  called :: "nat list"
  failure :: "'e option"

text \<open>The loop of a worker up to its next \<open>await\<close>, for a pool of \<open>n\<close> tasks.\<close>

definition worker_turn :: "nat \<Rightarrow> ('e, 'a) pool \<Rightarrow> worker \<times> ('e, 'a) pool" where
  "worker_turn n s =
     (if nextIndex s < n
      then let currentIndex = nextIndex s
           in (Awaiting currentIndex,
               s\<lparr>nextIndex := currentIndex + 1, called := called s @ [currentIndex]\<rparr>)
      else (Returned, s))"

text \<open>\<open>Array.from({ length }, () => worker())\<close>: each worker runs up to its first \<open>await\<close>.\<close>

fun spawn_workers :: "nat \<Rightarrow> nat \<Rightarrow> ('e, 'a) pool \<Rightarrow> ('e, 'a) pool" where
  "spawn_workers n 0 s = s"
| "spawn_workers n (Suc k) s =
     (let (w, s') = worker_turn n s in spawn_workers n k (s'\<lparr>workers := workers s' @ [w]\<rparr>))"

definition start_pool :: "nat \<Rightarrow> int \<Rightarrow> ('e, 'a) pool" where
  "start_pool n limit =
     (let concurrency = max 1 limit
      in spawn_workers n (nat (min concurrency (int n)))
           \<lparr>nextIndex = 0, results = replicate n None, workers = [], called = [], failure = None\<rparr>)"

text \<open>What happens when the task that worker \<open>w\<close> awaits is fulfilled or rejected.\<close>

definition fulfil :: "nat \<Rightarrow> nat \<Rightarrow> nat \<Rightarrow> 'a \<Rightarrow> ('e, 'a) pool \<Rightarrow> ('e, 'a) pool" where
  "fulfil n w currentIndex v s =
     (let (w', s') = worker_turn n (s\<lparr>results := (results s)[currentIndex := Some v]\<rparr>)
      in s'\<lparr>workers := (workers s')[w := w']\<rparr>)"

definition refuse :: "nat \<Rightarrow> 'e \<Rightarrow> ('e, 'a) pool \<Rightarrow> ('e, 'a) pool" where
  "refuse w e s =
     s\<lparr>workers := (workers s)[w := Stopped], failure := (case failure s of None \<Rightarrow> Some e | Some f \<Rightarrow> Some f)\<rparr>"

text \<open>\<open>task i\<close> is what task \<open>i\<close> settles with.\<close>

inductive pool_step :: "(nat \<Rightarrow> 'e + 'a) \<Rightarrow> nat \<Rightarrow> ('e, 'a) pool \<Rightarrow> ('e, 'a) pool \<Rightarrow> bool"
  for task n where
  fulfilled: "w < length (workers s) \<Longrightarrow> workers s ! w = Awaiting i \<Longrightarrow> task i = Inr v \<Longrightarrow>
    pool_step task n s (fulfil n w i v s)"
| refused: "w < length (workers s) \<Longrightarrow> workers s ! w = Awaiting i \<Longrightarrow> task i = Inl e \<Longrightarrow>
    pool_step task n s (refuse w e s)"

text \<open>
  What the caller sees: the promise is rejected with the first failure, resolved when every
  worker has returned, and pending otherwise. No tasks give the empty array at once.
\<close>

datatype ('e, 'a) promise = Pending | Rejected 'e | Resolved "'a option list"

definition runTasksWithConcurrencyLimit :: "nat \<Rightarrow> ('e, 'a) pool \<Rightarrow> ('e, 'a) promise" where
  "runTasksWithConcurrencyLimit n s =
     (if n = 0 then Resolved []
      else case failure s of
        Some e \<Rightarrow> Rejected e
      | None \<Rightarrow> if list_all (\<lambda>w. w = Returned) (workers s) then Resolved (results s) else Pending)"

section \<open>The invariant of a pool\<close>

fun awaited :: "worker \<Rightarrow> nat list" where
  "awaited (Awaiting i) = [i]"
| "awaited _ = []"

abbreviation running :: "('e, 'a) pool \<Rightarrow> nat list" where
  "running s \<equiv> concat (map awaited (workers s))"

definition settled :: "(nat \<Rightarrow> 'e + 'a) \<Rightarrow> 'a option list \<Rightarrow> 'e option \<Rightarrow> nat \<Rightarrow> bool" where
  "settled task rs f i \<longleftrightarrow> (case task i of Inr v \<Rightarrow> rs ! i = Some v | Inl _ \<Rightarrow> f \<noteq> None)"

definition pool_inv :: "(nat \<Rightarrow> 'e + 'a) \<Rightarrow> nat \<Rightarrow> ('e, 'a) pool \<Rightarrow> bool" where
  "pool_inv task n s \<longleftrightarrow>
     nextIndex s \<le> n \<and> called s = [0..<nextIndex s] \<and> length (results s) = n \<and>
     distinct (running s) \<and> set (running s) \<subseteq> {..<nextIndex s} \<and>
     (\<forall>i < nextIndex s. i \<notin> set (running s) \<longrightarrow> settled task (results s) (failure s) i) \<and>
     (Returned \<in> set (workers s) \<longrightarrow> nextIndex s = n) \<and>
     (Stopped \<in> set (workers s) \<longleftrightarrow> failure s \<noteq> None) \<and>
     (\<forall>e. failure s = Some e \<longrightarrow> (\<exists>i < nextIndex s. task i = Inl e))"

lemma mset_running_update:
  "w < length ws \<Longrightarrow>
   mset (concat (map awaited (ws[w := w']))) + mset (awaited (ws ! w)) =
   mset (concat (map awaited ws)) + mset (awaited w')"
  by (induction ws arbitrary: w) (auto split: nat.splits)

lemma running_update:
  assumes "w < length ws" "ws ! w = Awaiting i" "distinct (concat (map awaited ws))"
  shows "i \<in> set (concat (map awaited ws))"
    "awaited w' = [] \<Longrightarrow> distinct (concat (map awaited (ws[w := w']))) \<and>
       set (concat (map awaited (ws[w := w']))) = set (concat (map awaited ws)) - {i}"
    "j \<notin> set (concat (map awaited ws)) \<Longrightarrow> distinct (concat (map awaited (ws[w := Awaiting j]))) \<and>
       set (concat (map awaited (ws[w := Awaiting j]))) = insert j (set (concat (map awaited ws)) - {i})"
proof -
  let ?r = "concat (map awaited ws)"
  have upd: "add_mset i (mset (concat (map awaited (ws[w := x])))) = mset ?r + mset (awaited x)" for x
    using mset_running_update [OF assms(1), of x] assms(2) by simp
  have "i \<in># mset ?r" using upd [of Returned] by (metis add.right_neutral awaited.simps(2) mset.simps(1) union_single_eq_member)
  then show i: "i \<in> set ?r" by simp
  have del: "mset (concat (map awaited (ws[w := x]))) = mset (remove1 i ?r) + mset (awaited x)" for x
  proof -
    have "mset ?r = add_mset i (mset (remove1 i ?r))" using i by simp
    then have "add_mset i (mset (concat (map awaited (ws[w := x])))) =
        add_mset i (mset (remove1 i ?r) + mset (awaited x))"
      unfolding upd by (metis union_mset_add_mset_left)
    then show ?thesis by (simp only: add_mset_add_mset_same_iff)
  qed
  show "distinct (concat (map awaited (ws[w := w']))) \<and>
       set (concat (map awaited (ws[w := w']))) = set ?r - {i}" if "awaited w' = []"
  proof -
    have "mset (concat (map awaited (ws[w := w']))) = mset (remove1 i ?r)"
      using del [of w'] that by simp
    then show ?thesis
      using assms(3) by (metis distinct_remove1 mset_eq_imp_distinct_iff mset_eq_setD set_remove1_eq)
  qed
  show "distinct (concat (map awaited (ws[w := Awaiting j]))) \<and>
       set (concat (map awaited (ws[w := Awaiting j]))) = insert j (set ?r - {i})" if "j \<notin> set ?r"
  proof -
    have "mset (concat (map awaited (ws[w := Awaiting j]))) = mset (j # remove1 i ?r)"
      using del [of "Awaiting j"] by simp
    moreover have "distinct (j # remove1 i ?r)" using that assms(3) by (simp add: notin_set_remove1)
    ultimately show ?thesis
      using assms(3) by (metis list.simps(15) mset_eq_imp_distinct_iff mset_eq_setD set_remove1_eq)
  qed
qed

lemma spawn_workers_eq:
  "nextIndex s + k \<le> n \<Longrightarrow> spawn_workers n k s =
     s\<lparr>nextIndex := nextIndex s + k, called := called s @ [nextIndex s..<nextIndex s + k],
       workers := workers s @ map Awaiting [nextIndex s..<nextIndex s + k]\<rparr>"
proof (induction k arbitrary: s)
  case (Suc k)
  let ?s = "s\<lparr>nextIndex := nextIndex s + 1, called := called s @ [nextIndex s], workers := workers s @ [Awaiting (nextIndex s)]\<rparr>"
  have "spawn_workers n (Suc k) s = spawn_workers n k ?s"
    using Suc.prems by (simp add: worker_turn_def Let_def)
  also have "\<dots> = s\<lparr>nextIndex := nextIndex s + Suc k, called := called s @ [nextIndex s..<nextIndex s + Suc k],
       workers := workers s @ map Awaiting [nextIndex s..<nextIndex s + Suc k]\<rparr>"
    using Suc.IH [of ?s] Suc.prems by (simp add: upt_conv_Cons)
  finally show ?case .
qed simp

abbreviation pool_width :: "nat \<Rightarrow> int \<Rightarrow> nat" where
  "pool_width n limit \<equiv> nat (min (max 1 limit) (int n))"

lemma start_pool_eq:
  "start_pool n limit =
     \<lparr>nextIndex = pool_width n limit, results = replicate n None,
      workers = map Awaiting [0..<pool_width n limit], called = [0..<pool_width n limit], failure = None\<rparr>"
  by (simp add: start_pool_def Let_def spawn_workers_eq)

lemma concat_awaited [simp]: "concat (map (awaited \<circ> Awaiting) xs) = xs"
  by (induction xs) auto

lemma pool_inv_start: "pool_inv task n (start_pool n limit)"
  by (auto simp: pool_inv_def start_pool_eq)

text \<open>A turn of worker \<open>w\<close> after its task was fulfilled, as two cases.\<close>

lemma fulfil_cases:
  "fulfil n w i v s =
     (if nextIndex s < n
      then s\<lparr>results := (results s)[i := Some v], nextIndex := nextIndex s + 1,
             called := called s @ [nextIndex s], workers := (workers s)[w := Awaiting (nextIndex s)]\<rparr>
      else s\<lparr>results := (results s)[i := Some v], workers := (workers s)[w := Returned]\<rparr>)"
  by (simp add: fulfil_def worker_turn_def Let_def)

lemma set_update_worker:
  "w < length ws \<Longrightarrow> ws ! w = Awaiting i \<Longrightarrow> x \<noteq> Awaiting i \<Longrightarrow> (\<And>j. x \<noteq> Awaiting j) \<Longrightarrow>
   x \<in> set (ws[w := x']) \<longleftrightarrow> x \<in> set ws \<or> x = x'"
  by (induction ws arbitrary: w) (auto split: nat.splits)

lemma pool_inv_fulfil:
  assumes inv: "pool_inv task n s" and w: "w < length (workers s)" "workers s ! w = Awaiting i" "task i = Inr v"
  shows "pool_inv task n (fulfil n w i v s)"
proof -
  have d: "distinct (running s)" and sub: "set (running s) \<subseteq> {..<nextIndex s}"
    and filled: "\<And>j. j < nextIndex s \<Longrightarrow> j \<notin> set (running s) \<Longrightarrow>
        settled task (results s) (failure s) j"
    using inv by (auto simp: pool_inv_def)
  note run = running_update [OF w(1,2) d]
  have i: "i < nextIndex s" "i < n" using run(1) sub inv by (auto simp: pool_inv_def)
  have upd: "settled task ((results s)[i := Some v]) (failure s) j"
    if "j < nextIndex s" "j \<notin> set (running s) - {i}" for j
  proof (cases "j = i")
    case True
    then show ?thesis using w(3) i inv by (simp add: pool_inv_def settled_def)
  next
    case False
    with filled [of j] that show ?thesis by (simp add: settled_def split: sum.splits)
  qed
  note stop = set_update_worker [OF w(1,2)]
  show ?thesis
  proof (cases "nextIndex s < n")
    case True
    have "nextIndex s \<notin> set (running s)" using sub by auto
    note run3 = run(3) [OF this]
    have "Returned \<notin> set (workers s)" using inv True by (auto simp: pool_inv_def)
    with True run3 inv sub i upd stop [of Returned] stop [of Stopped] show ?thesis
      unfolding pool_inv_def fulfil_cases by (auto simp: less_Suc_eq simp del: set_concat distinct_concat_iff)
  next
    case False
    with run(2) [of Returned] inv sub i upd stop [of Returned] stop [of Stopped] show ?thesis
      unfolding pool_inv_def fulfil_cases by (auto simp del: set_concat distinct_concat_iff)
  qed
qed

lemma pool_inv_refuse:
  assumes inv: "pool_inv task n s" and w: "w < length (workers s)" "workers s ! w = Awaiting i" "task i = Inl e"
  shows "pool_inv task n (refuse w e s)"
proof -
  have d: "distinct (running s)" and sub: "set (running s) \<subseteq> {..<nextIndex s}"
    using inv by (auto simp: pool_inv_def)
  note run = running_update [OF w(1,2) d]
  have i: "i < nextIndex s" using run(1) sub by auto
  note stop = set_update_worker [OF w(1,2)]
  show ?thesis
    using run(2) [of Stopped] inv sub i w(3) stop [of Returned] stop [of Stopped]
    unfolding pool_inv_def refuse_def settled_def
    by (auto simp del: set_concat distinct_concat_iff split: option.splits sum.splits)
qed

lemma pool_inv_step: "pool_step task n s s' \<Longrightarrow> pool_inv task n s \<Longrightarrow> pool_inv task n s'"
  by (induction rule: pool_step.induct) (simp_all add: pool_inv_fulfil pool_inv_refuse)

lemma pool_inv_reachable:
  "(pool_step task n)\<^sup>*\<^sup>* (start_pool n limit) s \<Longrightarrow> pool_inv task n s"
  by (induction rule: rtranclp_induct) (auto intro: pool_inv_start pool_inv_step)

section \<open>Counting the steps\<close>

lemma length_running_update:
  "w < length ws \<Longrightarrow> ws ! w = Awaiting i \<Longrightarrow>
   length (concat (map awaited (ws[w := w']))) + 1 = length (concat (map awaited ws)) + length (awaited w')"
  using arg_cong [OF mset_running_update [of w ws w'], of size] by (simp only: size_union size_mset) simp

text \<open>Each step settles one task: the called tasks are the running ones and one for each step.\<close>

lemma pool_step_count:
  "pool_step task n s s' \<Longrightarrow> nextIndex s = k + length (running s) \<Longrightarrow> nextIndex s' = Suc k + length (running s')"
  "pool_step task n s s' \<Longrightarrow> length (workers s') = length (workers s)"
proof (induction rule: pool_step.induct)
  case (fulfilled w s i v)
  { case 1 with length_running_update [OF fulfilled(1,2), of "Awaiting (nextIndex s)"]
      length_running_update [OF fulfilled(1,2), of Returned] show ?case
      by (simp add: fulfil_cases del: length_concat)
  next case 2 show ?case by (simp add: fulfil_cases) }
next
  case (refused w s i e)
  { case 1 with length_running_update [OF refused(1,2), of Stopped] show ?case
      by (simp add: refuse_def del: length_concat)
  next case 2 show ?case by (simp add: refuse_def) }
qed

lemma pool_run_count:
  "(pool_step task n ^^ k) (start_pool n limit) s \<Longrightarrow>
   pool_inv task n s \<and> nextIndex s = k + length (running s) \<and> length (workers s) = pool_width n limit"
proof (induction k arbitrary: s)
  case 0
  then have "s = start_pool n limit" by simp
  then show ?case
    by (simp add: pool_inv_start del: length_concat) (simp add: start_pool_eq del: length_concat)
next
  case (Suc k)
  then obtain s' where "(pool_step task n ^^ k) (start_pool n limit) s'" "pool_step task n s' s" by auto
  with Suc.IH [of s'] show ?case
    using pool_inv_step pool_step_count by (metis (no_types, lifting))
qed

lemma length_running: "length (concat (map awaited ws)) \<le> length ws"
proof (induction ws)
  case (Cons w ws) then show ?case by (cases w) auto
qed simp

lemma no_step_idle:
  assumes "\<And>s'. \<not> pool_step task n s s'"
  shows "running s = []"
proof -
  have "awaited w = []" if "w \<in> set (workers s)" for w
  proof (cases w)
    case (Awaiting i)
    with that obtain k where "k < length (workers s)" "workers s ! k = Awaiting i" by (auto simp: in_set_conv_nth)
    with assms pool_step.intros [of k s i task] show ?thesis by (cases "task i") blast+
  qed simp_all
  then show ?thesis by simp
qed

lemma idle_workers:
  assumes "running s = []" "w \<in> set (workers s)"
  shows "w = Returned \<or> w = Stopped"
  using assms by (cases w) auto

section \<open>What the pool promises\<close>

text \<open>At no time are more tasks running than the limit (or one, for a limit below one); every
  task is called at most once, in the order of the array.\<close>

lemma pool_respects_limit:
  assumes "(pool_step task n)\<^sup>*\<^sup>* (start_pool n limit) s"
  shows "int (length (running s)) \<le> max 1 limit \<and> called s = [0..<nextIndex s] \<and> nextIndex s \<le> n \<and>
    distinct (running s) \<and> set (running s) \<subseteq> set (called s)"
proof -
  obtain k where "(pool_step task n ^^ k) (start_pool n limit) s"
    using assms by (auto simp: rtranclp_power)
  from pool_run_count [OF this] length_running [of "workers s"]
  show ?thesis by (auto simp: pool_inv_def atLeast0LessThan simp del: length_concat set_concat distinct_concat_iff)
qed

text \<open>C12: If every task is fulfilled, the pool settles all of them in exactly \<open>n\<close> steps, whatever
  the order: before that a step is always possible, and then the promise is resolved with the
  results in the order of the tasks.\<close>

theorem pool_resolves_in_task_order:
  assumes ok: "\<And>i. i < n \<Longrightarrow> task i = Inr (f i)" and run: "(pool_step task n ^^ k) (start_pool n limit) s"
  shows "k \<le> n \<and> (k < n \<longrightarrow> (\<exists>s'. pool_step task n s s')) \<and>
    (k = n \<longrightarrow> runTasksWithConcurrencyLimit n s = Resolved (map (\<lambda>i. Some (f i)) [0..<n]))"
proof -
  have inv: "pool_inv task n s" and count: "nextIndex s = k + length (running s)"
    and width: "length (workers s) = pool_width n limit"
    using pool_run_count [OF run] by simp_all
  have le: "k \<le> n" using inv count by (auto simp: pool_inv_def)
  have no_failure: "failure s = None" "Stopped \<notin> set (workers s)"
  proof -
    show "failure s = None"
    proof (rule ccontr)
      assume "failure s \<noteq> None"
      then obtain i e where "i < nextIndex s" "task i = Inl e" "nextIndex s \<le> n"
        using inv unfolding pool_inv_def by blast
      then have "i < n" by simp
      with ok [of i] \<open>task i = Inl e\<close> show False by simp
    qed
    then show "Stopped \<notin> set (workers s)" using inv by (simp add: pool_inv_def)
  qed
  have "\<exists>s'. pool_step task n s s'" if "k < n"
  proof (rule ccontr)
    assume "\<nexists>s'. pool_step task n s s'"
    then have idle: "running s = []" by (intro no_step_idle) blast
    from width that obtain w where "w \<in> set (workers s)" by (cases "workers s") auto
    with idle_workers [OF idle] no_failure have "Returned \<in> set (workers s)" by blast
    with inv count idle that show False by (simp add: pool_inv_def)
  qed
  moreover have "runTasksWithConcurrencyLimit n s = Resolved (map (\<lambda>i. Some (f i)) [0..<n])" if "k = n"
  proof -
    have idle: "running s = []" and all: "nextIndex s = n"
      using inv count that by (auto simp: pool_inv_def simp del: length_concat set_concat distinct_concat_iff concat_eq_Nil_conv)
    have "results s ! i = Some (f i)" if "i < n" for i
    proof -
      have "settled task (results s) (failure s) i" using inv idle all that by (simp add: pool_inv_def)
      then show ?thesis by (simp add: settled_def ok [OF that])
    qed
    then have "results s = map (\<lambda>i. Some (f i)) [0..<n]"
      using inv by (intro nth_equalityI) (simp_all add: pool_inv_def)
    moreover have "list_all (\<lambda>w. w = Returned) (workers s)"
      using idle_workers [OF idle] no_failure by (auto simp: list_all_iff)
    ultimately show ?thesis using no_failure by (simp add: runTasksWithConcurrencyLimit_def)
  qed
  ultimately show ?thesis using le by blast
qed

text \<open>The promise never resolves with a result missing, and it is rejected only with the
  error of a task that was called; once no task is running it is settled.\<close>

lemma pool_outcome_faithful:
  assumes "(pool_step task n)\<^sup>*\<^sup>* (start_pool n limit) s"
  shows "(case runTasksWithConcurrencyLimit n s of
      Resolved rs \<Rightarrow> map (map_option Inr) rs = map (\<lambda>i. Some (task i)) [0..<n]
    | Rejected e \<Rightarrow> (\<exists>i \<in> set (called s). task i = Inl e)
    | Pending \<Rightarrow> running s \<noteq> [])"
proof -
  obtain k where "(pool_step task n ^^ k) (start_pool n limit) s"
    using assms by (auto simp: rtranclp_power)
  from pool_run_count [OF this] have inv: "pool_inv task n s" and width: "length (workers s) = pool_width n limit"
    by simp_all
  show ?thesis
  proof (cases "n = 0 \<or> failure s \<noteq> None")
    case True
    with inv show ?thesis
      by (auto simp: runTasksWithConcurrencyLimit_def pool_inv_def atLeast0LessThan split: option.splits)
  next
    case False
    then have no_failure: "failure s = None" "Stopped \<notin> set (workers s)" "n \<noteq> 0"
      using inv by (auto simp: pool_inv_def)
    show ?thesis
    proof (cases "list_all (\<lambda>w. w = Returned) (workers s)")
      case True
      then have "running s = []" by (auto simp: list_all_iff)
      moreover have "Returned \<in> set (workers s)"
        using True width no_failure(3) by (cases "workers s") auto
      ultimately have "settled task (results s) None i" if "i < n" for i
        using inv no_failure(1) that by (simp add: pool_inv_def)
      then have "map_option Inr (results s ! i) = Some (task i)" if "i < n" for i
        using that by (force simp: settled_def split: sum.splits)
      then have "map (map_option Inr) (results s) = map (\<lambda>i. Some (task i)) [0..<n]"
        using inv by (intro nth_equalityI) (simp_all add: pool_inv_def)
      with True no_failure show ?thesis by (simp add: runTasksWithConcurrencyLimit_def)
    next
      case False
      then have "running s \<noteq> []" using idle_workers [of s] no_failure by (auto simp: list_all_iff)
      with False no_failure show ?thesis by (simp add: runTasksWithConcurrencyLimit_def)
    qed
  qed
qed

section \<open>A pool of two workers\<close>

text \<open>Three tasks, two at a time; the second one settles first.\<close>

definition sample_task :: "nat \<Rightarrow> string + nat" where
  "sample_task i = Inr (10 * i)"

definition failing_task :: "nat \<Rightarrow> string + nat" where
  "failing_task i = (if i = 1 then Inl ''failed'' else Inr i)"

lemma sample_first_step:
  "pool_step sample_task 3 (start_pool 3 2) (fulfil 3 1 1 10 (start_pool 3 2))"
  by (rule pool_step.fulfilled) (simp_all add: sample_task_def start_pool_eq upt_rec numeral_3_eq_3)

lemma pool_respects_limit_witness:
  "int (length (running (fulfil 3 1 1 10 (start_pool 3 2) :: (string, nat) pool))) \<le> max 1 2 \<and>
   called (fulfil 3 1 1 10 (start_pool 3 2) :: (string, nat) pool) =
     [0..<nextIndex (fulfil 3 1 1 10 (start_pool 3 2) :: (string, nat) pool)] \<and>
   nextIndex (fulfil 3 1 1 10 (start_pool 3 2) :: (string, nat) pool) \<le> 3 \<and>
   distinct (running (fulfil 3 1 1 10 (start_pool 3 2) :: (string, nat) pool)) \<and>
   set (running (fulfil 3 1 1 10 (start_pool 3 2) :: (string, nat) pool)) \<subseteq>
     set (called (fulfil 3 1 1 10 (start_pool 3 2) :: (string, nat) pool))"
  by (rule pool_respects_limit [of sample_task]) (rule r_into_rtranclp [of "pool_step sample_task 3", OF sample_first_step])

theorem pool_resolves_in_task_order_witness:
  "\<exists>s. (pool_step sample_task 3 ^^ 3) (start_pool 3 2) s \<and>
     runTasksWithConcurrencyLimit 3 s = Resolved [Some 0, Some 10, Some 20]"
proof -
  let ?s1 = "fulfil 3 1 1 10 (start_pool 3 2) :: (string, nat) pool"
  let ?s2 = "fulfil 3 1 2 20 ?s1" let ?s3 = "fulfil 3 0 0 0 ?s2"
  have "pool_step sample_task 3 ?s1 ?s2"
    by (rule pool_step.fulfilled) (simp_all add: sample_task_def start_pool_eq upt_rec fulfil_cases)
  moreover have "pool_step sample_task 3 ?s2 ?s3"
    by (rule pool_step.fulfilled) (simp_all add: sample_task_def start_pool_eq upt_rec fulfil_cases)
  ultimately have run: "(pool_step sample_task 3 ^^ 3) (start_pool 3 2) ?s3"
    using sample_first_step by (auto simp: numeral_3_eq_3 intro!: relcomppI)
  have "sample_task i = Inr (10 * i)" if "i < 3" for i by (simp add: sample_task_def)
  from pool_resolves_in_task_order [OF this run] run show ?thesis
    by (intro exI [of _ ?s3]) (simp add: upt_rec)
qed

lemma pool_outcome_faithful_witness:
  "runTasksWithConcurrencyLimit 3 (refuse 1 ''failed'' (start_pool 3 2) :: (string, nat) pool) = Rejected ''failed'' \<and>
   (\<exists>i \<in> set (called (refuse 1 ''failed'' (start_pool 3 2) :: (string, nat) pool)). failing_task i = Inl ''failed'')"
proof -
  have step: "pool_step failing_task 3 (start_pool 3 2) (refuse 1 ''failed'' (start_pool 3 2))"
    by (rule pool_step.refused) (simp_all add: failing_task_def start_pool_eq upt_rec)
  have "runTasksWithConcurrencyLimit 3 (refuse 1 ''failed'' (start_pool 3 2) :: (string, nat) pool) = Rejected ''failed''"
    by (simp add: runTasksWithConcurrencyLimit_def refuse_def start_pool_eq)
  with pool_outcome_faithful [OF r_into_rtranclp [of "pool_step failing_task 3", OF step]]
  show ?thesis by simp
qed

end
