(* ===== verification/JsBytes.thy ===== *)
theory JsBytes
  imports JsValue "HOL-Library.Word"
begin

text \<open>
  Bytes of the ECMAScript and Web platform libraries: \<open>Uint8Array\<close> as a list of 8-bit words,
  \<open>TextEncoder\<close> and \<open>TextDecoder\<close> (UTF-8), and the Base64 functions \<open>btoa\<close> and \<open>atob\<close>.
\<close>

type_synonym byte = "8 word"

definition char_of_byte :: "byte \<Rightarrow> char" where
  "char_of_byte b = char_of (unat b)"

definition byte_of_char :: "char \<Rightarrow> byte" where
  "byte_of_char c = word_of_nat (of_char c)"

lemma unat_byte_of_nat: "n < 256 \<Longrightarrow> unat (word_of_nat n :: byte) = n"
  by (simp add: unat_of_nat)

lemma unat_byte: "unat (b :: byte) < 256"
  using unsigned_less [of b] by simp

lemma of_char_of_byte [simp]: "of_char (char_of_byte b) = unat b"
  using unat_byte [of b] by (simp add: char_of_byte_def)

lemma byte_of_char_of_byte [simp]: "byte_of_char (char_of_byte b) = b"
  by (simp add: byte_of_char_def)

lemma of_char_lt256 [simp]: "(of_char c :: nat) < 256"
  using nat_of_char_less_256 [of c] by simp

lemma unat_byte_of_char [simp]: "unat (byte_of_char c) = of_char c"
  by (simp add: byte_of_char_def unat_of_nat)

lemma char_of_byte_of_char [simp]: "char_of_byte (byte_of_char c) = c"
  by (simp add: char_of_byte_def)

section \<open>UTF-8\<close>

text \<open>
  Code points below 256 take one or two bytes. What decodes to a larger code point or is not
  well-formed is outside the texts of the model and read as a question mark.
\<close>

definition utf8_char :: "char \<Rightarrow> byte list" where
  "utf8_char c =
     (let n = (of_char c :: nat) in
      if n < 128 then [word_of_nat n] else [word_of_nat (192 + n div 64), word_of_nat (128 + n mod 64)])"

definition text_encode :: "string \<Rightarrow> byte list" where
  "text_encode s = concat (map utf8_char s)"

fun text_decode :: "byte list \<Rightarrow> string" where
  "text_decode [] = []"
| "text_decode (b # bs) =
     (if unat b < 128 then char_of (unat b) # text_decode bs
      else case bs of
        c # cs \<Rightarrow>
          if unat b \<in> {194, 195} \<and> 128 \<le> unat c \<and> unat c < 192
          then char_of ((unat b - 192) * 64 + (unat c - 128)) # text_decode cs
          else CHR ''?'' # text_decode bs
      | [] \<Rightarrow> ''?'')"

lemma text_decode_utf8_char: "text_decode (utf8_char c @ bs) = c # text_decode bs"
proof (cases "(of_char c :: nat) < 128")
  case True
  then show ?thesis by (simp add: utf8_char_def unat_of_nat)
next
  case False
  let ?n = "of_char c :: nat"
  have n: "128 \<le> ?n" "?n < 256" using False by simp_all
  have "128 div 64 \<le> ?n div 64" using n(1) by (rule div_le_mono)
  moreover have "?n div 64 < 4" using n(2) by (simp add: less_mult_imp_div_less)
  ultimately have d: "?n div 64 = 2 \<or> ?n div 64 = 3" by linarith
  have "unat (word_of_nat (192 + ?n div 64) :: byte) = 192 + ?n div 64"
    "unat (word_of_nat (128 + ?n mod 64) :: byte) = 128 + ?n mod 64"
    using d by (auto intro!: unat_byte_of_nat simp del: of_nat_add)
  moreover have "(?n div 64) * 64 + ?n mod 64 = ?n" by simp
  ultimately show ?thesis using d False
    by (auto simp: utf8_char_def Let_def simp del: of_nat_add unat_of_nat)
qed

lemma text_decode_encode [simp]: "text_decode (text_encode s) = s"
  by (induction s) (simp_all add: text_encode_def text_decode_utf8_char)

lemma length_text_encode:
  "length s \<le> length (text_encode s)" "length (text_encode s) \<le> 2 * length s"
  "list_all (\<lambda>c. (of_char c :: nat) < 128) s \<Longrightarrow> length (text_encode s) = length s"
  by (induction s) (auto simp: text_encode_def utf8_char_def Let_def)

lemma text_encode_inject [simp]: "text_encode s = text_encode t \<longleftrightarrow> s = t"
  by (metis text_decode_encode)

section \<open>Base64\<close>

definition b64_char :: "nat \<Rightarrow> char" where
  "b64_char n =
     (if n < 26 then char_of (65 + n) else if n < 52 then char_of (71 + n)
      else if n < 62 then char_of (n - 4) else if n = 62 then CHR ''+'' else CHR ''/'')"

definition b64_val :: "char \<Rightarrow> nat option" where
  "b64_val c =
     (let n = (of_char c :: nat) in
      if 65 \<le> n \<and> n \<le> 90 then Some (n - 65)
      else if 97 \<le> n \<and> n \<le> 122 then Some (n - 71)
      else if 48 \<le> n \<and> n \<le> 57 then Some (n + 4)
      else if n = 43 then Some 62 else if n = 47 then Some 63 else None)"

text \<open>\<open>btoa\<close> on a binary string.\<close>

fun btoa :: "string \<Rightarrow> string" where
  "btoa [] = []"
| "btoa [a] = (let a = of_char a in [b64_char (a div 4), b64_char (a mod 4 * 16), CHR ''='', CHR ''=''])"
| "btoa [a, b] =
     (let a = of_char a; b = of_char b
      in [b64_char (a div 4), b64_char (a mod 4 * 16 + b div 16), b64_char (b mod 16 * 4), CHR ''=''])"
| "btoa (a # b # c # s) =
     (let a = of_char a; b = of_char b; c = of_char c
      in b64_char (a div 4) # b64_char (a mod 4 * 16 + b div 16) # b64_char (b mod 16 * 4 + c div 64) #
         b64_char (c mod 64) # btoa s)"

text \<open>The forgiving decoder of \<open>atob\<close>: the bits left over at the end are dropped.\<close>

fun decode_sextets :: "nat list \<Rightarrow> string" where
  "decode_sextets (a # b # c # d # s) =
     char_of (a * 4 + b div 16) # char_of (b mod 16 * 16 + c div 4) # char_of (c mod 4 * 64 + d) # decode_sextets s"
| "decode_sextets [a, b, c] = [char_of (a * 4 + b div 16), char_of (b mod 16 * 16 + c div 4)]"
| "decode_sextets [a, b] = [char_of (a * 4 + b div 16)]"
| "decode_sextets _ = []"

definition strip_padding :: "string \<Rightarrow> string" where
  "strip_padding s =
     (if length s mod 4 = 0
      then (case rev s of
          x # y # r \<Rightarrow> if x = CHR ''='' \<and> y = CHR ''='' then rev r else if x = CHR ''='' then rev (y # r) else s
        | [x] \<Rightarrow> if x = CHR ''='' then [] else s
        | [] \<Rightarrow> s)
      else s)"

definition ascii_ws :: "char \<Rightarrow> bool" where
  "ascii_ws c \<longleftrightarrow> (of_char c :: nat) \<in> {9, 10, 12, 13, 32}"

text \<open>\<open>None\<close> is the \<open>InvalidCharacterError\<close>.\<close>

definition atob :: "string \<Rightarrow> string option" where
  "atob s =
     (let t = strip_padding (filter (\<lambda>c. \<not> ascii_ws c) s) in
      if length t mod 4 = 1 \<or> list_ex (\<lambda>c. b64_val c = None) t then None
      else Some (decode_sextets (map (\<lambda>c. the (b64_val c)) t)))"

section \<open>Facts\<close>

lemma b64_val_char [simp]: "n < 64 \<Longrightarrow> b64_val (b64_char n) = Some n"
  by (auto simp: b64_val_def b64_char_def Let_def)

lemma b64_val_not: "ascii_ws c \<Longrightarrow> b64_val c = None" "b64_val (CHR ''='') = None"
  by (auto simp: ascii_ws_def b64_val_def)

lemma b64_char_set: "n < 64 \<Longrightarrow> \<not> ascii_ws (b64_char n) \<and> b64_char n \<noteq> CHR ''=''"
  using b64_val_char [of n] b64_val_not by (metis option.distinct(1))

text \<open>The 6-bit groups of a binary string; \<open>btoa\<close> writes one character for each and pads.\<close>

fun sextets :: "string \<Rightarrow> nat list" where
  "sextets [] = []"
| "sextets [a] = [of_char a div 4, of_char a mod 4 * 16]"
| "sextets [a, b] = [of_char a div 4, of_char a mod 4 * 16 + of_char b div 16, of_char b mod 16 * 4]"
| "sextets (a # b # c # s) =
     of_char a div 4 # (of_char a mod 4 * 16 + of_char b div 16) # (of_char b mod 16 * 4 + of_char c div 64) #
     of_char c mod 64 # sextets s"

lemma btoa_sextets: "btoa s = map b64_char (sextets s) @ replicate ((3 - length s mod 3) mod 3) CHR ''=''"
  by (induction s rule: btoa.induct) (auto simp: Let_def numeral_2_eq_2)

lemma sextet_bounds:
  assumes "a < 256" "b < (256::nat)"
  shows "a div 4 < (64::nat)" "a mod 4 * 16 + b div 16 < (64::nat)" "a mod 16 * 4 + b div 64 < (64::nat)"
    "a mod 4 * 16 < (64::nat)" "a mod 16 * 4 < (64::nat)" "a mod 64 < (64::nat)"
proof -
  have "b div 16 < 16" "b div 64 < 4" using assms by (simp_all add: less_mult_imp_div_less)
  moreover have "a mod 4 < 4" "a mod 16 < 16" by simp_all
  ultimately show "a mod 4 * 16 + b div 16 < (64::nat)" "a mod 16 * 4 + b div 64 < (64::nat)"
    "a mod 4 * 16 < (64::nat)" "a mod 16 * 4 < (64::nat)" by linarith+
qed (use assms in \<open>simp_all add: less_mult_imp_div_less\<close>)

lemma sextets_lt: "list_all (\<lambda>n. n < 64) (sextets s)"
proof -
  have "of_char c div 4 < (64::nat)" for c using sextet_bounds(1) [of "of_char c" 0] by simp
  then show ?thesis by (induction s rule: sextets.induct) (simp_all add: sextet_bounds)
qed

lemma join_sextets:
  assumes "a < 256" "b < (256::nat)"
  shows "a div 4 * 4 + (a mod 4 * 16 + b div 16) div 16 = a"
    "(a mod 4 * 16 + b div 16) mod 16 * 16 + (b mod 16 * 4 + c div 64) div 4 = b div 16 * 16 + (b mod 16 * 4 + c div 64) div 4"
    "(b mod 16 * 4 + c div 64) mod 4 * 64 + c mod 64 = c div 64 mod 4 * 64 + c mod 64"
    "a div 4 * 4 + (a mod 4 * 16) div 16 = a"
proof -
  have "b div 16 < 16" using assms by (simp add: less_mult_imp_div_less)
  then show "a div 4 * 4 + (a mod 4 * 16 + b div 16) div 16 = a"
    "(a mod 4 * 16 + b div 16) mod 16 * 16 + (b mod 16 * 4 + c div 64) div 4 =
     b div 16 * 16 + (b mod 16 * 4 + c div 64) div 4" by simp_all
qed simp_all

lemma decode_sextets_sextets: "decode_sextets (sextets s) = s"
proof (induction s rule: sextets.induct)
  case (3 a b)
  have "of_char b div 16 * 16 + of_char b mod 16 * 4 div 4 = (of_char b :: nat)" by simp
  then show ?case using join_sextets(1) [of "of_char a" "of_char b"]
    join_sextets(2) [of "of_char a" "of_char b" 0] by simp
next
  case (4 a b c s)
  have c: "(of_char c :: nat) div 64 < 4" using of_char_lt256 [of c] by (simp add: less_mult_imp_div_less)
  then have "(of_char b mod 16 * 4 + of_char c div 64) div 4 = (of_char b mod 16 :: nat)" by simp
  then have "of_char b div 16 * 16 + (of_char b mod 16 * 4 + of_char c div 64) div 4 = (of_char b :: nat)" by simp
  moreover have "of_char c div 64 mod 4 * 64 + of_char c mod 64 = (of_char c :: nat)" using c by simp
  ultimately show ?case using join_sextets(1) [of "of_char a" "of_char b"]
      join_sextets(2,3) [of "of_char a" "of_char b" "of_char c"] 4 by simp
qed simp_all

lemma length_sextets: "length (sextets s) = 4 * (length s div 3) + (if length s mod 3 = 0 then 0 else length s mod 3 + 1)"
  by (induction s rule: sextets.induct) auto

lemma length_btoa: "length (btoa s) mod 4 = 0"
  by (induction s rule: btoa.induct) (auto simp: Let_def)

lemma strip_padding_btoa: "strip_padding (btoa s) = map b64_char (sextets s)"
proof -
  let ?d = "map b64_char (sextets s)" and ?k = "(3 - length s mod 3) mod 3"
  have no_pad: "c \<noteq> CHR ''=''" if "c \<in> set ?d" for c
    using sextets_lt [of s] that b64_char_set by (auto simp: list_all_iff)
  have len: "length (?d @ replicate ?k CHR ''='') mod 4 = 0"
    using length_btoa [of s] by (simp only: btoa_sextets)
  have strip: "strip_padding (?d @ replicate k CHR ''='') = ?d"
    if k: "k = 0 \<or> k = 1 \<or> k = 2" and l: "length (?d @ replicate k CHR ''='') mod 4 = 0" for k
  proof (cases "rev ?d")
    case Nil
    with k l show ?thesis by (auto simp: strip_padding_def)
  next
    case (Cons x r)
    then have d: "?d = rev r @ [x]" by (metis rev.simps(2) rev_rev_ident)
    with no_pad have "x \<noteq> CHR ''=''" by simp
    with k show ?thesis unfolding strip_padding_def if_P [OF l]
      by (elim disjE) (simp_all add: d numeral_2_eq_2 split: list.split)
  qed
  have "?k = 0 \<or> ?k = 1 \<or> ?k = 2" using mod_less_divisor [of 3 "3 - length s mod 3"] by linarith
  from strip [OF this len] show ?thesis unfolding btoa_sextets .
qed

lemma alphabet_digits:
  "list_all (\<lambda>c. b64_val c \<noteq> None) (map b64_char (sextets s))"
  "filter (\<lambda>c. \<not> ascii_ws c) (map b64_char (sextets s)) = map b64_char (sextets s)"
  "map (\<lambda>c. the (b64_val c)) (map b64_char (sextets s)) = sextets s"
proof -
  note lt = sextets_lt [of s, unfolded list_all_iff]
  show "list_all (\<lambda>c. b64_val c \<noteq> None) (map b64_char (sextets s))" using lt by (simp add: list_all_iff)
  show "filter (\<lambda>c. \<not> ascii_ws c) (map b64_char (sextets s)) = map b64_char (sextets s)"
    using lt b64_char_set by (simp add: filter_id_conv)
  show "map (\<lambda>c. the (b64_val c)) (map b64_char (sextets s)) = sextets s"
    using lt by (simp add: map_idI)
qed

lemma atob_btoa: "atob (btoa s) = Some s"
proof -
  have "filter (\<lambda>c. \<not> ascii_ws c) (btoa s) = btoa s"
    using alphabet_digits(2) [of s] by (simp add: btoa_sextets ascii_ws_def)
  moreover have "length (sextets s) mod 4 \<noteq> 1"
  proof -
    have "length s mod 3 < 3" by simp
    then have "length s mod 3 = 0 \<or> length s mod 3 = 1 \<or> length s mod 3 = 2" by linarith
    moreover have "(4 * q + r) mod 4 = r" if "r < 4" for q r :: nat using that by simp
    from this [of 2 "length s div 3"] this [of 3 "length s div 3"] have
      "(4 * (length s div 3) + 2) mod 4 = 2" "(4 * (length s div 3) + 3) mod 4 = 3" by simp_all
    ultimately show ?thesis unfolding length_sextets by (elim disjE) simp_all
  qed
  moreover have "\<not> list_ex (\<lambda>c. b64_val c = None) (map b64_char (sextets s))"
    using alphabet_digits(1) [of s] by (auto simp: list_all_iff list_ex_iff)
  ultimately show ?thesis
    unfolding atob_def Let_def strip_padding_btoa
    using alphabet_digits(3) [of s] by (simp add: strip_padding_btoa decode_sextets_sextets del: map_map)
qed

end
