(* ===== verification/BlobRegistry.thy ===== *)
theory BlobRegistry
  imports JsMap JsBytes "HOL-Library.Word" "HOL-Library.Monad_Syntax"
begin

text \<open>
  \<open>MailBlobUploadRegistry\<close> of \<open>packages/calendar-core/src/mail-server-policy.ts\<close> and the two methods
  of the web client (\<open>apps/web/lib/mail/jmap-client.ts\<close>) that re-upload expired blobs before a
  message is sent. Several blob ids can name one record object, which is updated in place, so the
  objects live in a store and the map holds their addresses.
\<close>

section \<open>Records\<close>

datatype blob_upload_source =
    BytesSource (source_content: "8 word list") (source_type: string) (source_filename: "string option")
  | TextSource (source_text: string) (source_text_type: "string option")

record registered_blob =
  rb_blobId :: string
  rb_size :: nat
  rb_type :: string
  rb_name :: "string option"
  rb_uploadedAt :: int
  rb_source :: blob_upload_source

text \<open>The fields of the second argument of \<open>replaceBlobId\<close>.\<close>

record blob_patch =
  np_blobId :: string
  np_size :: nat
  np_uploadedAt :: int

section \<open>The registry\<close>

text \<open>An address is the position of an object in \<open>objects\<close>, in the order of allocation.\<close>

record blob_registry =
  byBlobId :: "string \<rightharpoonup> nat"
  objects :: "registered_blob list"

definition new_registry :: blob_registry where
  "new_registry = \<lparr>byBlobId = Map.empty, objects = []\<rparr>"

text \<open>Every caller passes a new object literal, which is allocated here.\<close>

definition register :: "blob_registry \<Rightarrow> registered_blob \<Rightarrow> blob_registry" where
  "register reg upload =
     reg\<lparr>byBlobId := (byBlobId reg)(rb_blobId upload \<mapsto> length (objects reg)), objects := objects reg @ [upload]\<rparr>"

definition get_record :: "blob_registry \<Rightarrow> string \<Rightarrow> registered_blob option" where
  "get_record reg blobId = map_option (\<lambda>a. objects reg ! a) (byBlobId reg blobId)"

definition assign_patch :: "registered_blob \<Rightarrow> blob_patch \<Rightarrow> registered_blob" where
  "assign_patch existing p =
     existing\<lparr>rb_blobId := np_blobId p, rb_size := np_size p, rb_uploadedAt := np_uploadedAt p\<rparr>"

definition replaceBlobId :: "blob_registry \<Rightarrow> string \<Rightarrow> blob_patch \<Rightarrow> blob_registry" where
  "replaceBlobId reg oldBlobId p =
     (case byBlobId reg oldBlobId of
        None \<Rightarrow> reg
      | Some existing \<Rightarrow>
          reg\<lparr>objects := (objects reg)[existing := assign_patch (objects reg ! existing) p],
              byBlobId := (byBlobId reg)(np_blobId p \<mapsto> existing)\<rparr>)"

definition isBlobUploadExpired :: "int \<Rightarrow> int \<Rightarrow> int \<Rightarrow> bool" where
  "isBlobUploadExpired uploadedAt uploadTtlMs now \<longleftrightarrow> uploadTtlMs > 0 \<and> now - uploadedAt \<ge> uploadTtlMs"

section \<open>Refreshing expired uploads\<close>

text \<open>
  \<open>reupload a source\<close> is what uploading the source of the record at address \<open>a\<close> settles with: an
  error, or the blob id and size of the answer and the time at which it arrives.
\<close>

type_synonym reupload = "nat \<Rightarrow> blob_upload_source \<Rightarrow> string + blob_patch"

text \<open>The task of one record; the \<open>blobId\<close> it replaces is read when the answer is there.\<close>

definition refresh_record ::
  "int \<Rightarrow> int \<Rightarrow> reupload \<Rightarrow> nat \<Rightarrow> string option \<times> blob_registry \<Rightarrow> string option \<times> blob_registry" where
  "refresh_record uploadTtlMs now reupload a = (\<lambda>(failure, reg).
     let record = objects reg ! a in
     if \<not> isBlobUploadExpired (rb_uploadedAt record) uploadTtlMs now then (failure, reg)
     else case reupload a (rb_source record) of
       Inl e \<Rightarrow> (case failure of None \<Rightarrow> Some e | Some f \<Rightarrow> Some f, reg)
     | Inr refreshed \<Rightarrow> (failure, replaceBlobId reg (rb_blobId record) refreshed))"

definition records_of :: "blob_registry \<Rightarrow> string list \<Rightarrow> nat list" where
  "records_of reg blobIds = uniq (List.map_filter (byBlobId reg) blobIds)"

text \<open>
  The tasks run in a pool, so they settle in some order, given by \<open>order\<close>; the first failure is
  what the call rejects with.
\<close>

definition refreshRegisteredBlobUploads ::
  "int \<Rightarrow> int \<Rightarrow> reupload \<Rightarrow> nat list \<Rightarrow> blob_registry \<Rightarrow> string option \<times> blob_registry" where
  "refreshRegisteredBlobUploads uploadTtlMs now reupload order reg =
     fold (refresh_record uploadTtlMs now reupload) order (None, reg)"

record jmap_attachment =
  ja_blobId :: string
  ja_name :: string
  ja_type :: string
  ja_size :: nat
  ja_disposition :: "string option"
  ja_cid :: "string option"

record jmap_ciphertext =
  pg_blobId :: string
  pg_size :: nat

definition refresh_attachment :: "blob_registry \<Rightarrow> jmap_attachment \<Rightarrow> jmap_attachment" where
  "refresh_attachment reg attachment =
     (case get_record reg (ja_blobId attachment) of
        None \<Rightarrow> attachment
      | Some refreshed \<Rightarrow>
          attachment\<lparr>ja_blobId := rb_blobId refreshed, ja_size := rb_size refreshed, ja_type := rb_type refreshed\<rparr>)"

definition refresh_ciphertext :: "blob_registry \<Rightarrow> jmap_ciphertext \<Rightarrow> jmap_ciphertext" where
  "refresh_ciphertext reg c =
     (let pgpRecord = get_record reg (pg_blobId c)
      in \<lparr>pg_blobId = (case pgpRecord of None \<Rightarrow> pg_blobId c | Some r \<Rightarrow> rb_blobId r),
          pg_size = (case pgpRecord of None \<Rightarrow> pg_size c | Some r \<Rightarrow> rb_size r)\<rparr>)"

text \<open>The ids whose records the refresh visits: those of the attachments and of the ciphertext.\<close>

definition outgoing_blob_ids :: "jmap_attachment list option \<Rightarrow> jmap_ciphertext option \<Rightarrow> string list" where
  "outgoing_blob_ids attachments ciphertext =
     map ja_blobId (case attachments of None \<Rightarrow> [] | Some xs \<Rightarrow> xs) @
     (case ciphertext of None \<Rightarrow> [] | Some c \<Rightarrow> [pg_blobId c])"

definition refreshOutgoingBlobReferences ::
  "int \<Rightarrow> int \<Rightarrow> reupload \<Rightarrow> nat list \<Rightarrow> jmap_attachment list option \<Rightarrow> jmap_ciphertext option \<Rightarrow> blob_registry \<Rightarrow>
   (string + jmap_attachment list option \<times> jmap_ciphertext option) \<times> blob_registry" where
  "refreshOutgoingBlobReferences uploadTtlMs now reupload order attachments ciphertext reg =
     (if attachments \<in> {None, Some []} \<and> ciphertext = None then (Inr (attachments, ciphertext), reg)
      else case refreshRegisteredBlobUploads uploadTtlMs now reupload order reg of
        (Some e, reg') \<Rightarrow> (Inl e, reg')
      | (None, reg') \<Rightarrow>
          (Inr (map_option (map (refresh_attachment reg')) attachments,
                map_option (refresh_ciphertext reg') ciphertext), reg'))"

section \<open>Aliases\<close>

datatype registry_op = Register registered_blob | Replace string blob_patch

fun apply_op :: "registry_op \<Rightarrow> blob_registry \<Rightarrow> blob_registry" where
  "apply_op (Register u) reg = register reg u"
| "apply_op (Replace b p) reg = replaceBlobId reg b p"

definition registry_ok :: "blob_registry \<Rightarrow> bool" where
  "registry_ok reg \<longleftrightarrow> (\<forall>a \<in> ran (byBlobId reg). a < length (objects reg))"

lemma registry_okD: "registry_ok reg \<Longrightarrow> byBlobId reg b = Some a \<Longrightarrow> a < length (objects reg)"
  by (auto simp: registry_ok_def ran_def)

lemma registry_ok_new [simp]: "registry_ok new_registry"
  by (simp add: registry_ok_def new_registry_def)

lemma registry_ok_apply: "registry_ok reg \<Longrightarrow> registry_ok (apply_op x reg)"
  by (cases x) (auto simp: registry_ok_def register_def replaceBlobId_def ran_def
    split: option.splits if_splits intro: less_SucI)

lemma registry_ok_fold: "registry_ok reg \<Longrightarrow> registry_ok (fold apply_op xs reg)"
  by (induction xs arbitrary: reg) (simp_all add: registry_ok_apply)

text \<open>
  The abstract registry is a list of uploads, each with the set of ids that stand for it. A
  registered id leaves the upload it stood for; replacing one id of an upload updates it for all
  its ids and adds the new id.
\<close>

type_synonym alias_class = "string set \<times> registered_blob"

fun spec_op :: "registry_op \<Rightarrow> alias_class list \<Rightarrow> alias_class list" where
  "spec_op (Register u) cs = map (apfst (\<lambda>ids. ids - {rb_blobId u})) cs @ [({rb_blobId u}, u)]"
| "spec_op (Replace b p) cs =
     (if list_all (\<lambda>c. b \<notin> fst c) cs then cs
      else map (\<lambda>(ids, r). if b \<in> ids then (insert (np_blobId p) ids, assign_patch r p)
                            else (ids - {np_blobId p}, r)) cs)"

definition spec_get :: "alias_class list \<Rightarrow> string \<Rightarrow> registered_blob option" where
  "spec_get cs blobId = map_option snd (find (\<lambda>c. blobId \<in> fst c) cs)"

definition alias_classes :: "blob_registry \<Rightarrow> alias_class list" where
  "alias_classes reg = map (\<lambda>a. ({b. byBlobId reg b = Some a}, objects reg ! a)) [0..<length (objects reg)]"

lemma alias_classes_register:
  assumes "registry_ok reg"
  shows "alias_classes (register reg u) = spec_op (Register u) (alias_classes reg)"
proof -
  have "{b. byBlobId (register reg u) b = Some a} = {b. byBlobId reg b = Some a} - {rb_blobId u}"
    if "a < length (objects reg)" for a
    using that by (auto simp: register_def)
  moreover have "{b. byBlobId (register reg u) b = Some (length (objects reg))} = {rb_blobId u}"
    using registry_okD [OF assms] by (auto simp: register_def)
  ultimately show ?thesis
    by (simp add: alias_classes_def) (simp add: register_def nth_append)
qed

lemma alias_classes_replace:
  assumes "registry_ok reg"
  shows "alias_classes (replaceBlobId reg b p) = spec_op (Replace b p) (alias_classes reg)"
proof (cases "byBlobId reg b")
  case None
  then show ?thesis by (simp add: replaceBlobId_def alias_classes_def list_all_iff)
next
  case (Some e)
  with registry_okD [OF assms] have e: "e < length (objects reg)" by blast
  with Some have "\<not> list_all (\<lambda>c. b \<notin> fst c) (alias_classes reg)"
    by (auto simp: alias_classes_def list_all_iff)
  moreover have "alias_classes (replaceBlobId reg b p) =
      map (\<lambda>(ids, r). if b \<in> ids then (insert (np_blobId p) ids, assign_patch r p) else (ids - {np_blobId p}, r))
        (alias_classes reg)"
    using Some e by (auto simp: alias_classes_def replaceBlobId_def nth_list_update)
  ultimately show ?thesis by simp
qed

lemma find_snoc:
  "find p (xs @ [x]) = (case find p xs of None \<Rightarrow> if p x then Some x else None | Some y \<Rightarrow> Some y)"
  by (induction xs) auto

lemma find_upt: "find (\<lambda>a. a = k) [0..<m] = (if k < m then Some k else None)"
  by (induction m) (auto simp: find_snoc)

lemma find_map: "find p (map f xs) = map_option f (find (p \<circ> f) xs)"
  by (induction xs) auto

lemma spec_get_alias_classes:
  assumes "registry_ok reg"
  shows "spec_get (alias_classes reg) b = get_record reg b"
proof (cases "byBlobId reg b")
  case None
  then have "(\<lambda>c. b \<in> fst c) \<circ> (\<lambda>a. ({b. byBlobId reg b = Some a}, objects reg ! a)) = (\<lambda>a. False)" by auto
  then show ?thesis by (simp add: spec_get_def alias_classes_def find_map get_record_def None find_None_iff)
next
  case (Some e)
  then have "(\<lambda>c. b \<in> fst c) \<circ> (\<lambda>a. ({b. byBlobId reg b = Some a}, objects reg ! a)) = (\<lambda>a. a = e)" by auto
  with Some registry_okD [OF assms Some] show ?thesis
    by (simp add: spec_get_def alias_classes_def find_map find_upt get_record_def)
qed

text \<open>C13: After any sequence of registrations and replacements, an id resolves to what the abstract
  registry says: every id an upload ever had, and that was not given away, resolves to its latest
  blob id, size and time, with the source it was registered with.\<close>

theorem registry_refines_alias_classes:
  "get_record (fold apply_op ops new_registry) blobId = spec_get (fold spec_op ops []) blobId"
proof -
  have "alias_classes (fold apply_op ops reg) = fold spec_op ops (alias_classes reg)" if "registry_ok reg" for reg
    using that
  proof (induction ops arbitrary: reg)
    case (Cons x ops)
    then have "alias_classes (apply_op x reg) = spec_op x (alias_classes reg)"
      by (cases x) (simp_all only: apply_op.simps alias_classes_register alias_classes_replace)
    with Cons registry_ok_apply [of reg x] show ?case by simp
  qed simp
  from this [of new_registry] have "alias_classes (fold apply_op ops new_registry) = fold spec_op ops []"
    by (simp add: alias_classes_def) (simp add: new_registry_def)
  with spec_get_alias_classes [OF registry_ok_fold [OF registry_ok_new], of ops blobId]
  show ?thesis by simp
qed

section \<open>Refreshed references\<close>





















text \<open>One attachment uploaded an hour ago; its first blob id stays in use in a draft.\<close>

definition sample_upload :: registered_blob where
  "sample_upload = \<lparr>rb_blobId = ''b0'', rb_size = 3, rb_type = ''text/plain'', rb_name = Some ''a.txt'',
     rb_uploadedAt = 0, rb_source = TextSource ''abc'' None\<rparr>"

definition sample_attachment :: jmap_attachment where
  "sample_attachment = \<lparr>ja_blobId = ''b0'', ja_name = ''a.txt'', ja_type = ''text/plain'', ja_size = 3,
     ja_disposition = None, ja_cid = None\<rparr>"






text \<open>
  The condition on the current ids matters. A draft refers to the first id of an upload that was
  refreshed; then the same bytes are attached again and the server answers with the refreshed id,
  which from then on stands for the new record only. When both have expired, the refresh for the
  draft's id replaces the other record, and the message leaves with the expired id.
\<close>

definition crossed_registry :: blob_registry where
  "crossed_registry =
     (let first = register new_registry sample_upload;
          refreshed = replaceBlobId first ''b0'' \<lparr>np_blobId = ''b1'', np_size = 3, np_uploadedAt = 3600001\<rparr>
      in register refreshed (sample_upload\<lparr>rb_blobId := ''b1'', rb_uploadedAt := 3600002\<rparr>))"

definition later_reupload :: reupload where
  "later_reupload a src = Inr \<lparr>np_blobId = ''b2'', np_size = 3, np_uploadedAt = 7200003\<rparr>"

lemma taken_id_leaves_expired:
  "(case refreshOutgoingBlobReferences 3600000 7200002 later_reupload [0] (Some [sample_attachment]) None
      crossed_registry of
      (Inr (Some out, _), reg') \<Rightarrow> ja_blobId (hd out) = ''b1'' \<and>
        map_option rb_blobId (get_record reg' ''b1'') = Some ''b2''
    | _ \<Rightarrow> False)"
  "records_of crossed_registry (outgoing_blob_ids (Some [sample_attachment]) None) = [0]"
  by code_simp+

end
