(* ===== verification/JsJson.thy ===== *)
theory JsJson
  imports JsValue JsMap "HOL-Library.Monad_Syntax"
begin

text \<open>
  \<open>JSON.stringify\<close> and \<open>JSON.parse\<close> on the texts and values of the model. An object is the list of
  its properties in insertion order. The texts of numbers that are not integers below $10^{21}$
  and of dates are the library functions \<open>Number.prototype.toString\<close> and \<open>toISOString\<close>, taken as
  fields of a record.
\<close>

record json_env =
  number_text :: "rat \<Rightarrow> string"
  iso_text :: "int \<Rightarrow> string"

section \<open>JSON.stringify\<close>

definition hex_digit :: "nat \<Rightarrow> char" where
  "hex_digit n = (if n < 10 then char_of (48 + n) else char_of (87 + n))"

definition json_escape :: "char \<Rightarrow> string" where
  "json_escape c =
     (let n = (of_char c :: nat) in
      if c = CHR 0x22 then [CHR 0x5C, CHR 0x22]
      else if c = CHR 0x5C then [CHR 0x5C, CHR 0x5C]
      else if n = 8 then [CHR 0x5C, CHR ''b'']
      else if n = 9 then [CHR 0x5C, CHR ''t'']
      else if n = 10 then [CHR 0x5C, CHR ''n'']
      else if n = 12 then [CHR 0x5C, CHR ''f'']
      else if n = 13 then [CHR 0x5C, CHR ''r'']
      else if n < 32 then [CHR 0x5C, CHR ''u'', CHR ''0'', CHR ''0'', hex_digit (n div 16), hex_digit (n mod 16)]
      else [c])"

definition json_quote :: "string \<Rightarrow> string" where
  "json_quote s = [CHR 0x22] @ concat (map json_escape s) @ [CHR 0x22]"

definition json_number :: "json_env \<Rightarrow> rat \<Rightarrow> string" where
  "json_number env q = (if is_integer q \<and> \<bar>q\<bar> < 10 ^ 21 then int_str \<lfloor>q\<rfloor> else number_text env q)"

text \<open>\<open>None\<close> is \<open>undefined\<close>: such a property is left out, such an element becomes \<open>null\<close>.\<close>

fun json_text :: "json_env \<Rightarrow> jsval \<Rightarrow> string option" where
  "json_text env JUndefined = None"
| "json_text env JNull = Some ''null''"
| "json_text env (JBool b) = Some (if b then ''true'' else ''false'')"
| "json_text env (JNum q) = Some (json_number env q)"
| "json_text env (JStr s) = Some (json_quote s)"
| "json_text env (JDate d) = Some (case d of None \<Rightarrow> ''null'' | Some t \<Rightarrow> json_quote (iso_text env t))"
| "json_text env (JArr xs) =
     Some (''['' @ join_with '','' (map (\<lambda>x. case json_text env x of None \<Rightarrow> ''null'' | Some t \<Rightarrow> t) xs) @ '']'')"
| "json_text env (JObj ps) =
     Some (''{'' @ join_with '','' (concat (map (\<lambda>(k, x). case json_text env x of
        None \<Rightarrow> [] | Some t \<Rightarrow> [json_quote k @ '':'' @ t]) ps)) @ ''}'')"

section \<open>JSON.parse\<close>

definition json_ws :: "char \<Rightarrow> bool" where
  "json_ws c \<longleftrightarrow> (of_char c :: nat) \<in> {9, 10, 13, 32}"

abbreviation skip_ws :: "string \<Rightarrow> string" where
  "skip_ws s \<equiv> dropWhile json_ws s"

definition unescape :: "char \<Rightarrow> char option" where
  "unescape c =
     (if c = CHR 0x22 \<or> c = CHR 0x5C \<or> c = CHR ''/'' then Some c
      else if c = CHR ''b'' then Some (char_of (8::nat))
      else if c = CHR ''t'' then Some (char_of (9::nat))
      else if c = CHR ''n'' then Some (char_of (10::nat))
      else if c = CHR ''f'' then Some (char_of (12::nat))
      else if c = CHR ''r'' then Some (char_of (13::nat))
      else None)"

text \<open>The rest of a string literal; an escaped code unit above 255 is read as a question mark.\<close>

fun parse_string :: "string \<Rightarrow> (string \<times> string) option" where
  "parse_string [] = None"
| "parse_string (c # s) =
     (if c = CHR 0x22 then Some ([], s)
      else if c = CHR 0x5C then
        (case s of
           e # r \<Rightarrow>
             if e = CHR ''u'' then
               (case r of
                  a # b # x # y # t \<Rightarrow>
                    do { n \<leftarrow> radix_nat 16 0 [a, b, x, y]; (v, rest) \<leftarrow> parse_string t;
                         Some ((if n < 256 then char_of n else CHR ''?'') # v, rest) }
                | _ \<Rightarrow> None)
             else do { u \<leftarrow> unescape e; (v, rest) \<leftarrow> parse_string r; Some (u # v, rest) }
         | [] \<Rightarrow> None)
      else if (of_char c :: nat) < 32 then None
      else do { (v, rest) \<leftarrow> parse_string s; Some (c # v, rest) })"

definition number_char :: "char \<Rightarrow> bool" where
  "number_char c \<longleftrightarrow> is_digit c \<or> c \<in> {CHR ''-'', CHR ''+'', CHR ''.'', CHR ''e'', CHR ''E''}"

text \<open>The grammar of a number: no leading zero, digits after a point and in an exponent.\<close>

definition json_exponent :: "string \<Rightarrow> bool" where
  "json_exponent s \<longleftrightarrow> s = [] \<or> (hd s \<in> {CHR ''e'', CHR ''E''} \<and>
     (let t = tl s; d = (if t \<noteq> [] \<and> hd t \<in> {CHR ''+'', CHR ''-''} then tl t else t) in all_digits d))"

definition json_number_ok :: "string \<Rightarrow> bool" where
  "json_number_ok s \<longleftrightarrow>
     (let u = (if s \<noteq> [] \<and> hd s = CHR ''-'' then tl s else s); d = takeWhile is_digit u; r = dropWhile is_digit u in
      d \<noteq> [] \<and> (hd d = CHR ''0'' \<longrightarrow> length d = 1) \<and>
      (if r \<noteq> [] \<and> hd r = CHR ''.''
       then takeWhile is_digit (tl r) \<noteq> [] \<and> json_exponent (dropWhile is_digit (tl r))
       else json_exponent r))"

definition parse_number :: "string \<Rightarrow> (jsval \<times> string) option" where
  "parse_number s =
     (let t = takeWhile number_char s in
      if json_number_ok t then map_option (\<lambda>q. (JNum q, dropWhile number_char s)) (js_number t) else None)"

definition strip_word :: "string \<Rightarrow> jsval \<Rightarrow> string \<Rightarrow> (jsval \<times> string) option" where
  "strip_word w v s = (if starts_with s w then Some (v, drop (length w) s) else None)"

text \<open>
  The first argument is fuel: each value and each comma of the text uses one unit. An object keeps
  the place of a key that comes twice and takes its last value.
\<close>

fun parse_value :: "nat \<Rightarrow> string \<Rightarrow> (jsval \<times> string) option"
  and parse_elements :: "nat \<Rightarrow> jsval list \<Rightarrow> string \<Rightarrow> (jsval \<times> string) option"
  and parse_members :: "nat \<Rightarrow> (string \<times> jsval) list \<Rightarrow> string \<Rightarrow> (jsval \<times> string) option" where
  "parse_value 0 s = None"
| "parse_value (Suc n) s =
     (case skip_ws s of
        [] \<Rightarrow> None
      | c # r \<Rightarrow>
          if c = CHR 0x22 then do { (t, rest) \<leftarrow> parse_string r; Some (JStr t, rest) }
          else if c = CHR ''['' then
            (case skip_ws r of
               [] \<Rightarrow> None
             | d # r' \<Rightarrow> if d = CHR '']'' then Some (JArr [], r') else parse_elements n [] r)
          else if c = CHR ''{'' then
            (case skip_ws r of
               [] \<Rightarrow> None
             | d # r' \<Rightarrow> if d = CHR ''}'' then Some (JObj [], r') else parse_members n [] r)
          else if c = CHR ''t'' then strip_word ''true'' (JBool True) (c # r)
          else if c = CHR ''f'' then strip_word ''false'' (JBool False) (c # r)
          else if c = CHR ''n'' then strip_word ''null'' JNull (c # r)
          else parse_number (c # r))"
| "parse_elements 0 acc s = None"
| "parse_elements (Suc n) acc s = do {
     (v, r) \<leftarrow> parse_value n s;
     case skip_ws r of
       [] \<Rightarrow> None
     | d # r' \<Rightarrow>
         if d = CHR '']'' then Some (JArr (acc @ [v]), r')
         else if d = CHR '','' then parse_elements n (acc @ [v]) r' else None
   }"
| "parse_members 0 acc s = None"
| "parse_members (Suc n) acc s =
     (case skip_ws s of
        [] \<Rightarrow> None
      | q # s' \<Rightarrow>
          if q \<noteq> CHR 0x22 then None
          else do {
            (k, r) \<leftarrow> parse_string s';
            (case skip_ws r of
               [] \<Rightarrow> None
             | c # r1 \<Rightarrow>
                 if c \<noteq> CHR '':'' then None
                 else do {
                   (v, r2) \<leftarrow> parse_value n r1;
                   case skip_ws r2 of
                     [] \<Rightarrow> None
                   | d # r3 \<Rightarrow>
                       if d = CHR ''}'' then Some (JObj (map_set k v acc), r3)
                       else if d = CHR '','' then parse_members n (map_set k v acc) r3 else None
                 })
          })"

text \<open>\<open>None\<close> is the \<open>SyntaxError\<close>.\<close>

definition json_read :: "string \<Rightarrow> jsval option" where
  "json_read s =
     (case parse_value (2 * length s + 1) s of
        Some (v, rest) \<Rightarrow> if skip_ws rest = [] then Some v else None
      | None \<Rightarrow> None)"

section \<open>A stringified value is read back\<close>

lemma hex_val_digit: "d < 16 \<Longrightarrow> hex_val 16 (hex_digit d) = Some d"
  by (auto simp: hex_val_def hex_digit_def is_digit_def Let_def)

lemma parse_string_escape:
  "parse_string (json_escape c @ r) = map_option (\<lambda>(v, rest). (c # v, rest)) (parse_string r)"
proof -
  let ?n = "of_char c :: nat"
  have char: "c = char_of k" if "?n = k" for k using that by (metis char_of_char)
  have quote: "(of_char (CHR 0x22) :: nat) = 34" "(of_char (CHR 0x5C) :: nat) = 92" by simp_all
  consider "c = CHR 0x22" | "c = CHR 0x5C" | "?n \<in> {8, 9, 10, 12, 13}"
    | "?n < 32" "?n \<notin> {8, 9, 10, 12, 13}" | "32 \<le> ?n" "c \<noteq> CHR 0x22" "c \<noteq> CHR 0x5C"
    by fastforce
  then show ?thesis
  proof cases
    case 4
    then have "hex_val 16 (hex_digit (?n div 16)) = Some (?n div 16)" "hex_val 16 (hex_digit (?n mod 16)) = Some (?n mod 16)"
      by (simp_all add: hex_val_digit)
    moreover have "hex_val 16 (CHR ''0'') = Some 0" by (simp add: hex_val_def is_digit_def)
    moreover have "?n div 16 * 16 + ?n mod 16 = ?n" by simp
    moreover have "c \<noteq> CHR 0x22" "c \<noteq> CHR 0x5C" using 4 quote by auto
    ultimately show ?thesis using 4
      by (simp add: json_escape_def Let_def mult.commute [of 16] split: Option.bind_split)
  next
    case 3
    then show ?thesis
      by (auto simp: json_escape_def unescape_def Let_def dest!: char split: Option.bind_split option.splits)
  qed (auto simp: json_escape_def unescape_def Let_def split: Option.bind_split option.splits)
qed

lemma parse_string_quote: "parse_string (concat (map json_escape s) @ CHR 0x22 # rest) = Some (s, rest)"
  by (induction s) (simp_all add: parse_string_escape)

lemma nat_str_leading: "0 < n \<Longrightarrow> hd (nat_str n) \<noteq> CHR ''0''"
proof (induction n rule: nat_str.induct)
  case (1 n)
  show ?case
  proof (cases "n < 10")
    case True
    then have "hd (nat_str n) = char_of (48 + n)" by (simp add: nat_str_small digit_char_def)
    moreover have "(of_char (char_of (48 + n)) :: nat) \<noteq> of_char (CHR ''0'')" using 1(2) True by simp
    ultimately show ?thesis by metis
  next
    case False
    then show ?thesis using 1 by (simp add: nat_str_step)
  qed
qed

lemma number_char_digit: "is_digit c \<Longrightarrow> number_char c"
  by (simp add: number_char_def)

lemma int_str_chars: "list_all number_char (int_str i)"
  using nat_str_digits [of "nat i"] nat_str_digits [of "nat (- i)"]
  by (auto simp: int_str_def list_all_iff number_char_def)

lemma json_number_ok_digits:
  assumes "list_all is_digit d" "d \<noteq> []" "hd d = CHR ''0'' \<Longrightarrow> length d = 1"
  shows "json_number_ok d" "json_number_ok (CHR ''-'' # d)"
proof -
  have "is_digit (hd d)" using assms by (cases d) auto
  then have "hd d \<noteq> CHR ''-''" by (auto simp: is_digit_def)
  with assms show "json_number_ok d" "json_number_ok (CHR ''-'' # d)"
    by (simp_all add: json_number_ok_def json_exponent_def takeWhile_digits dropWhile_digits list_all_iff)
qed

lemma json_number_ok_int_str: "json_number_ok (int_str i)"
proof -
  have "hd (nat_str n) = CHR ''0'' \<Longrightarrow> length (nat_str n) = 1" for n
    using nat_str_leading [of n] by (cases "n = 0") (auto simp: nat_str_small)
  then have "json_number_ok (nat_str n)" "json_number_ok (CHR ''-'' # nat_str n)" for n
    using json_number_ok_digits [OF nat_str_digits nat_str_neq_Nil] by blast+
  then show ?thesis by (simp add: int_str_def)
qed

lemma js_number_digits:
  assumes "all_digits d" "nat_of_digits d = n" "int n < double_overflow"
  shows "js_number (CHR ''-'' # d) = Some (- of_nat n)"
proof -
  have d: "list_all is_digit d" "d \<noteq> []" using assms(1) by (simp_all add: all_digits_def)
  have "\<not> is_ws (CHR ''-'')" by (simp add: is_ws_def)
  then have t: "trim (CHR ''-'' # d) = CHR ''-'' # d"
    using d by (simp add: trim_def dropWhile_none list_all_iff digit_not_ws)
  have "(of_nat n :: rat) < of_int double_overflow"
    using assms(3) by (metis of_int_less_iff of_int_of_nat_eq)
  moreover have "unsigned_decimal d = Some (of_nat n)" using unsigned_decimal_digits assms by blast
  moreover obtain x r where "d = x # r" using d(2) by (cases d) auto
  ultimately show ?thesis using t by (simp add: js_number_def strip_sign_def)
qed

lemma js_number_int_str:
  assumes "\<bar>i\<bar> < double_overflow"
  shows "js_number (int_str i) = Some (of_int i)"
proof (cases "0 \<le> i")
  case True
  with assms show ?thesis using js_number_nat_str [of "nat i"] by (simp add: int_str_nonneg)
next
  case False
  then have "js_number (int_str i) = js_number (CHR ''-'' # nat_str (nat (- i)))" by (simp only: int_str_def) simp
  also have "\<dots> = Some (- of_nat (nat (- i)))"
    using assms False by (intro js_number_digits all_digits_nat_str nat_of_digits_nat_str) simp
  finally show ?thesis using False by simp
qed

text \<open>The values that a text can carry: no \<open>undefined\<close>, dates or fractions, and no key twice.\<close>

fun json_plain :: "jsval \<Rightarrow> bool" where
  "json_plain JUndefined = False"
| "json_plain (JDate _) = False"
| "json_plain (JNum q) = (is_integer q \<and> \<bar>q\<bar> < 10 ^ 21)"
| "json_plain (JArr xs) = list_all json_plain xs"
| "json_plain (JObj ps) = (distinct (map fst ps) \<and> list_all (\<lambda>p. json_plain (snd p)) ps)"
| "json_plain _ = True"

text \<open>The text of such a value, and the fuel its reading takes.\<close>

fun plain_text :: "jsval \<Rightarrow> string" where
  "plain_text (JBool b) = (if b then ''true'' else ''false'')"
| "plain_text (JNum q) = int_str \<lfloor>q\<rfloor>"
| "plain_text (JStr s) = json_quote s"
| "plain_text (JArr xs) = ''['' @ join_with '','' (map plain_text xs) @ '']''"
| "plain_text (JObj ps) = ''{'' @ join_with '','' (map (\<lambda>(k, x). json_quote k @ '':'' @ plain_text x) ps) @ ''}''"
| "plain_text _ = ''null''"

fun fuel_for :: "jsval \<Rightarrow> nat" where
  "fuel_for (JArr xs) = Suc (sum_list (map (\<lambda>x. Suc (fuel_for x)) xs))"
| "fuel_for (JObj ps) = Suc (sum_list (map (\<lambda>(k, x). Suc (fuel_for x)) ps))"
| "fuel_for _ = 1"

lemma json_text_plain: "json_plain v \<Longrightarrow> json_text env v = Some (plain_text v)"
proof (induction env v rule: json_text.induct)
  case (7 env xs)
  then have "map (\<lambda>x. case json_text env x of None \<Rightarrow> ''null'' | Some t \<Rightarrow> t) xs = map plain_text xs"
    by (auto simp: list_all_iff)
  then show ?case by (simp only: json_text.simps plain_text.simps)
next
  case (8 env ps)
  then have "map (\<lambda>(k, x). case json_text env x of None \<Rightarrow> [] | Some t \<Rightarrow> [json_quote k @ '':'' @ t]) ps =
      map (\<lambda>(k, x). [json_quote k @ '':'' @ plain_text x]) ps"
    by (auto simp: list_all_iff)
  then have "concat (map (\<lambda>(k, x). case json_text env x of None \<Rightarrow> [] | Some t \<Rightarrow> [json_quote k @ '':'' @ t]) ps) =
      map (\<lambda>(k, x). json_quote k @ '':'' @ plain_text x) ps"
    by (simp only: ) (induction ps, auto)
  then show ?case by (simp del: concat.simps)
qed (auto simp: json_number_def)

lemma skip_ws_Cons: "\<not> json_ws c \<Longrightarrow> skip_ws (c # s) = c # s"
  by simp

text \<open>How a text begins.\<close>

lemma plain_text_start:
  "\<exists>c r. plain_text v = c # r \<and> \<not> json_ws c \<and> c \<noteq> CHR '']'' \<and> c \<noteq> CHR ''}''"
proof (cases v)
  case (JNum q)
  have "\<exists>c r. nat_str n = c # r \<and> is_digit c" for n
    using nat_str_digits [of n] nat_str_neq_Nil [of n] by (cases "nat_str n") auto
  moreover have "is_digit c \<Longrightarrow> \<not> json_ws c \<and> c \<noteq> CHR '']'' \<and> c \<noteq> CHR ''}''" for c
    by (auto simp: is_digit_def json_ws_def)
  ultimately show ?thesis using JNum by (cases "\<lfloor>q\<rfloor> < 0") (force simp: int_str_def json_ws_def)+
qed (auto simp: json_quote_def json_ws_def)

definition json_stop :: "string \<Rightarrow> bool" where
  "json_stop s \<longleftrightarrow> s = [] \<or> \<not> number_char (hd s)"

definition read_back :: "jsval \<Rightarrow> bool" where
  "read_back v \<longleftrightarrow> (\<forall>n rest. fuel_for v \<le> n \<longrightarrow> json_stop rest \<longrightarrow>
     parse_value n (plain_text v @ rest) = Some (v, rest))"

lemma read_backD:
  "read_back v \<Longrightarrow> fuel_for v \<le> n \<Longrightarrow> json_stop rest \<Longrightarrow> parse_value n (plain_text v @ rest) = Some (v, rest)"
  by (simp add: read_back_def)

lemma json_stop_simps [simp]:
  "json_stop (CHR '']'' # s)" "json_stop (CHR ''}'' # s)" "json_stop (CHR '','' # s)" "json_stop []"
  by (simp_all add: json_stop_def number_char_def is_digit_def)

lemma json_ws_simps [simp]:
  "\<not> json_ws (CHR '']'')" "\<not> json_ws (CHR ''}'')" "\<not> json_ws (CHR '','')" "\<not> json_ws (CHR '':'')"
  "\<not> json_ws (CHR 0x22)" "\<not> json_ws (CHR ''['')" "\<not> json_ws (CHR ''{'')"
  by (simp_all add: json_ws_def)

lemma parse_elements_read:
  assumes "\<forall>x \<in> set xs. read_back x" "xs \<noteq> []" "sum_list (map (\<lambda>x. Suc (fuel_for x)) xs) \<le> n"
  shows "parse_elements n acc (join_with '','' (map plain_text xs) @ CHR '']'' # rest) = Some (JArr (acc @ xs), rest)"
  using assms
proof (induction xs arbitrary: n acc)
  case (Cons x xs)
  from Cons.prems(3) obtain m where n: "n = Suc m" "fuel_for x \<le> m" "sum_list (map (\<lambda>x. Suc (fuel_for x)) xs) \<le> m"
    by (cases n) auto
  have read: "parse_value m (plain_text x @ r) = Some (x, r)" if "json_stop r" for r
    using read_backD [OF _ n(2) that] Cons.prems(1) by simp
  show ?case
  proof (cases xs)
    case Nil
    then show ?thesis using read [of "CHR '']'' # rest"] by (simp add: n(1))
  next
    case (Cons y ys)
    have "parse_elements m (acc @ [x]) (join_with '','' (map plain_text xs) @ CHR '']'' # rest) =
        Some (JArr ((acc @ [x]) @ xs), rest)"
      using Cons.IH Cons.prems(1) n(3) Cons by simp
    then show ?thesis
      using read [of "CHR '','' # join_with '','' (map plain_text xs) @ CHR '']'' # rest"]
      by (simp add: n(1) Cons)
  qed
qed simp

lemma map_set_new: "k \<notin> fst ` set acc \<Longrightarrow> map_set k v acc = acc @ [(k, v)]"
  by (induction k v acc rule: map_set.induct) auto

lemma parse_members_read:
  assumes "\<forall>p \<in> set ps. read_back (snd p)" "ps \<noteq> []" "sum_list (map (\<lambda>(k, x). Suc (fuel_for x)) ps) \<le> n"
    "distinct (map fst acc @ map fst ps)"
  shows "parse_members n acc (join_with '','' (map (\<lambda>(k, x). json_quote k @ '':'' @ plain_text x) ps) @ CHR ''}'' # rest) =
    Some (JObj (acc @ ps), rest)"
  using assms
proof (induction ps arbitrary: n acc)
  case (Cons p ps)
  obtain k x where p: "p = (k, x)" by (cases p)
  from Cons.prems(3) obtain m where n: "n = Suc m" "fuel_for x \<le> m"
    "sum_list (map (\<lambda>(k, x). Suc (fuel_for x)) ps) \<le> m"
    by (cases n) (auto simp: p)
  have read: "parse_value m (plain_text x @ r) = Some (x, r)" if "json_stop r" for r
    using read_backD [OF _ n(2) that] Cons.prems(1) by (simp add: p)
  have key: "parse_string (concat (map json_escape k) @ CHR 0x22 # r) = Some (k, r)" for r
    by (rule parse_string_quote)
  have new: "map_set k x acc = acc @ [(k, x)]" using Cons.prems(4) by (intro map_set_new) (auto simp: p)
  show ?case
  proof (cases ps)
    case Nil
    then show ?thesis using read [of "CHR ''}'' # rest"] key by (simp add: n(1) p json_quote_def new)
  next
    case (Cons q qs)
    let ?rest = "join_with '','' (map (\<lambda>(k, x). json_quote k @ '':'' @ plain_text x) ps) @ CHR ''}'' # rest"
    have "parse_members m (acc @ [(k, x)]) ?rest = Some (JObj ((acc @ [(k, x)]) @ ps), rest)"
    proof (rule Cons.IH)
      show "distinct (map fst (acc @ [(k, x)]) @ map fst ps)" using Cons.prems(4) by (auto simp: p)
    qed (use Cons.prems(1) n(3) Cons in simp_all)
    then show ?thesis
      using read [of "CHR '','' # ?rest"] key by (simp add: n(1) p Cons json_quote_def new)
  qed
qed simp

lemmas jsval_induct = fuel_for.induct [case_names arr obj undef null bool num str]

lemma plain_read_back: "json_plain v \<Longrightarrow> read_back v"
proof (induction v rule: jsval_induct)
  case (arr xs)
  then have items: "\<forall>x \<in> set xs. read_back x" by (simp add: list_all_iff)
  show ?case
    unfolding read_back_def
  proof (intro allI impI)
    fix n rest assume n: "fuel_for (JArr xs) \<le> n" "json_stop rest"
    then obtain m where m: "n = Suc m" "sum_list (map (\<lambda>x. Suc (fuel_for x)) xs) \<le> m" by (cases n) auto
    show "parse_value n (plain_text (JArr xs) @ rest) = Some (JArr xs, rest)"
    proof (cases xs)
      case Nil
      then show ?thesis by (simp add: m(1))
    next
      case (Cons x ys)
      let ?t = "join_with '','' (map plain_text xs) @ CHR '']'' # rest"
      obtain c r where c: "plain_text x = c # r" "\<not> json_ws c" "c \<noteq> CHR '']''" using plain_text_start [of x] by blast
      then obtain r' where "?t = c # r'" by (cases ys) (simp_all add: Cons)
      with parse_elements_read [OF items _ m(2), of "[]" rest] c Cons show ?thesis by (simp add: m(1))
    qed
  qed
next
  case (obj ps)
  have "\<forall>p \<in> set ps. read_back (snd p)" using obj by (auto simp: list_all_iff)
  note items = this
  show ?case
    unfolding read_back_def
  proof (intro allI impI)
    fix n rest assume n: "fuel_for (JObj ps) \<le> n" "json_stop rest"
    then obtain m where m: "n = Suc m" "sum_list (map (\<lambda>(k, x). Suc (fuel_for x)) ps) \<le> m" by (cases n) auto
    show "parse_value n (plain_text (JObj ps) @ rest) = Some (JObj ps, rest)"
    proof (cases ps)
      case Nil
      then show ?thesis by (simp add: m(1))
    next
      case (Cons p qs)
      let ?t = "join_with '','' (map (\<lambda>(k, x). json_quote k @ '':'' @ plain_text x) ps) @ CHR ''}'' # rest"
      obtain r' where "?t = CHR 0x22 # r'" by (cases p; cases qs) (simp_all add: Cons json_quote_def)
      with parse_members_read [OF items _ m(2), of "[]" rest] obj(2) Cons show ?thesis by (simp add: m(1))
    qed
  qed
next
  case (num q)
  show ?case
    unfolding read_back_def
  proof (intro allI impI)
    fix n rest assume n: "fuel_for (JNum q) \<le> n" "json_stop rest"
    then obtain m where m: "n = Suc m" by (cases n) auto
    obtain c r where c: "int_str \<lfloor>q\<rfloor> = c # r" "\<not> json_ws c" "c \<noteq> CHR '']''"
      using plain_text_start [of "JNum q"] by auto
    have chars: "list_all number_char (c # r)" using int_str_chars [of "\<lfloor>q\<rfloor>"] by (simp only: c)
    then have "c \<notin> {CHR 0x22, CHR ''['', CHR ''{'', CHR ''t'', CHR ''f'', CHR ''n''}"
      by (auto simp: number_char_def is_digit_def)
    moreover have "takeWhile number_char ((c # r) @ rest) = c # r" "dropWhile number_char ((c # r) @ rest) = rest"
      using chars n(2) by (cases rest; auto simp: json_stop_def list_all_iff)+
    moreover have "js_number (c # r) = Some q" "json_number_ok (c # r)"
    proof -
      have q: "rat_of_int \<lfloor>q\<rfloor> = q" "\<bar>q\<bar> < rat_of_int (10 ^ 21)" using num by (simp_all add: is_integer_def)
      then have "rat_of_int \<bar>\<lfloor>q\<rfloor>\<bar> < rat_of_int (10 ^ 21)" by (simp only: of_int_abs)
      then have "\<bar>\<lfloor>q\<rfloor>\<bar> < 10 ^ 21" by (simp only: of_int_less_iff)
      also have "(10 :: int) ^ 21 \<le> double_overflow" by (simp add: double_overflow_def)
      finally have "\<bar>\<lfloor>q\<rfloor>\<bar> < double_overflow" .
      then show "js_number (c # r) = Some q" "json_number_ok (c # r)"
        using js_number_int_str [of "\<lfloor>q\<rfloor>"] json_number_ok_int_str [of "\<lfloor>q\<rfloor>"] num by (simp_all add: c is_integer_def)
    qed
    ultimately show "parse_value n (plain_text (JNum q) @ rest) = Some (JNum q, rest)"
      using c by (simp add: m parse_number_def)
  qed
next
  case (str s)
  show ?case unfolding read_back_def
    by (auto simp: json_quote_def parse_string_quote Suc_le_eq gr0_conv_Suc)
qed (auto simp: read_back_def Suc_le_eq gr0_conv_Suc strip_word_def starts_with_def json_ws_def)

lemma length_join: "ws \<noteq> [] \<Longrightarrow> length (join_with [c] ws) + 1 = sum_list (map (\<lambda>w. Suc (length w)) ws)"
proof (induction ws)
  case (Cons w ws)
  then show ?case by (cases ws) auto
qed simp

lemma sum_list_le: "(\<And>x. x \<in> set xs \<Longrightarrow> f x \<le> (g x :: nat)) \<Longrightarrow> sum_list (map f xs) \<le> sum_list (map g xs)"
  by (induction xs) (auto intro: add_mono)

lemma fuel_le_text: "fuel_for v \<le> 2 * length (plain_text v)"
proof (induction v rule: jsval_induct)
  case (arr xs)
  have "sum_list (map (\<lambda>x. Suc (fuel_for x)) xs) \<le> sum_list (map (\<lambda>x. 2 * Suc (length (plain_text x))) xs)"
    using arr by (intro sum_list_le) fastforce
  also have "\<dots> = 2 * sum_list (map (\<lambda>w. Suc (length w)) (map plain_text xs))"
    by (simp only: sum_list_const_mult map_map comp_def)
  finally show ?case using length_join [of "map plain_text xs" "CHR '',''"] by (cases "xs = []") simp_all
next
  case (obj ps)
  let ?w = "\<lambda>(k, x). json_quote k @ '':'' @ plain_text x"
  have "sum_list (map (\<lambda>(k, x). Suc (fuel_for x)) ps) \<le> sum_list (map (\<lambda>p. 2 * Suc (length (?w p))) ps)"
    using obj by (intro sum_list_le) fastforce
  also have "\<dots> = 2 * sum_list (map (\<lambda>w. Suc (length w)) (map ?w ps))"
    by (simp only: sum_list_const_mult map_map comp_def)
  finally show ?case using length_join [of "map ?w ps" "CHR '',''"] by (cases "ps = []") simp_all
next
  case (num q)
  show ?case using plain_text_start [of "JNum q"] by (cases "int_str \<lfloor>q\<rfloor>") auto
qed (simp_all add: json_quote_def)

lemma json_round_trip:
  assumes "json_plain v"
  shows "\<exists>t. json_text env v = Some t \<and> json_read t = Some v"
proof -
  have "parse_value (2 * length (plain_text v) + 1) (plain_text v @ []) = Some (v, [])"
    using plain_read_back [OF assms] fuel_le_text [of v] by (intro read_backD) simp_all
  with json_text_plain [OF assms] show ?thesis by (simp add: json_read_def)
qed

end
