(* ===== verification/E2eeModule.thy ===== *)
theory E2eeModule
  imports JsBytes JsJson
begin

text \<open>
  \<open>packages/e2ee/src/e2ee-module.ts\<close>: Base64url, the encryption of JSON values with the account key,
  blind index tokens, password envelopes and the key sent instead of the password. Web Crypto
  (the \<open>CryptoProvider\<close> of \<open>crypto-provider.ts\<close>) and \<open>String.normalize\<close> are fields of a record;
  what the code relies on of them are the named laws below.
\<close>

section \<open>Base64url\<close>

text \<open>\<open>String.fromCharCode\<close> of the bytes, in chunks of 32768.\<close>

definition CHUNK_SIZE :: nat where "CHUNK_SIZE = 0x8000"

function binary_string :: "byte list \<Rightarrow> nat \<Rightarrow> string \<Rightarrow> string" where
  "binary_string bytes offset binary =
     (if offset < length bytes
      then binary_string bytes (offset + CHUNK_SIZE) (binary @ map char_of_byte (Prelude.slice offset (offset + CHUNK_SIZE) bytes))
      else binary)"
  by auto
termination
  by (relation "measure (\<lambda>(bytes, offset, _). length bytes - offset)") (auto simp: CHUNK_SIZE_def)

declare binary_string.simps [simp del]

definition strip_equals :: "string \<Rightarrow> string" where
  "strip_equals s = rev (dropWhile (\<lambda>c. c = CHR ''='') (rev s))"

definition bytesToBase64Url :: "byte list \<Rightarrow> string" where
  "bytesToBase64Url bytes =
     strip_equals (replace_char (CHR ''/'') ''_'' (replace_char (CHR ''+'') ''-'' (btoa (binary_string bytes 0 []))))"

definition pad_end :: "nat \<Rightarrow> char \<Rightarrow> string \<Rightarrow> string" where
  "pad_end n c s = s @ replicate (n - length s) c"

text \<open>\<open>None\<close> when \<open>atob\<close> throws.\<close>

definition base64UrlToArrayBuffer :: "string \<Rightarrow> byte list option" where
  "base64UrlToArrayBuffer value =
     (let padded = pad_end ((length value + 3) div 4 * 4) (CHR ''='')
            (replace_char (CHR ''_'') ''/'' (replace_char (CHR ''-'') ''+'' value))
      in map_option (map byte_of_char) (atob padded))"

section \<open>Web Crypto\<close>

datatype key_algorithm = AES_GCM_256 | HMAC_SHA_256 | PBKDF2

text \<open>
  \<open>'key\<close> are the keys, \<open>'rng\<close> the state of the random generator; \<open>None\<close> is a rejected promise.
  An absent additional data argument is \<open>None\<close>.
\<close>

record ('key, 'rng) web_crypto =
  wc_random :: "nat \<Rightarrow> 'rng \<Rightarrow> byte list \<times> 'rng"
  wc_uuid :: "'rng \<Rightarrow> string \<times> 'rng"
  wc_generate :: "key_algorithm \<Rightarrow> 'rng \<Rightarrow> 'key option \<times> 'rng"
  wc_generate_pair :: "'rng \<Rightarrow> ('key \<times> 'key) option \<times> 'rng"
  wc_import :: "key_algorithm \<Rightarrow> bool \<Rightarrow> byte list \<Rightarrow> 'key option"
  wc_export :: "'key \<Rightarrow> byte list option"
  wc_export_spki :: "'key \<Rightarrow> byte list option"
  wc_encrypt :: "byte list \<Rightarrow> byte list option \<Rightarrow> 'key \<Rightarrow> byte list \<Rightarrow> byte list option"
  wc_decrypt :: "byte list \<Rightarrow> byte list option \<Rightarrow> 'key \<Rightarrow> byte list \<Rightarrow> byte list option"
  wc_wrap :: "'key \<Rightarrow> 'key \<Rightarrow> 'rng \<Rightarrow> byte list option \<times> 'rng"
  wc_unwrap :: "byte list \<Rightarrow> 'key \<Rightarrow> key_algorithm \<Rightarrow> 'key option"
  wc_sign :: "'key \<Rightarrow> byte list \<Rightarrow> byte list option"
  wc_derive :: "byte list \<Rightarrow> nat \<Rightarrow> bool \<Rightarrow> 'key \<Rightarrow> 'key option"
  normalize_nfkc :: "string \<Rightarrow> string"
  json_texts :: json_env

section \<open>Errors\<close>

datatype e2ee_error = Thrown string | CryptoRejected | InvalidCharacter | JsonSyntax

fun attempt :: "e2ee_error \<Rightarrow> 'a option \<Rightarrow> e2ee_error + 'a" where
  "attempt e None = Inl e"
| "attempt e (Some x) = Inr x"

fun and_then :: "e2ee_error + 'a \<Rightarrow> ('a \<Rightarrow> e2ee_error + 'b) \<Rightarrow> e2ee_error + 'b" where
  "and_then (Inl e) f = Inl e"
| "and_then (Inr x) f = f x"

lemma attempt_eq [simp]: "attempt e x = Inr y \<longleftrightarrow> x = Some y"
  by (cases x) auto

lemma and_then_eq [simp]: "and_then x f = Inr y \<longleftrightarrow> (\<exists>z. x = Inr z \<and> f z = Inr y)"
  by (cases x) auto

section \<open>Encrypted payloads\<close>

record encrypted_payload =
  ep_version :: jsval
  ep_iv :: string
  ep_ciphertext :: string

definition GCM_IV_BYTES :: nat where "GCM_IV_BYTES = 12"

text \<open>\<open>additionalData ? { additionalData: ... } : {}\<close>: an empty string counts as absent.\<close>

definition aad_bytes :: "string option \<Rightarrow> byte list option" where
  "aad_bytes aad = (case aad of None \<Rightarrow> None | Some s \<Rightarrow> if s = [] then None else Some (text_encode s))"

definition encryptBytes ::
  "('key, 'rng) web_crypto \<Rightarrow> 'key \<Rightarrow> byte list \<Rightarrow> string option \<Rightarrow> 'rng \<Rightarrow> (e2ee_error + encrypted_payload) \<times> 'rng" where
  "encryptBytes crypto key payload additionalData rng =
     (let (iv, rng') = wc_random crypto GCM_IV_BYTES rng
      in (and_then (attempt CryptoRejected (wc_encrypt crypto iv (aad_bytes additionalData) key payload))
            (\<lambda>ciphertext. Inr \<lparr>ep_version = JNum 1, ep_iv = bytesToBase64Url iv,
               ep_ciphertext = bytesToBase64Url ciphertext\<rparr>), rng'))"

definition decryptBytes ::
  "('key, 'rng) web_crypto \<Rightarrow> 'key \<Rightarrow> encrypted_payload \<Rightarrow> string option \<Rightarrow> e2ee_error + byte list" where
  "decryptBytes crypto key payload additionalData =
     and_then (attempt InvalidCharacter (base64UrlToArrayBuffer (ep_iv payload))) (\<lambda>iv.
     and_then (attempt InvalidCharacter (base64UrlToArrayBuffer (ep_ciphertext payload))) (\<lambda>ciphertext.
     attempt CryptoRejected (wc_decrypt crypto iv (aad_bytes additionalData) key ciphertext)))"

definition encryptJsonPayload ::
  "('key, 'rng) web_crypto \<Rightarrow> 'key \<Rightarrow> jsval \<Rightarrow> string option \<Rightarrow> 'rng \<Rightarrow> (e2ee_error + encrypted_payload) \<times> 'rng" where
  "encryptJsonPayload crypto key payload additionalData rng =
     (let (iv, rng') = wc_random crypto GCM_IV_BYTES rng;
          data = (case json_text (json_texts crypto) payload of None \<Rightarrow> [] | Some t \<Rightarrow> text_encode t)
      in (and_then (attempt CryptoRejected (wc_encrypt crypto iv (aad_bytes additionalData) key data))
            (\<lambda>ciphertext. Inr \<lparr>ep_version = JNum 1, ep_iv = bytesToBase64Url iv,
               ep_ciphertext = bytesToBase64Url ciphertext\<rparr>), rng'))"

definition decryptJsonPayload ::
  "('key, 'rng) web_crypto \<Rightarrow> 'key \<Rightarrow> encrypted_payload \<Rightarrow> string option \<Rightarrow> e2ee_error + jsval" where
  "decryptJsonPayload crypto key payload additionalData =
     and_then (attempt InvalidCharacter (base64UrlToArrayBuffer (ep_iv payload))) (\<lambda>iv.
     and_then (attempt InvalidCharacter (base64UrlToArrayBuffer (ep_ciphertext payload))) (\<lambda>ciphertext.
     and_then (attempt CryptoRejected (wc_decrypt crypto iv (aad_bytes additionalData) key ciphertext)) (\<lambda>plaintext.
     attempt JsonSyntax (json_read (text_decode plaintext)))))"

section \<open>Keys\<close>

definition generateWrappingKeyPair :: "('key, 'rng) web_crypto \<Rightarrow> 'rng \<Rightarrow> (e2ee_error + 'key \<times> 'key) \<times> 'rng" where
  "generateWrappingKeyPair crypto rng = apfst (attempt CryptoRejected) (wc_generate_pair crypto rng)"

definition exportWrappingPublicKey :: "('key, 'rng) web_crypto \<Rightarrow> 'key \<Rightarrow> e2ee_error + string" where
  "exportWrappingPublicKey crypto publicKey =
     attempt CryptoRejected (map_option bytesToBase64Url (wc_export_spki crypto publicKey))"

definition generateAccountKey :: "('key, 'rng) web_crypto \<Rightarrow> 'rng \<Rightarrow> (e2ee_error + 'key) \<times> 'rng" where
  "generateAccountKey crypto rng = apfst (attempt CryptoRejected) (wc_generate crypto AES_GCM_256 rng)"

definition generateBlindIndexKey :: "('key, 'rng) web_crypto \<Rightarrow> 'rng \<Rightarrow> (e2ee_error + 'key) \<times> 'rng" where
  "generateBlindIndexKey crypto rng = apfst (attempt CryptoRejected) (wc_generate crypto HMAC_SHA_256 rng)"

definition wrapSymmetricKey ::
  "('key, 'rng) web_crypto \<Rightarrow> 'key \<Rightarrow> 'key \<Rightarrow> 'rng \<Rightarrow> (e2ee_error + string) \<times> 'rng" where
  "wrapSymmetricKey crypto key publicKey rng =
     apfst (\<lambda>wrapped. attempt CryptoRejected (map_option bytesToBase64Url wrapped)) (wc_wrap crypto key publicKey rng)"

definition unwrapKey ::
  "('key, 'rng) web_crypto \<Rightarrow> key_algorithm \<Rightarrow> string \<Rightarrow> 'key \<Rightarrow> e2ee_error + 'key" where
  "unwrapKey crypto algorithm wrappedKey privateKey =
     and_then (attempt InvalidCharacter (base64UrlToArrayBuffer wrappedKey)) (\<lambda>bytes.
     attempt CryptoRejected (wc_unwrap crypto bytes privateKey algorithm))"

definition unwrapAccountKey :: "('key, 'rng) web_crypto \<Rightarrow> string \<Rightarrow> 'key \<Rightarrow> e2ee_error + 'key" where
  "unwrapAccountKey crypto = unwrapKey crypto AES_GCM_256"

definition unwrapBlindIndexKey :: "('key, 'rng) web_crypto \<Rightarrow> string \<Rightarrow> 'key \<Rightarrow> e2ee_error + 'key" where
  "unwrapBlindIndexKey crypto = unwrapKey crypto HMAC_SHA_256"

definition generateDeviceId :: "('key, 'rng) web_crypto \<Rightarrow> 'rng \<Rightarrow> string \<times> 'rng" where
  "generateDeviceId crypto = wc_uuid crypto"

section \<open>Password envelopes\<close>

definition PASSWORD_SALT_BYTES :: nat where "PASSWORD_SALT_BYTES = 16"
definition DEFAULT_PASSWORD_KDF_ITERATIONS :: nat where "DEFAULT_PASSWORD_KDF_ITERATIONS = 310000"
definition MIN_PASSWORD_KDF_ITERATIONS :: rat where "MIN_PASSWORD_KDF_ITERATIONS = 100000"
definition MAX_PASSWORD_KDF_ITERATIONS :: rat where "MAX_PASSWORD_KDF_ITERATIONS = 5000000"
definition PASSWORD_KDF_ALGORITHM :: string where "PASSWORD_KDF_ALGORITHM = ''PBKDF2-SHA-256''"
definition PASSWORD_WRAP_ALGORITHM :: string where "PASSWORD_WRAP_ALGORITHM = ''AES-GCM-256''"
definition AUTH_KEY_PREFIX :: string where "AUTH_KEY_PREFIX = ''solace-ak1:''"
definition AUTH_KEY_SALT_PREFIX :: string where "AUTH_KEY_SALT_PREFIX = ''solace-auth-key-v1:''"
definition AUTH_KEY_ITERATIONS :: nat where "AUTH_KEY_ITERATIONS = 600000"

record password_envelope =
  pe_kdfAlgorithm :: string
  pe_kdfSalt :: string
  pe_kdfIterations :: rat
  pe_wrappedAccountKey :: string
  pe_wrappedSearchKey :: string
  pe_wrapAlgorithm :: string
  pe_keyVersion :: int

definition assertEnvelopeKdfParameters :: "password_envelope \<Rightarrow> e2ee_error + unit" where
  "assertEnvelopeKdfParameters envelope =
     (let kdfIterations = pe_kdfIterations envelope in
      if \<not> is_integer kdfIterations \<or> kdfIterations < MIN_PASSWORD_KDF_ITERATIONS \<or>
         kdfIterations > MAX_PASSWORD_KDF_ITERATIONS
      then Inl (Thrown ''Password envelope has invalid KDF iterations.'')
      else and_then (attempt InvalidCharacter (base64UrlToArrayBuffer (pe_kdfSalt envelope))) (\<lambda>salt.
        if length salt \<noteq> PASSWORD_SALT_BYTES
        then Inl (Thrown ''Password envelope has an invalid KDF salt.'') else Inr ()))"

definition isEncryptedPayloadFields :: "jsval \<Rightarrow> bool" where
  "isEncryptedPayloadFields v \<longleftrightarrow>
     is_object v \<and> js_get v ''algorithm'' = JStr ''AES-GCM'' \<and>
     str_of (js_get v ''iv'') \<noteq> None \<and> str_of (js_get v ''ciphertext'') \<noteq> None"

definition parseEncryptedBinaryPayload :: "string \<Rightarrow> e2ee_error + encrypted_payload" where
  "parseEncryptedBinaryPayload s =
     and_then (attempt JsonSyntax (json_read s)) (\<lambda>parsed.
       if \<not> isEncryptedPayloadFields parsed then Inl (Thrown ''Invalid encrypted key payload'')
       else Inr \<lparr>ep_version = coalesce (js_get parsed ''version'') (JNum 1),
                 ep_iv = the (str_of (js_get parsed ''iv'')),
                 ep_ciphertext = the (str_of (js_get parsed ''ciphertext''))\<rparr>)"

text \<open>An encrypted payload as the object that \<open>JSON.stringify\<close> writes.\<close>

definition payload_object :: "encrypted_payload \<Rightarrow> jsval" where
  "payload_object p = JObj [(''version'', ep_version p), (''algorithm'', JStr ''AES-GCM''),
     (''iv'', JStr (ep_iv p)), (''ciphertext'', JStr (ep_ciphertext p))]"

definition payload_text :: "json_env \<Rightarrow> encrypted_payload \<Rightarrow> string" where
  "payload_text env p = the (json_text env (payload_object p))"

definition generatePasswordSalt :: "('key, 'rng) web_crypto \<Rightarrow> 'rng \<Rightarrow> string \<times> 'rng" where
  "generatePasswordSalt crypto rng = apfst bytesToBase64Url (wc_random crypto PASSWORD_SALT_BYTES rng)"

definition derivePasswordWrappingKey ::
  "('key, 'rng) web_crypto \<Rightarrow> string \<Rightarrow> string \<Rightarrow> nat \<Rightarrow> e2ee_error + 'key" where
  "derivePasswordWrappingKey crypto password salt iterations =
     and_then (attempt CryptoRejected (wc_import crypto PBKDF2 False (text_encode (normalize_nfkc crypto password)))) (\<lambda>passwordKey.
     and_then (attempt InvalidCharacter (base64UrlToArrayBuffer salt)) (\<lambda>saltBytes.
     attempt CryptoRejected (wc_derive crypto saltBytes iterations False passwordKey)))"

definition account_key_aad :: "int \<Rightarrow> string" where
  "account_key_aad keyVersion = ''account-key:'' @ int_str keyVersion"

definition search_key_aad :: "int \<Rightarrow> string" where
  "search_key_aad keyVersion = ''blind-index-key:'' @ int_str keyVersion"

definition createPasswordEnvelope ::
  "('key, 'rng) web_crypto \<Rightarrow> 'key \<Rightarrow> 'key \<Rightarrow> string \<Rightarrow> int \<Rightarrow> 'rng \<Rightarrow> (e2ee_error + password_envelope) \<times> 'rng" where
  "createPasswordEnvelope crypto accountKey blindIndexKey password keyVersion rng =
     (let (kdfSalt, rng1) = generatePasswordSalt crypto rng;
          kdfIterations = DEFAULT_PASSWORD_KDF_ITERATIONS
      in case and_then (derivePasswordWrappingKey crypto password kdfSalt kdfIterations) (\<lambda>wrappingKey.
             and_then (attempt CryptoRejected (wc_export crypto accountKey)) (\<lambda>rawAccountKey.
             and_then (attempt CryptoRejected (wc_export crypto blindIndexKey)) (\<lambda>rawBlindIndexKey.
             Inr (wrappingKey, rawAccountKey, rawBlindIndexKey)))) of
        Inl e \<Rightarrow> (Inl e, rng1)
      | Inr (wrappingKey, rawAccountKey, rawBlindIndexKey) \<Rightarrow>
          (case encryptBytes crypto wrappingKey rawAccountKey (Some (account_key_aad keyVersion)) rng1 of
             (Inl e, rng2) \<Rightarrow> (Inl e, rng2)
           | (Inr wrappedAccountKey, rng2) \<Rightarrow>
               (case encryptBytes crypto wrappingKey rawBlindIndexKey (Some (search_key_aad keyVersion)) rng2 of
                  (Inl e, rng3) \<Rightarrow> (Inl e, rng3)
                | (Inr wrappedSearchKey, rng3) \<Rightarrow>
                    (Inr \<lparr>pe_kdfAlgorithm = PASSWORD_KDF_ALGORITHM, pe_kdfSalt = kdfSalt,
                       pe_kdfIterations = of_nat kdfIterations,
                       pe_wrappedAccountKey = payload_text (json_texts crypto) wrappedAccountKey,
                       pe_wrappedSearchKey = payload_text (json_texts crypto) wrappedSearchKey,
                       pe_wrapAlgorithm = PASSWORD_WRAP_ALGORITHM, pe_keyVersion = keyVersion\<rparr>, rng3))))"

definition unwrapPasswordEnvelope ::
  "('key, 'rng) web_crypto \<Rightarrow> string \<Rightarrow> password_envelope \<Rightarrow> e2ee_error + 'key \<times> 'key" where
  "unwrapPasswordEnvelope crypto password envelope =
     and_then (assertEnvelopeKdfParameters envelope) (\<lambda>_.
     and_then (derivePasswordWrappingKey crypto password (pe_kdfSalt envelope) (nat \<lfloor>pe_kdfIterations envelope\<rfloor>)) (\<lambda>wrappingKey.
     and_then (parseEncryptedBinaryPayload (pe_wrappedAccountKey envelope)) (\<lambda>wrappedAccountKey.
     and_then (decryptBytes crypto wrappingKey wrappedAccountKey (Some (account_key_aad (pe_keyVersion envelope)))) (\<lambda>rawAccountKey.
     and_then (parseEncryptedBinaryPayload (pe_wrappedSearchKey envelope)) (\<lambda>wrappedSearchKey.
     and_then (decryptBytes crypto wrappingKey wrappedSearchKey (Some (search_key_aad (pe_keyVersion envelope)))) (\<lambda>rawBlindIndexKey.
     and_then (attempt CryptoRejected (wc_import crypto AES_GCM_256 True rawAccountKey)) (\<lambda>accountKey.
     and_then (attempt CryptoRejected (wc_import crypto HMAC_SHA_256 True rawBlindIndexKey)) (\<lambda>blindIndexKey.
     Inr (accountKey, blindIndexKey)))))))))"

text \<open>What the clients send to the server instead of the password.\<close>

definition auth_key_salt :: "string \<Rightarrow> byte list" where
  "auth_key_salt email = text_encode (AUTH_KEY_SALT_PREFIX @ to_lower (trim email))"

definition deriveAuthKey :: "('key, 'rng) web_crypto \<Rightarrow> string \<Rightarrow> string \<Rightarrow> e2ee_error + string" where
  "deriveAuthKey crypto password email =
     and_then (attempt CryptoRejected (wc_import crypto PBKDF2 False (text_encode (normalize_nfkc crypto password)))) (\<lambda>passwordKey.
     and_then (attempt CryptoRejected (wc_derive crypto (auth_key_salt email) AUTH_KEY_ITERATIONS True passwordKey)) (\<lambda>derived.
     and_then (attempt CryptoRejected (wc_export crypto derived)) (\<lambda>raw.
     Inr (AUTH_KEY_PREFIX @ bytesToBase64Url raw))))"

section \<open>Blind index tokens\<close>

definition MAX_BLIND_INDEX_TOKENS :: nat where "MAX_BLIND_INDEX_TOKENS = 24"

text \<open>The characters of \<open>\p{L}\<close> and \<open>\p{N}\<close> among the first 256 code points.\<close>

definition letter_or_number :: "char \<Rightarrow> bool" where
  "letter_or_number c \<longleftrightarrow>
     (let n = (of_char c :: nat) in
      48 \<le> n \<and> n \<le> 57 \<or> 65 \<le> n \<and> n \<le> 90 \<or> 97 \<le> n \<and> n \<le> 122 \<or>
      n \<in> {170, 178, 179, 181, 185, 186, 188, 189, 190} \<or> 192 \<le> n \<and> n \<noteq> 215 \<and> n \<noteq> 247)"

text \<open>\<open>s.replace(/\s+/g, " ")\<close>.\<close>

function collapse_ws :: "string \<Rightarrow> string" where
  "collapse_ws [] = []"
| "collapse_ws (c # s) = (if is_ws c then CHR '' '' # collapse_ws (dropWhile is_ws s) else c # collapse_ws s)"
  by pat_completeness auto
termination
  by (relation "measure length") (simp_all add: length_dropWhile_le le_imp_less_Suc)

definition normalizeBlindIndexText :: "('key, 'rng) web_crypto \<Rightarrow> string \<Rightarrow> string list" where
  "normalizeBlindIndexText crypto value =
     (let normalized = trim (collapse_ws (map (\<lambda>c. if letter_or_number c \<or> is_ws c then c else CHR '' '')
            (to_lower (normalize_nfkc crypto value))))
      in if normalized = [] then []
         else take MAX_BLIND_INDEX_TOKENS
           (uniq (filter (\<lambda>token. 2 \<le> length token) (map trim (split_on (CHR '' '') normalized)))))"

text \<open>All tokens are signed; the call rejects when one signature does.\<close>

fun sign_all :: "('key, 'rng) web_crypto \<Rightarrow> 'key \<Rightarrow> string list \<Rightarrow> e2ee_error + string list" where
  "sign_all crypto key [] = Inr []"
| "sign_all crypto key (token # tokens) =
     and_then (attempt CryptoRejected (wc_sign crypto key (text_encode token))) (\<lambda>signature.
     and_then (sign_all crypto key tokens) (\<lambda>rest. Inr (bytesToBase64Url signature # rest)))"

definition createBlindIndexTokens :: "('key, 'rng) web_crypto \<Rightarrow> 'key \<Rightarrow> string \<Rightarrow> e2ee_error + string list" where
  "createBlindIndexTokens crypto blindIndexKey value = sign_all crypto blindIndexKey (normalizeBlindIndexText crypto value)"

section \<open>Base64url reads back\<close>

lemma binary_string_eq: "binary_string bytes offset binary = binary @ map char_of_byte (drop offset bytes)"
proof (induction bytes offset binary rule: binary_string.induct)
  case (1 bytes offset binary)
  show ?case
  proof (cases "offset < length bytes")
    case True
    have "map char_of_byte (Prelude.slice offset (offset + CHUNK_SIZE) bytes) @ map char_of_byte (drop (offset + CHUNK_SIZE) bytes) =
        map char_of_byte (drop offset bytes)"
      by (simp add: Prelude.slice_def drop_take flip: map_append) (metis add.commute append_take_drop_id drop_drop)
    with 1 True show ?thesis by (simp add: binary_string.simps [of bytes offset])
  next
    case False
    then show ?thesis by (simp add: binary_string.simps [of bytes offset])
  qed
qed

lemma replace_char_single: "replace_char c [d] s = map (\<lambda>x. if x = c then d else x) s"
  by (induction s) auto

definition url_char :: "char \<Rightarrow> char" where
  "url_char c = (if c = CHR ''+'' then CHR ''-'' else if c = CHR ''/'' then CHR ''_'' else c)"

lemma strip_equals_pad:
  assumes "CHR ''='' \<notin> set s"
  shows "strip_equals (s @ replicate n (CHR ''='')) = s"
proof -
  have "dropWhile (\<lambda>c. c = CHR ''='') (rev s) = rev s"
    using assms by (cases "rev s") (auto dest: arg_cong [of _ _ set])
  moreover have "dropWhile (\<lambda>c. c = CHR ''='') (replicate n (CHR ''='') @ t) = dropWhile (\<lambda>c. c = CHR ''='') t" for t
    by (induction n) simp_all
  ultimately show ?thesis by (simp add: strip_equals_def)
qed

lemma b64_not_url: "n < 64 \<Longrightarrow> b64_char n \<noteq> CHR ''-'' \<and> b64_char n \<noteq> CHR ''_''"
proof -
  assume "n < 64"
  then have "b64_val (b64_char n) = Some n" by simp
  moreover have "b64_val (CHR ''-'') = None" "b64_val (CHR ''_'') = None" by (simp_all add: b64_val_def)
  ultimately show ?thesis by force
qed

lemma bytesToBase64Url_eq:
  "bytesToBase64Url bytes = map url_char (map b64_char (sextets (map char_of_byte bytes)))"
proof -
  let ?d = "map b64_char (sextets (map char_of_byte bytes))" and ?k = "(3 - length (map char_of_byte bytes) mod 3) mod 3"
  have digits: "\<forall>c \<in> set ?d. c \<noteq> CHR ''=''"
    using sextets_lt b64_char_set by (auto simp: list_all_iff)
  have url: "replace_char (CHR ''/'') ''_'' (replace_char (CHR ''+'') ''-'' s) = map url_char s" for s
    by (auto simp: replace_char_single url_char_def)
  have "url_char (CHR ''='') = CHR ''=''" by (simp add: url_char_def)
  then have "map url_char (?d @ replicate ?k (CHR ''='')) = map url_char ?d @ replicate ?k (CHR ''='')" by simp
  note eq = this
  have "CHR ''='' \<notin> set (map url_char ?d)" using digits by (auto simp: url_char_def)
  from strip_equals_pad [OF this, of ?k] show ?thesis
    unfolding bytesToBase64Url_def url binary_string_eq drop_0 append_Nil btoa_sextets eq .
qed

lemma length_bytesToBase64Url:
  "length (bytesToBase64Url bytes) =
   4 * (length bytes div 3) + (if length bytes mod 3 = 0 then 0 else length bytes mod 3 + 1)"
  by (simp add: bytesToBase64Url_eq length_sextets)

text \<open>What the encoder writes has no dot, no plus sign, no slash and no padding.\<close>

lemma base64url_alphabet:
  assumes "c \<in> set (bytesToBase64Url bytes)"
  shows "c \<notin> {CHR ''+'', CHR ''/'', CHR ''='', CHR ''.''}"
proof -
  from assms obtain n where n: "n < 64" "c = url_char (b64_char n)"
    using sextets_lt [of "map char_of_byte bytes"] by (auto simp: bytesToBase64Url_eq list_all_iff)
  have "b64_val (CHR ''.'') = None" by (simp add: b64_val_def)
  with b64_val_char [OF n(1)] b64_char_set [OF n(1)] n(2) show ?thesis
    by (auto simp: url_char_def split: if_splits)
qed

lemma base64url_round_trip: "base64UrlToArrayBuffer (bytesToBase64Url bytes) = Some bytes"
proof -
  let ?s = "map char_of_byte bytes" and ?v = "bytesToBase64Url bytes"
  let ?d = "map b64_char (sextets ?s)"
  let ?unurl = "\<lambda>c. if c = CHR ''-'' then CHR ''+'' else if c = CHR ''_'' then CHR ''/'' else c"
  have "replace_char (CHR ''_'') ''/'' (replace_char (CHR ''-'') ''+'' s) = map ?unurl s" for s
    by (auto simp: replace_char_single)
  moreover have "?unurl (url_char (b64_char n)) = b64_char n" if "n < 64" for n
    using b64_not_url [OF that] by (simp add: url_char_def)
  ultimately have decoded: "replace_char (CHR ''_'') ''/'' (replace_char (CHR ''-'') ''+'' ?v) = ?d"
    using sextets_lt [of ?s] by (simp only: bytesToBase64Url_eq map_map comp_def list_all_iff map_eq_conv) blast
  have len: "length ?v = length ?d" by (simp add: bytesToBase64Url_eq)
  have pad: "pad_end ((length ?v + 3) div 4 * 4) (CHR ''='') ?d = btoa ?s"
  proof -
    have "length ?s mod 3 = 0 \<or> length ?s mod 3 = 1 \<or> length ?s mod 3 = 2" by linarith
    then have "(length ?d + 3) div 4 * 4 - length ?d = (3 - length ?s mod 3) mod 3"
      by (elim disjE) (simp_all add: length_sextets)
    then show ?thesis unfolding pad_end_def len btoa_sextets by (simp only:)
  qed
  show ?thesis
    unfolding base64UrlToArrayBuffer_def Let_def decoded pad atob_btoa by (simp add: comp_def)
qed

section \<open>What the code relies on of Web Crypto\<close>

text \<open>Random buffers have the requested length, and decryption undoes encryption.\<close>

definition crypto_laws :: "('key, 'rng) web_crypto \<Rightarrow> bool" where
  "crypto_laws c \<longleftrightarrow>
     (\<forall>n rng. length (fst (wc_random c n rng)) = n) \<and>
     (\<forall>iv aad k m x. wc_encrypt c iv aad k m = Some x \<longrightarrow> wc_decrypt c iv aad k x = Some m)"

text \<open>Authenticated encryption: a ciphertext opens only with its key and its additional data.\<close>

definition crypto_authentic :: "('key, 'rng) web_crypto \<Rightarrow> bool" where
  "crypto_authentic c \<longleftrightarrow>
     (\<forall>iv aad k m x iv' aad' k' m'. wc_encrypt c iv aad k m = Some x \<longrightarrow>
        wc_decrypt c iv' aad' k' x = Some m' \<longrightarrow> k' = k \<and> aad' = aad)"

text \<open>The raw bytes of a key give the key back.\<close>

definition exported_as :: "('key, 'rng) web_crypto \<Rightarrow> key_algorithm \<Rightarrow> 'key \<Rightarrow> bool" where
  "exported_as c algorithm k \<longleftrightarrow> (\<forall>raw. wc_export c k = Some raw \<longrightarrow> wc_import c algorithm True raw = Some k)"

lemma crypto_lawsD:
  assumes "crypto_laws c"
  shows "wc_random c n rng = (bs, rng') \<Longrightarrow> length bs = n"
    "wc_encrypt c iv aad k m = Some x \<Longrightarrow> wc_decrypt c iv aad k x = Some m"
  using assms unfolding crypto_laws_def by (metis fst_conv, blast)

section \<open>Payloads open again\<close>

lemma decrypt_encrypt_bytes:
  assumes "crypto_laws c" "encryptBytes c k m aad rng = (Inr p, rng')"
  shows "decryptBytes c k p aad = Inr m"
proof -
  obtain iv x where p: "wc_encrypt c iv (aad_bytes aad) k m = Some x"
    "p = \<lparr>ep_version = JNum 1, ep_iv = bytesToBase64Url iv, ep_ciphertext = bytesToBase64Url x\<rparr>"
    using assms(2) by (auto simp: encryptBytes_def Let_def split: prod.splits)
  from crypto_lawsD(2) [OF assms(1) p(1)] show ?thesis
    by (simp add: decryptBytes_def p(2) base64url_round_trip)
qed

lemma encrypted_json:
  assumes "encryptJsonPayload c k v aad rng = (Inr p, rng')"
  obtains iv x where "wc_encrypt c iv (aad_bytes aad) k
      (case json_text (json_texts c) v of None \<Rightarrow> [] | Some t \<Rightarrow> text_encode t) = Some x"
    "p = \<lparr>ep_version = JNum 1, ep_iv = bytesToBase64Url iv, ep_ciphertext = bytesToBase64Url x\<rparr>"
  using assms by (auto simp: encryptJsonPayload_def Let_def split: prod.splits)

lemma decrypt_encrypt_json:
  assumes "crypto_laws c" "json_plain v" "encryptJsonPayload c k v aad rng = (Inr p, rng')"
  shows "decryptJsonPayload c k p aad = Inr v"
proof -
  obtain t where t: "json_text (json_texts c) v = Some t" "json_read t = Some v"
    using json_round_trip [OF assms(2)] by blast
  obtain iv x where p: "wc_encrypt c iv (aad_bytes aad) k (text_encode t) = Some x"
    "p = \<lparr>ep_version = JNum 1, ep_iv = bytesToBase64Url iv, ep_ciphertext = bytesToBase64Url x\<rparr>"
    using encrypted_json [OF assms(3)] t(1) by auto
  from crypto_lawsD(2) [OF assms(1) p(1)] t(2) show ?thesis
    by (simp add: decryptJsonPayload_def p(2) base64url_round_trip)
qed

lemma json_payload_bound:
  assumes "crypto_authentic c" "encryptJsonPayload c k v aad rng = (Inr p, rng')"
    "decryptJsonPayload c k' p aad' = Inr v'"
  shows "k' = k \<and> aad_bytes aad' = aad_bytes aad"
proof -
  obtain iv x m where p: "wc_encrypt c iv (aad_bytes aad) k m = Some x"
    "p = \<lparr>ep_version = JNum 1, ep_iv = bytesToBase64Url iv, ep_ciphertext = bytesToBase64Url x\<rparr>"
    using encrypted_json [OF assms(2)] by metis
  from assms(3) obtain m' where "wc_decrypt c iv (aad_bytes aad') k' x = Some m'"
    by (auto simp: decryptJsonPayload_def p(2) base64url_round_trip)
  with assms(1) p(1) show ?thesis unfolding crypto_authentic_def by blast
qed

section \<open>A model of Web Crypto\<close>

text \<open>
  A cipher that satisfies the laws (and hides nothing), for the concrete instances: keys are byte
  lists, a ciphertext starts with the framed key and the framed additional data.
\<close>

definition frame :: "byte list \<Rightarrow> byte list" where
  "frame xs = replicate (length xs) 1 @ 0 # xs"

lemma frame_inject: "frame xs @ s = frame ys @ t \<Longrightarrow> xs = ys \<and> s = t"
proof -
  assume eq: "frame xs @ s = frame ys @ t"
  have "takeWhile (\<lambda>b. b = 1) (frame zs @ u) = replicate (length zs) 1" for zs u
    by (simp add: frame_def takeWhile_append takeWhile_replicate)
  from this [of xs s] this [of ys t] eq have "length xs = length ys" by (metis length_replicate)
  with eq show ?thesis by (simp add: frame_def)
qed

definition sealed_head :: "byte list option \<Rightarrow> byte list \<Rightarrow> byte list" where
  "sealed_head aad k = frame k @ frame (case aad of None \<Rightarrow> [] | Some a \<Rightarrow> 1 # a)"

definition demo_crypto :: "(byte list, nat) web_crypto" where
  "demo_crypto =
     \<lparr>wc_random = (\<lambda>n rng. (replicate n (word_of_nat rng), Suc rng)),
      wc_uuid = (\<lambda>rng. (nat_str rng, Suc rng)),
      wc_generate = (\<lambda>algorithm rng. (Some [word_of_nat rng], Suc rng)),
      wc_generate_pair = (\<lambda>rng. (Some ([word_of_nat rng], [word_of_nat rng]), Suc rng)),
      wc_import = (\<lambda>algorithm extractable raw. Some raw),
      wc_export = Some,
      wc_export_spki = Some,
      wc_encrypt = (\<lambda>iv aad k m. Some (sealed_head aad k @ m)),
      wc_decrypt = (\<lambda>iv aad k x. let p = sealed_head aad k in
        if take (length p) x = p then Some (drop (length p) x) else None),
      wc_wrap = (\<lambda>k pub rng. (Some (frame pub @ k), rng)),
      wc_unwrap = (\<lambda>x priv algorithm. if take (length (frame priv)) x = frame priv then Some (drop (length (frame priv)) x) else None),
      wc_sign = (\<lambda>k m. Some (frame k @ m)),
      wc_derive = (\<lambda>salt iterations extractable k. Some (frame salt @ frame (text_encode (nat_str iterations)) @ k)),
      normalize_nfkc = (\<lambda>s. s),
      json_texts = \<lparr>number_text = (\<lambda>q. ''0''), iso_text = (\<lambda>t. '''')\<rparr>\<rparr>"

lemma demo_crypto_laws: "crypto_laws demo_crypto"
  by (simp add: crypto_laws_def demo_crypto_def)

lemma demo_crypto_authentic: "crypto_authentic demo_crypto"
proof -
  have "k' = k \<and> aad' = aad"
    if eq: "take (length (sealed_head aad' k')) (sealed_head aad k @ m) = sealed_head aad' k'"
    for aad aad' :: "byte list option" and k k' m :: "byte list"
  proof -
    from eq obtain r where "sealed_head aad k @ m = sealed_head aad' k' @ r"
      by (metis append_take_drop_id)
    then have "frame k @ frame (case aad of None \<Rightarrow> [] | Some a \<Rightarrow> 1 # a) @ m =
        frame k' @ frame (case aad' of None \<Rightarrow> [] | Some a \<Rightarrow> 1 # a) @ r"
      by (simp add: sealed_head_def)
    note 1 = frame_inject [OF this]
    from frame_inject [OF conjunct2 [OF 1]] have
      "(case aad of None \<Rightarrow> [] | Some a \<Rightarrow> 1 # a) = (case aad' of None \<Rightarrow> [] | Some a \<Rightarrow> 1 # a)" by (rule conjunct1)
    then have "aad = aad'" by (cases aad; cases aad') simp_all
    with 1 show ?thesis by simp
  qed
  note bound = this
  show ?thesis
    unfolding crypto_authentic_def
  proof (intro allI impI)
    fix iv aad iv' aad' k m x k' m'
    assume "wc_encrypt demo_crypto iv aad k m = Some x" "wc_decrypt demo_crypto iv' aad' k' x = Some m'"
    then have "take (length (sealed_head aad' k')) (sealed_head aad k @ m) = sealed_head aad' k'"
      by (simp add: demo_crypto_def Let_def split: if_splits)
    then show "k' = k \<and> aad' = aad" by (rule bound)
  qed
qed

lemma demo_exported: "exported_as demo_crypto algorithm k"
  by (simp add: exported_as_def demo_crypto_def)

section \<open>What an encrypted payload promises\<close>

lemma sealed_json_opens:
  assumes laws: "crypto_laws c" "crypto_authentic c" and v: "json_plain v"
    and sealed: "encryptJsonPayload c k v aad rng = (Inr p, rng')"
  shows "decryptJsonPayload c k' p aad' = Inr v' \<longleftrightarrow> k' = k \<and> aad_bytes aad' = aad_bytes aad \<and> v' = v"
proof -
  have same: "decryptJsonPayload c k p aad = Inr v" by (rule decrypt_encrypt_json [OF laws(1) v sealed])
  have "decryptJsonPayload c k p aad' = decryptJsonPayload c k p aad" if "aad_bytes aad' = aad_bytes aad"
    using that by (simp add: decryptJsonPayload_def)
  with same json_payload_bound [OF laws(2) sealed, of k' aad' v'] show ?thesis by auto
qed

text \<open>An encrypted JSON value opens with its key and its additional data to the value itself,
  and with no other key or additional data.\<close>

lemma encrypted_payload_opens_only_in_context:
  assumes laws: "crypto_laws c" "crypto_authentic c" and v: "json_plain v"
    and sealed: "encryptJsonPayload c k v aad rng = (Inr p, rng')"
  shows "decryptJsonPayload c k' p aad' = Inr v' \<longleftrightarrow> k' = k \<and> aad_bytes aad' = aad_bytes aad \<and> v' = v"
  by (rule sealed_json_opens [OF assms])

lemma encrypted_payload_opens_only_in_context_witness:
  "\<exists>p rng'. encryptJsonPayload demo_crypto [7] (JObj [(''name'', JStr ''Work'')]) (Some ''calendar-name:v1'') 0 = (Inr p, rng') \<and>
     decryptJsonPayload demo_crypto [7] p (Some ''calendar-name:v1'') = Inr (JObj [(''name'', JStr ''Work'')]) \<and>
     decryptJsonPayload demo_crypto [7] p (Some ''category-name:v1'') \<noteq> Inr (JObj [(''name'', JStr ''Work'')])"
proof -
  let ?v = "JObj [(''name'', JStr ''Work'')]"
  obtain p rng' where sealed: "encryptJsonPayload demo_crypto [7] ?v (Some ''calendar-name:v1'') 0 = (Inr p, rng')"
    by (simp add: encryptJsonPayload_def demo_crypto_def)
  have "json_plain ?v" by simp
  from encrypted_payload_opens_only_in_context [OF demo_crypto_laws demo_crypto_authentic this sealed] sealed
  show ?thesis by (intro exI [of _ p] exI [of _ rng']) (simp add: aad_bytes_def)
qed

section \<open>Password envelopes open again\<close>

lemma payload_object_plain: "ep_version p = JNum 1 \<Longrightarrow> json_plain (payload_object p)"
  by (simp add: payload_object_def is_integer_def)

lemma encryptBytes_version: "encryptBytes c k m aad rng = (Inr p, rng') \<Longrightarrow> ep_version p = JNum 1"
  by (auto simp: encryptBytes_def Let_def split: prod.splits)

lemma parse_payload_text:
  assumes "ep_version p = JNum 1"
  shows "parseEncryptedBinaryPayload (payload_text env p) = Inr p"
proof -
  from json_round_trip [OF payload_object_plain [OF assms], of env]
  have "json_read (payload_text env p) = Some (payload_object p)" by (auto simp: payload_text_def)
  then show ?thesis
    using assms by (simp add: parseEncryptedBinaryPayload_def payload_object_def isEncryptedPayloadFields_def coalesce_def)
qed

text \<open>A created envelope, taken apart.\<close>

lemma created_envelope:
  assumes "createPasswordEnvelope c ak bk password ver rng = (Inr env, rng')"
  obtains salt rng1 rng2 wk rawA rawB pa pb where
    "wc_random c PASSWORD_SALT_BYTES rng = (salt, rng1)"
    "derivePasswordWrappingKey c password (bytesToBase64Url salt) DEFAULT_PASSWORD_KDF_ITERATIONS = Inr wk"
    "wc_export c ak = Some rawA" "wc_export c bk = Some rawB"
    "encryptBytes c wk rawA (Some (account_key_aad ver)) rng1 = (Inr pa, rng2)"
    "encryptBytes c wk rawB (Some (search_key_aad ver)) rng2 = (Inr pb, rng')"
    "env = \<lparr>pe_kdfAlgorithm = PASSWORD_KDF_ALGORITHM, pe_kdfSalt = bytesToBase64Url salt,
       pe_kdfIterations = of_nat DEFAULT_PASSWORD_KDF_ITERATIONS,
       pe_wrappedAccountKey = payload_text (json_texts c) pa, pe_wrappedSearchKey = payload_text (json_texts c) pb,
       pe_wrapAlgorithm = PASSWORD_WRAP_ALGORITHM, pe_keyVersion = ver\<rparr>"
  using assms unfolding createPasswordEnvelope_def generatePasswordSalt_def Let_def
  by (auto simp: split_beta split: prod.splits sum.splits) (metis prod.collapse)

lemma created_envelope_accepted:
  assumes "crypto_laws c" "createPasswordEnvelope c ak bk password ver rng = (Inr env, rng')"
  shows "assertEnvelopeKdfParameters env = Inr ()"
proof -
  from created_envelope [OF assms(2)] obtain salt rng1 where salt: "wc_random c PASSWORD_SALT_BYTES rng = (salt, rng1)"
    "pe_kdfSalt env = bytesToBase64Url salt" "pe_kdfIterations env = of_nat DEFAULT_PASSWORD_KDF_ITERATIONS"
    by (metis password_envelope.select_convs(2,3))
  with crypto_lawsD(1) [OF assms(1) salt(1)] show ?thesis
    by (simp add: assertEnvelopeKdfParameters_def base64url_round_trip DEFAULT_PASSWORD_KDF_ITERATIONS_def
        MIN_PASSWORD_KDF_ITERATIONS_def MAX_PASSWORD_KDF_ITERATIONS_def is_integer_def)
qed

lemma created_envelope_opens:
  assumes laws: "crypto_laws c" and keys: "exported_as c AES_GCM_256 ak" "exported_as c HMAC_SHA_256 bk"
    and created: "createPasswordEnvelope c ak bk password ver rng = (Inr env, rng')"
  shows "unwrapPasswordEnvelope c password env = Inr (ak, bk)"
proof (rule created_envelope [OF created])
  fix salt rng1 rng2 wk rawA rawB pa pb
  assume wk: "derivePasswordWrappingKey c password (bytesToBase64Url salt) DEFAULT_PASSWORD_KDF_ITERATIONS = Inr wk"
    and raw: "wc_export c ak = Some rawA" "wc_export c bk = Some rawB"
    and pa: "encryptBytes c wk rawA (Some (account_key_aad ver)) rng1 = (Inr pa, rng2)"
    and pb: "encryptBytes c wk rawB (Some (search_key_aad ver)) rng2 = (Inr pb, rng')"
    and env: "env = \<lparr>pe_kdfAlgorithm = PASSWORD_KDF_ALGORITHM, pe_kdfSalt = bytesToBase64Url salt,
       pe_kdfIterations = of_nat DEFAULT_PASSWORD_KDF_ITERATIONS,
       pe_wrappedAccountKey = payload_text (json_texts c) pa, pe_wrappedSearchKey = payload_text (json_texts c) pb,
       pe_wrapAlgorithm = PASSWORD_WRAP_ALGORITHM, pe_keyVersion = ver\<rparr>"
  have texts: "parseEncryptedBinaryPayload (pe_wrappedAccountKey env) = Inr pa"
    "parseEncryptedBinaryPayload (pe_wrappedSearchKey env) = Inr pb"
    using encryptBytes_version [OF pa] encryptBytes_version [OF pb] by (simp_all add: env parse_payload_text)
  have dec: "decryptBytes c wk pa (Some (account_key_aad ver)) = Inr rawA"
    "decryptBytes c wk pb (Some (search_key_aad ver)) = Inr rawB"
    using decrypt_encrypt_bytes [OF laws] pa pb by blast+
  show ?thesis
    using wk texts dec keys raw created_envelope_accepted [OF laws created]
    by (simp add: unwrapPasswordEnvelope_def exported_as_def) (simp add: env)
qed

lemma demo_envelope: "\<exists>env rng'. createPasswordEnvelope demo_crypto [1] [2] password 1 0 = (Inr env, rng')"
proof -
  have "derivePasswordWrappingKey demo_crypto p (bytesToBase64Url salt) n =
      Inr (frame salt @ frame (text_encode (nat_str n)) @ text_encode p)" for p salt n
    by (simp add: derivePasswordWrappingKey_def base64url_round_trip) (simp add: demo_crypto_def)
  moreover have "wc_export demo_crypto = Some" "wc_random demo_crypto = (\<lambda>n rng. (replicate n (word_of_nat rng), Suc rng))"
    "wc_encrypt demo_crypto = (\<lambda>iv aad k m. Some (sealed_head aad k @ m))"
    by (simp_all add: demo_crypto_def)
  ultimately show ?thesis
    by (simp add: createPasswordEnvelope_def generatePasswordSalt_def encryptBytes_def Let_def)
qed

lemma envelope_rejects_other_key:
  assumes laws: "crypto_laws c" "crypto_authentic c"
    and created: "createPasswordEnvelope c ak bk password ver rng = (Inr env, rng')"
    and other: "derivePasswordWrappingKey c other (pe_kdfSalt env) DEFAULT_PASSWORD_KDF_ITERATIONS = Inr wk'"
      "derivePasswordWrappingKey c password (pe_kdfSalt env) DEFAULT_PASSWORD_KDF_ITERATIONS \<noteq> Inr wk'"
  shows "unwrapPasswordEnvelope c other env = Inl CryptoRejected"
proof -
  obtain salt rng1 rng2 wk rawA rawB pa pb where
    wk: "derivePasswordWrappingKey c password (bytesToBase64Url salt) DEFAULT_PASSWORD_KDF_ITERATIONS = Inr wk"
    and pa: "encryptBytes c wk rawA (Some (account_key_aad ver)) rng1 = (Inr pa, rng2)"
    and env: "env = \<lparr>pe_kdfAlgorithm = PASSWORD_KDF_ALGORITHM, pe_kdfSalt = bytesToBase64Url salt,
       pe_kdfIterations = of_nat DEFAULT_PASSWORD_KDF_ITERATIONS,
       pe_wrappedAccountKey = payload_text (json_texts c) pa, pe_wrappedSearchKey = payload_text (json_texts c) pb,
       pe_wrapAlgorithm = PASSWORD_WRAP_ALGORITHM, pe_keyVersion = ver\<rparr>"
    using created_envelope [OF created] by metis
  have differ: "wk' \<noteq> wk" using other(2) wk by (auto simp: env)
  obtain iv x where x: "wc_encrypt c iv (aad_bytes (Some (account_key_aad ver))) wk rawA = Some x"
    "pa = \<lparr>ep_version = JNum 1, ep_iv = bytesToBase64Url iv, ep_ciphertext = bytesToBase64Url x\<rparr>"
    using pa by (auto simp: encryptBytes_def Let_def split: prod.splits)
  have "wc_decrypt c iv (aad_bytes (Some (account_key_aad ver))) wk' x = None"
  proof (rule ccontr)
    assume "wc_decrypt c iv (aad_bytes (Some (account_key_aad ver))) wk' x \<noteq> None"
    with laws(2) x(1) differ show False unfolding crypto_authentic_def by blast
  qed
  then have "decryptBytes c wk' pa (Some (account_key_aad ver)) = Inl CryptoRejected"
    by (simp add: decryptBytes_def x(2) base64url_round_trip)
  moreover have "parseEncryptedBinaryPayload (pe_wrappedAccountKey env) = Inr pa"
    using encryptBytes_version [OF pa] by (simp add: env parse_payload_text)
  ultimately show ?thesis
    using other(1) created_envelope_accepted [OF laws(1) created] by (simp add: unwrapPasswordEnvelope_def) (simp add: env)
qed

text \<open>C14: A password envelope gives back the two keys it was made from, for the same password; with
  another password that derives another wrapping key it is rejected.\<close>

theorem password_envelope_round_trip:
  assumes laws: "crypto_laws c" "crypto_authentic c"
    and keys: "exported_as c AES_GCM_256 ak" "exported_as c HMAC_SHA_256 bk"
    and created: "createPasswordEnvelope c ak bk password ver rng = (Inr env, rng')"
  shows "unwrapPasswordEnvelope c password env = Inr (ak, bk) \<and>
    (\<forall>other wk. derivePasswordWrappingKey c other (pe_kdfSalt env) DEFAULT_PASSWORD_KDF_ITERATIONS = Inr wk \<and>
       derivePasswordWrappingKey c password (pe_kdfSalt env) DEFAULT_PASSWORD_KDF_ITERATIONS \<noteq> Inr wk \<longrightarrow>
       unwrapPasswordEnvelope c other env = Inl CryptoRejected)"
  using created_envelope_opens [OF laws(1) keys created] envelope_rejects_other_key [OF laws created] by blast

theorem password_envelope_round_trip_witness:
  "\<exists>env rng'. createPasswordEnvelope demo_crypto [1] [2] ''hunter2'' 1 0 = (Inr env, rng') \<and>
     unwrapPasswordEnvelope demo_crypto ''hunter2'' env = Inr ([1], [2])"
proof -
  obtain env rng' where env: "createPasswordEnvelope demo_crypto [1] [2] ''hunter2'' 1 0 = (Inr env, rng')"
    using demo_envelope by blast
  from password_envelope_round_trip [OF demo_crypto_laws demo_crypto_authentic demo_exported demo_exported env] env
  show ?thesis by blast
qed

text \<open>C33: A server cannot steer the password key onto the authentication key: whatever envelope it
  sends, the code derives with between 100000 and 5000000 iterations and a salt of 16 bytes, which
  is never the salt of the authentication key of any address.\<close>

theorem envelope_salt_is_not_auth_salt:
  assumes "unwrapPasswordEnvelope c password envelope = Inr keys"
  shows "\<exists>salt iterations. base64UrlToArrayBuffer (pe_kdfSalt envelope) = Some salt \<and>
    length salt = PASSWORD_SALT_BYTES \<and> pe_kdfIterations envelope = of_nat iterations \<and>
    100000 \<le> iterations \<and> iterations \<le> 5000000 \<and> (\<forall>email. salt \<noteq> auth_key_salt email)"
proof -
  have ok: "assertEnvelopeKdfParameters envelope = Inr ()"
    using assms by (auto simp: unwrapPasswordEnvelope_def)
  then obtain salt where salt: "base64UrlToArrayBuffer (pe_kdfSalt envelope) = Some salt" "length salt = PASSWORD_SALT_BYTES"
    by (auto simp: assertEnvelopeKdfParameters_def Let_def split: if_splits)
  from ok have it: "is_integer (pe_kdfIterations envelope)" "100000 \<le> pe_kdfIterations envelope"
    "pe_kdfIterations envelope \<le> 5000000"
    by (auto simp: assertEnvelopeKdfParameters_def Let_def MIN_PASSWORD_KDF_ITERATIONS_def
        MAX_PASSWORD_KDF_ITERATIONS_def split: if_splits)
  define n where "n = nat \<lfloor>pe_kdfIterations envelope\<rfloor>"
  from it have n: "pe_kdfIterations envelope = of_nat n"
    by (auto simp: n_def is_integer_def)
  have "100000 \<le> n" "n \<le> 5000000"
    using it(2,3) unfolding n by (metis of_nat_le_iff of_nat_numeral)+
  moreover have "salt \<noteq> auth_key_salt email" for email
  proof -
    have "length (AUTH_KEY_SALT_PREFIX @ to_lower (trim email)) \<le> length (auth_key_salt email)"
      unfolding auth_key_salt_def by (rule length_text_encode(1))
    then have "19 \<le> length (auth_key_salt email)" by (simp add: AUTH_KEY_SALT_PREFIX_def)
    with salt(2) show ?thesis by (auto simp: PASSWORD_SALT_BYTES_def)
  qed
  ultimately show ?thesis using salt n by blast
qed

theorem envelope_salt_is_not_auth_salt_witness:
  "\<exists>env rng' salt. createPasswordEnvelope demo_crypto [1] [2] ''hunter2'' 1 0 = (Inr env, rng') \<and>
     base64UrlToArrayBuffer (pe_kdfSalt env) = Some salt \<and> length salt = 16 \<and> salt \<noteq> auth_key_salt ''jo@solace.eu''"
proof -
  obtain env rng' where env: "createPasswordEnvelope demo_crypto [1] [2] ''hunter2'' 1 0 = (Inr env, rng')"
    using demo_envelope by blast
  have "unwrapPasswordEnvelope demo_crypto ''hunter2'' env = Inr ([1], [2])"
    by (rule created_envelope_opens [OF demo_crypto_laws demo_exported demo_exported env])
  from envelope_salt_is_not_auth_salt [OF this] env show ?thesis by (auto simp: PASSWORD_SALT_BYTES_def)
qed

section \<open>Searching the blind index\<close>

lemma set_collapse_ws: "c \<in> set (collapse_ws s) \<Longrightarrow> c = CHR '' '' \<or> c \<in> set s \<and> \<not> is_ws c"
  by (induction s rule: collapse_ws.induct) (auto split: if_splits dest: set_dropWhileD)

lemma collapse_no_ws: "list_all (\<lambda>c. \<not> is_ws c) s \<Longrightarrow> collapse_ws s = s"
  by (induction s rule: collapse_ws.induct) auto

lemma trim_no_ws: "list_all (\<lambda>c. \<not> is_ws c) s \<Longrightarrow> trim s = s"
  by (simp add: trim_def dropWhile_none list_all_iff)

lemma letter_not_ws: "letter_or_number c \<Longrightarrow> \<not> is_ws c"
  by (auto simp: letter_or_number_def is_ws_def Let_def)

lemma split_on_subset: "w \<in> set (split_on d s) \<Longrightarrow> set w \<subseteq> set s"
  by (induction s arbitrary: w) (fastforce split: if_splits list.splits)+

text \<open>The words of the index are lower-case words of letters and digits.\<close>

lemma blind_words:
  assumes "w \<in> set (normalizeBlindIndexText c value)"
  shows "2 \<le> length w" "list_all (\<lambda>x. letter_or_number x \<and> to_lower_char x = x) w"
proof -
  let ?s = "map (\<lambda>c. if letter_or_number c \<or> is_ws c then c else CHR '' '') (to_lower (normalize_nfkc c value))"
  from assms obtain u where u: "u \<in> set (split_on (CHR '' '') (trim (collapse_ws ?s)))" "w = trim u" "2 \<le> length w"
    by (force simp: normalizeBlindIndexText_def Let_def split: if_splits dest!: in_set_takeD)
  show "2 \<le> length w" by (rule u(3))
  have "letter_or_number x \<and> to_lower_char x = x" if "x \<in> set w" for x
  proof -
    from that u(2) have "x \<in> set u" using set_trim by blast
    moreover have "CHR '' '' \<notin> set u" using split_on_no_sep_in [OF u(1)] .
    moreover have "x \<in> set (trim (collapse_ws ?s))"
      using \<open>x \<in> set u\<close> split_on_subset [OF u(1)] by blast
    ultimately have "x \<in> set ?s" "\<not> is_ws x" using set_collapse_ws [of x ?s] set_trim [of "collapse_ws ?s"] by auto
    moreover have "is_ws (CHR '' '')" by (simp add: is_ws_def)
    ultimately have "x \<in> set (to_lower (normalize_nfkc c value))" "letter_or_number x" by (auto split: if_splits)
    then show ?thesis by (auto simp: to_lower_def to_lower_char_idem)
  qed
  then show "list_all (\<lambda>x. letter_or_number x \<and> to_lower_char x = x) w" by (simp add: list_all_iff)
qed

lemma sign_all_member:
  "sign_all c k ws = Inr ts \<Longrightarrow> w \<in> set ws \<Longrightarrow> \<exists>t \<in> set ts. sign_all c k [w] = Inr [t]"
  by (induction ws arbitrary: ts) auto

text \<open>Every word of the index is found when it is searched for: its only search token is one of the
  tokens stored with the text, if Unicode normalisation leaves the word as it is.\<close>

lemma blind_index_finds_words:
  assumes tokens: "createBlindIndexTokens c key value = Inr ts"
    and word: "w \<in> set (normalizeBlindIndexText c value)" "normalize_nfkc c w = w"
  shows "\<exists>t \<in> set ts. createBlindIndexTokens c key w = Inr [t]"
proof -
  note w = blind_words [OF word(1)]
  have "to_lower w = w" using w(2) by (simp add: to_lower_def list_all_iff map_idI)
  moreover have "map (\<lambda>x. if letter_or_number x \<or> is_ws x then x else CHR '' '') w = w"
    using w(2) by (simp add: list_all_iff map_idI)
  moreover have ws: "list_all (\<lambda>x. \<not> is_ws x) w" using w(2) letter_not_ws by (auto simp: list_all_iff)
  moreover have "split_on (CHR '' '') w = [w]"
    using ws by (intro split_on_no_sep) (auto simp: list_all_iff is_ws_def)
  ultimately have "normalizeBlindIndexText c w = [w]"
    using w(1) word(2) by (auto simp: normalizeBlindIndexText_def collapse_no_ws trim_no_ws uniq_def
        MAX_BLIND_INDEX_TOKENS_def)
  with sign_all_member [of c key "normalizeBlindIndexText c value" ts w] tokens word(1) show ?thesis
    by (simp add: createBlindIndexTokens_def)
qed

lemma blind_index_finds_words_witness:
  "\<exists>t \<in> set [bytesToBase64Url (frame [9] @ text_encode ''team''), bytesToBase64Url (frame [9] @ text_encode ''lunch'')].
     createBlindIndexTokens demo_crypto [9] ''lunch'' = Inr [t]"
proof -
  have words: "normalizeBlindIndexText demo_crypto ''Team-Lunch!'' = [''team'', ''lunch'']"
    by (simp add: normalizeBlindIndexText_def demo_crypto_def) code_simp
  have "createBlindIndexTokens demo_crypto [9] ''Team-Lunch!'' =
      Inr [bytesToBase64Url (frame [9] @ text_encode ''team''), bytesToBase64Url (frame [9] @ text_encode ''lunch'')]"
    by (simp add: createBlindIndexTokens_def words) (simp add: demo_crypto_def)
  from blind_index_finds_words [OF this, of "''lunch''"] show ?thesis
    by (simp add: words) (simp add: demo_crypto_def)
qed

end
