(* ===== verification/E2eePayloads.thy ===== *)
theory E2eePayloads
  imports E2eeModule
begin

text \<open>
  What leaves the device and what is shown of it: \<open>packages/calendar-core/src/content-encryption.ts\<close>,
  \<open>packages/e2ee/src/payloads.ts\<close>, \<open>hydration.ts\<close>, \<open>device-key.ts\<close> and the provider without a
  session of \<open>provider.ts\<close>. Requests, events and calendars are objects with any further
  properties: lists of keys and values.
\<close>

section \<open>Objects\<close>

type_synonym js_object = "(string \<times> jsval) list"

definition has_own :: "js_object \<Rightarrow> string \<Rightarrow> bool" where
  "has_own ps k \<longleftrightarrow> k \<in> fst ` set ps"

abbreviation prop_of :: "js_object \<Rightarrow> string \<Rightarrow> jsval" where
  "prop_of ps k \<equiv> js_get (JObj ps) k"

text \<open>\<open>{ ...object, k1: v1, k2: v2 }\<close> and the rest of a destructuring.\<close>

definition with_props :: "js_object \<Rightarrow> (string \<times> jsval) list \<Rightarrow> js_object" where
  "with_props ps kvs = fold (\<lambda>(k, v). map_set k v) kvs ps"

definition without_props :: "js_object \<Rightarrow> string list \<Rightarrow> js_object" where
  "without_props ps ks = filter (\<lambda>p. fst p \<notin> set ks) ps"

section \<open>content-encryption.ts\<close>

definition CONTENT_ENCRYPTION_KEY_VERSION :: int where "CONTENT_ENCRYPTION_KEY_VERSION = 1"

datatype name_kind = CalendarName | CategoryName

fun kind_text :: "name_kind \<Rightarrow> string" where
  "kind_text CalendarName = ''calendar''"
| "kind_text CategoryName = ''category''"

definition ENCRYPTED_CALENDAR_NAME_PLACEHOLDER :: string where
  "ENCRYPTED_CALENDAR_NAME_PLACEHOLDER = ''Encrypted calendar''"

definition ENCRYPTED_CATEGORY_NAME_PLACEHOLDER :: string where
  "ENCRYPTED_CATEGORY_NAME_PLACEHOLDER = ''Encrypted category''"

fun encryptedNamePlaceholder :: "name_kind \<Rightarrow> string" where
  "encryptedNamePlaceholder CalendarName = ENCRYPTED_CALENDAR_NAME_PLACEHOLDER"
| "encryptedNamePlaceholder CategoryName = ENCRYPTED_CATEGORY_NAME_PLACEHOLDER"

definition encryptedNameAad :: "name_kind \<Rightarrow> int \<Rightarrow> string" where
  "encryptedNameAad kind keyVersion = kind_text kind @ ''-name:v'' @ int_str keyVersion"

definition eventContentAad :: "int \<Rightarrow> string" where
  "eventContentAad keyVersion = ''event-content:v'' @ int_str keyVersion"

definition EVENT_CONTENT_FIELDS :: "string list" where
  "EVENT_CONTENT_FIELDS = [''title'', ''description'', ''location'', ''color'', ''categoryId'']"

fun hasText :: "jsval \<Rightarrow> bool" where
  "hasText (JStr s) = (trim s \<noteq> [])"
| "hasText _ = False"

definition findPlaintextEventContentFields :: "js_object \<Rightarrow> string list" where
  "findPlaintextEventContentFields body = filter (\<lambda>field. hasText (prop_of body field)) EVENT_CONTENT_FIELDS"

section \<open>payloads.ts\<close>

text \<open>The argument is a string, \<open>null\<close> or \<open>undefined\<close>.\<close>

fun trimToNull :: "jsval \<Rightarrow> string option" where
  "trimToNull (JStr s) = (let trimmed = trim s in if trimmed = [] then None else Some trimmed)"
| "trimToNull _ = None"

definition null_or_str :: "string option \<Rightarrow> jsval" where
  "null_or_str s = (case s of None \<Rightarrow> JNull | Some t \<Rightarrow> JStr t)"

definition ENCRYPTION_NOT_READY_MESSAGE :: string where
  "ENCRYPTION_NOT_READY_MESSAGE =
     ''Encryption is not ready on this device. Sign in again to unlock your encrypted data, then retry.''"

definition withoutPlaintextEventContent :: "js_object \<Rightarrow> e2ee_error + js_object" where
  "withoutPlaintextEventContent request =
     (if 0 < length (findPlaintextEventContentFields request) then Inl (Thrown ENCRYPTION_NOT_READY_MESSAGE)
      else Inr (without_props request EVENT_CONTENT_FIELDS))"

definition withoutPlaintextName :: "js_object \<Rightarrow> e2ee_error + js_object" where
  "withoutPlaintextName request =
     (if trimToNull (prop_of request ''name'') \<noteq> None then Inl (Thrown ENCRYPTION_NOT_READY_MESSAGE)
      else Inr (without_props request [''name'']))"

definition shouldEncryptEventContent :: "js_object \<Rightarrow> bool" where
  "shouldEncryptEventContent request \<longleftrightarrow>
     has_own request ''title'' \<and> trimToNull (prop_of request ''title'') \<noteq> None"

text \<open>\<open>(request.participants ?? []).some((participant) => participant.role !== "organizer")\<close>.\<close>

definition invitesAttendees :: "js_object \<Rightarrow> bool" where
  "invitesAttendees request =
     (case prop_of request ''participants'' of
        JArr ps \<Rightarrow> list_ex (\<lambda>p. js_get p ''role'' \<noteq> JStr ''organizer'') ps
      | _ \<Rightarrow> False)"

definition event_content :: "js_object \<Rightarrow> jsval" where
  "event_content request = JObj
     [(''title'', JStr (case trimToNull (prop_of request ''title'') of None \<Rightarrow> [] | Some t \<Rightarrow> t)),
      (''description'', null_or_str (trimToNull (prop_of request ''description''))),
      (''location'', null_or_str (trimToNull (prop_of request ''location''))),
      (''color'', null_or_str (trimToNull (prop_of request ''color''))),
      (''categoryId'', null_or_str (trimToNull (prop_of request ''categoryId'')))]"

text \<open>The transient copy for invitees: a title, and a description and a location when there are any.\<close>

definition invitation_content :: "js_object \<Rightarrow> jsval" where
  "invitation_content request = JObj
     ((''title'', JStr (case trimToNull (prop_of request ''title'') of None \<Rightarrow> [] | Some t \<Rightarrow> t)) #
      (case trimToNull (prop_of request ''description'') of None \<Rightarrow> [] | Some t \<Rightarrow> [(''description'', JStr t)]) @
      (case trimToNull (prop_of request ''location'') of None \<Rightarrow> [] | Some t \<Rightarrow> [(''location'', JStr t)]))"

text \<open>\<open>[title, description, location].filter(Boolean).join(" ")\<close>.\<close>

definition searchable_text :: "js_object \<Rightarrow> string" where
  "searchable_text request =
     join_with '' '' (List.map_filter (\<lambda>k. trimToNull (prop_of request k)) [''title'', ''description'', ''location''])"

definition encryptEventContentRequest ::
  "('key, 'rng) web_crypto \<Rightarrow> 'key \<Rightarrow> 'key \<Rightarrow> js_object \<Rightarrow> int \<Rightarrow> 'rng \<Rightarrow> (e2ee_error + js_object) \<times> 'rng" where
  "encryptEventContentRequest crypto accountKey blindIndexKey request keyVersion rng =
     (if \<not> shouldEncryptEventContent request then (withoutPlaintextEventContent request, rng)
      else case encryptJsonPayload crypto accountKey (event_content request) (Some (eventContentAad keyVersion)) rng of
        (Inl e, rng') \<Rightarrow> (Inl e, rng')
      | (Inr payload, rng') \<Rightarrow>
          (and_then (createBlindIndexTokens crypto blindIndexKey (searchable_text request)) (\<lambda>blindIndexTokens.
             Inr (with_props (without_props request EVENT_CONTENT_FIELDS)
               ([(''encryptedContent'', JStr (payload_text (json_texts crypto) payload)),
                 (''blindIndexTokens'', JArr (map JStr blindIndexTokens)),
                 (''encryptionKeyVersion'', JNum (of_int keyVersion)),
                 (''attributesEncrypted'', JBool True)] @
                (if invitesAttendees request then [(''invitationContent'', invitation_content request)] else [])))), rng'))"

definition encryptNameRequest ::
  "('key, 'rng) web_crypto \<Rightarrow> 'key \<Rightarrow> 'key \<Rightarrow> name_kind \<Rightarrow> js_object \<Rightarrow> int \<Rightarrow> 'rng \<Rightarrow> (e2ee_error + js_object) \<times> 'rng" where
  "encryptNameRequest crypto accountKey blindIndexKey kind request keyVersion rng =
     (case (if has_own request ''name'' then trimToNull (prop_of request ''name'') else None) of
        None \<Rightarrow> (withoutPlaintextName request, rng)
      | Some name \<Rightarrow>
          (case encryptJsonPayload crypto accountKey (JObj [(''name'', JStr name)]) (Some (encryptedNameAad kind keyVersion)) rng of
             (Inl e, rng') \<Rightarrow> (Inl e, rng')
           | (Inr payload, rng') \<Rightarrow>
               (and_then (createBlindIndexTokens crypto blindIndexKey name) (\<lambda>blindIndexTokens.
                  Inr (with_props (without_props request [''name''])
                    [(''encryptedName'', JStr (payload_text (json_texts crypto) payload)),
                     (''blindIndexTokens'', JArr (map JStr blindIndexTokens)),
                     (''encryptionKeyVersion'', JNum (of_int keyVersion))])), rng')))"

definition isEncryptedJsonPayload :: "jsval \<Rightarrow> bool" where
  "isEncryptedJsonPayload v \<longleftrightarrow>
     is_object v \<and> js_get v ''algorithm'' = JStr ''AES-GCM'' \<and> str_of (js_get v ''iv'') \<noteq> None \<and>
     str_of (js_get v ''ciphertext'') \<noteq> None \<and> (case js_get v ''version'' of JNum _ \<Rightarrow> True | _ \<Rightarrow> False)"

definition parseEncryptedJsonPayload :: "string \<Rightarrow> encrypted_payload option" where
  "parseEncryptedJsonPayload raw =
     (case json_read raw of
        None \<Rightarrow> None
      | Some parsed \<Rightarrow>
          if isEncryptedJsonPayload parsed
          then Some \<lparr>ep_version = js_get parsed ''version'', ep_iv = the (str_of (js_get parsed ''iv'')),
                     ep_ciphertext = the (str_of (js_get parsed ''ciphertext''))\<rparr>
          else None)"

text \<open>The key version of a record: its own when it has one.\<close>

definition record_version :: "js_object \<Rightarrow> int" where
  "record_version r = (case prop_of r ''encryptionKeyVersion'' of JNum q \<Rightarrow> \<lfloor>q\<rfloor> | _ \<Rightarrow> CONTENT_ENCRYPTION_KEY_VERSION)"

definition decryptEntityName ::
  "('key, 'rng) web_crypto \<Rightarrow> 'key \<Rightarrow> name_kind \<Rightarrow> js_object \<Rightarrow> string option" where
  "decryptEntityName crypto accountKey kind r =
     (case prop_of r ''encryptedName'' of
        JStr encryptedName \<Rightarrow>
          if encryptedName = [] then None
          else (case parseEncryptedJsonPayload encryptedName of
              None \<Rightarrow> None
            | Some parsed \<Rightarrow>
                (case decryptJsonPayload crypto accountKey parsed (Some (encryptedNameAad kind (record_version r))) of
                   Inl _ \<Rightarrow> None
                 | Inr decrypted \<Rightarrow>
                     (case js_get decrypted ''name'' of JStr name \<Rightarrow> trimToNull (JStr name) | _ \<Rightarrow> None)))
      | _ \<Rightarrow> None)"

definition hydrateEncryptedNameWithoutSession :: "name_kind \<Rightarrow> js_object \<Rightarrow> js_object" where
  "hydrateEncryptedNameWithoutSession kind r =
     (if \<not> truthy (prop_of r ''encryptedName'') then r
      else with_props r [(''name'', JStr (case trimToNull (prop_of r ''name'') of
             None \<Rightarrow> encryptedNamePlaceholder kind | Some name \<Rightarrow> name))])"

text \<open>\<open>session\<close> is \<open>None\<close> when there are no keys.\<close>

definition hydrateEncryptedName ::
  "(('key, 'rng) web_crypto \<times> 'key) option \<Rightarrow> name_kind \<Rightarrow> js_object \<Rightarrow> js_object" where
  "hydrateEncryptedName session kind r =
     (if \<not> truthy (prop_of r ''encryptedName'') then r
      else case (case session of None \<Rightarrow> None | Some (crypto, accountKey) \<Rightarrow> decryptEntityName crypto accountKey kind r) of
        Some name \<Rightarrow> with_props r [(''name'', JStr name)]
      | None \<Rightarrow> hydrateEncryptedNameWithoutSession kind r)"

section \<open>hydration.ts\<close>

definition ENCRYPTED_EVENT_PLACEHOLDER_TITLE :: string where
  "ENCRYPTED_EVENT_PLACEHOLDER_TITLE = ''Encrypted event''"

definition js_or :: "jsval \<Rightarrow> jsval \<Rightarrow> jsval" where
  "js_or a b = (if truthy a then a else b)"

definition withDecryptedEventContent :: "js_object \<Rightarrow> js_object \<Rightarrow> js_object" where
  "withDecryptedEventContent event content = with_props event
     [(''title'', JStr (case trimToNull (prop_of content ''title'') of
          Some t \<Rightarrow> t
        | None \<Rightarrow> (case trimToNull (prop_of event ''title'') of Some t \<Rightarrow> t | None \<Rightarrow> ENCRYPTED_EVENT_PLACEHOLDER_TITLE))),
      (''description'', coalesce (prop_of content ''description'') JNull),
      (''location'', coalesce (prop_of content ''location'') JNull),
      (''color'', js_or (js_or (prop_of event ''color'') (prop_of content ''color'')) (prop_of event ''color'')),
      (''categoryId'', js_or (js_or (prop_of event ''categoryId'') (prop_of content ''categoryId'')) (prop_of event ''categoryId''))]"

definition hydrateEncryptedEventWithoutSession :: "js_object \<Rightarrow> js_object" where
  "hydrateEncryptedEventWithoutSession event =
     (if prop_of event ''encryptionState'' \<noteq> JStr ''encrypted'' \<or> \<not> truthy (prop_of event ''encryptedContent'') \<or>
         str_of (prop_of event ''encryptedContent'') = None
      then event
      else with_props event
        [(''title'', JStr (case trimToNull (prop_of event ''title'') of
            Some t \<Rightarrow> t | None \<Rightarrow> ENCRYPTED_EVENT_PLACEHOLDER_TITLE)),
         (''description'', JNull), (''location'', JNull), (''encryptionState'', JStr ''encrypted'')])"

section \<open>device-key.ts\<close>

definition resolveDeviceEnvelopeSalt ::
  "('key, 'rng) web_crypto \<Rightarrow> string option \<Rightarrow> password_envelope option \<Rightarrow> string option \<Rightarrow> 'key \<Rightarrow> 'rng \<Rightarrow>
   (e2ee_error + string option) \<times> 'rng" where
  "resolveDeviceEnvelopeSalt crypto storedSalt envelope password accountKey rng =
     (case envelope of
        None \<Rightarrow> (Inr None, rng)
      | Some env \<Rightarrow>
          if storedSalt = Some (pe_kdfSalt env) then (Inr storedSalt, rng)
          else if password \<in> {None, Some []} then (Inr None, rng)
          else (case unwrapPasswordEnvelope crypto (the password) env of
              Inl _ \<Rightarrow> (Inr None, rng)
            | Inr (openedKey, _) \<Rightarrow>
                (case encryptJsonPayload crypto accountKey (JBool True) None rng of
                   (Inl e, rng') \<Rightarrow> (Inl e, rng')
                 | (Inr probe, rng') \<Rightarrow>
                     (Inr (case decryptJsonPayload crypto openedKey probe None of
                        Inr _ \<Rightarrow> Some (pe_kdfSalt env) | Inl _ \<Rightarrow> None), rng'))))"

datatype e2ee_lock = SignInAgain | CannotOpen
datatype unlock_password = SignInPassword | NoPassword

definition lockWithoutDeviceKeys :: "bool \<Rightarrow> bool \<Rightarrow> unlock_password \<Rightarrow> bool \<Rightarrow> e2ee_lock option" where
  "lockWithoutDeviceKeys hasEnvelope hasOtherDevices password opened =
     (if opened then None
      else if \<not> hasEnvelope then (if hasOtherDevices then Some CannotOpen else None)
      else if password = SignInPassword then Some CannotOpen else Some SignInAgain)"

section \<open>Facts on objects\<close>

lemma with_props_Nil [simp]: "with_props ps [] = ps"
  by (simp add: with_props_def)

lemma with_props_Cons [simp]: "with_props ps ((k, v) # kvs) = with_props (map_set k v ps) kvs"
  by (simp add: with_props_def)

lemma map_of_with_props: "map_of (with_props ps kvs) = map_of ps ++ map_of (rev kvs)"
  by (induction kvs arbitrary: ps) (auto simp: map_add_def fun_eq_iff split: option.splits)

lemma map_of_rev_distinct: "distinct (map fst kvs) \<Longrightarrow> map_of (rev kvs) = map_of kvs"
  by (rule map_of_eqI) (auto simp: map_of_eq_Some_iff rev_map [symmetric])

lemma prop_of_with_props:
  "distinct (map fst kvs) \<Longrightarrow>
   prop_of (with_props ps kvs) k = (case map_of kvs k of Some v \<Rightarrow> v | None \<Rightarrow> prop_of ps k)"
  by (simp add: map_of_with_props map_add_def map_of_rev_distinct split: option.splits)

lemma set_with_props: "set (with_props ps kvs) \<subseteq> set ps \<union> set kvs"
proof (induction kvs arbitrary: ps)
  case (Cons kv kvs)
  obtain k v where kv: "kv = (k, v)" by (cases kv)
  have "set (map_set k v ps) \<subseteq> insert (k, v) (set ps)" by (induction k v ps rule: map_set.induct) auto
  with Cons [of "map_set k v ps"] kv show ?case by auto
qed simp

lemma prop_of_without: "prop_of (without_props ps ks) k = (if k \<in> set ks then JUndefined else prop_of ps k)"
  by (induction ps) (auto simp: without_props_def split: if_splits)

lemma trimToNull_trimmed: "trimToNull v = Some t \<Longrightarrow> trim t = t \<and> t \<noteq> []"
  by (cases v) (auto simp: Let_def split: if_splits)

lemma trimToNull_again [simp]: "trimToNull v = Some t \<Longrightarrow> trimToNull (JStr t) = Some t"
  by (auto dest: trimToNull_trimmed)

section \<open>Additional data\<close>

lemma int_str_inject [simp]: "int_str i = int_str j \<longleftrightarrow> i = j"
proof -
  have minus: "nat_str n \<noteq> CHR ''-'' # s" for n s
    using nat_str_digits [of n] by (auto simp: is_digit_def simp del: nat_str_digits)
  show ?thesis
    by (auto simp: int_str_def minus minus [symmetric] split: if_splits dest: minus [THEN notE])
qed

lemma encryptedNameAad_inject [simp]:
  "encryptedNameAad kind v = encryptedNameAad kind' v' \<longleftrightarrow> kind = kind' \<and> v = v'"
  by (cases kind; cases kind') (auto simp: encryptedNameAad_def)

lemma aad_bytes_name_inject [simp]:
  "aad_bytes (Some (encryptedNameAad kind v)) = aad_bytes (Some (encryptedNameAad kind' v')) \<longleftrightarrow> kind = kind' \<and> v = v'"
proof -
  have "encryptedNameAad kind v \<noteq> []" for kind v by (simp add: encryptedNameAad_def)
  then show ?thesis by (simp add: aad_bytes_def)
qed

text \<open>The text of a sealed payload is parsed back.\<close>

lemma parse_sealed_text:
  assumes "encryptJsonPayload c k v aad rng = (Inr p, rng')"
  shows "parseEncryptedJsonPayload (payload_text env p) = Some p"
proof -
  have version: "ep_version p = JNum 1" using assms by (rule encrypted_json) simp
  from json_round_trip [OF payload_object_plain [OF version], of env]
  have "json_read (payload_text env p) = Some (payload_object p)" by (auto simp: payload_text_def)
  with version show ?thesis
    by (simp add: parseEncryptedJsonPayload_def payload_object_def isEncryptedJsonPayload_def)
qed

lemma payload_text_not_empty: "encryptJsonPayload c k v aad rng = (Inr p, rng') \<Longrightarrow> payload_text env p \<noteq> []"
  using parse_sealed_text [of c k v aad rng p rng' env] by (auto simp: parseEncryptedJsonPayload_def json_read_def)

lemma demo_tokens: "\<exists>ts. createBlindIndexTokens demo_crypto k v = Inr ts"
proof -
  have "\<exists>ts. sign_all demo_crypto k ws = Inr ts" for ws
    by (induction ws) (auto simp: demo_crypto_def)
  then show ?thesis by (simp add: createBlindIndexTokens_def)
qed

section \<open>Nothing of the content leaves in plain text\<close>

definition WIRE_FIELDS :: "string list" where
  "WIRE_FIELDS = [''encryptedContent'', ''blindIndexTokens'', ''encryptionKeyVersion'', ''attributesEncrypted'']"

lemma encrypted_event_wire:
  assumes "encryptEventContentRequest c ak bk request ver rng = (Inr wire, rng')"
  shows "wire = without_props request EVENT_CONTENT_FIELDS \<and> findPlaintextEventContentFields request = [] \<and>
      \<not> shouldEncryptEventContent request \<or>
    (\<exists>p tokens. shouldEncryptEventContent request \<and>
      encryptJsonPayload c ak (event_content request) (Some (eventContentAad ver)) rng = (Inr p, rng') \<and>
      wire = with_props (without_props request EVENT_CONTENT_FIELDS)
       ([(''encryptedContent'', JStr (payload_text (json_texts c) p)), (''blindIndexTokens'', JArr (map JStr tokens)),
         (''encryptionKeyVersion'', JNum (of_int ver)), (''attributesEncrypted'', JBool True)] @
        (if invitesAttendees request then [(''invitationContent'', invitation_content request)] else [])))"
  using assms unfolding encryptEventContentRequest_def withoutPlaintextEventContent_def
  by (auto split: if_splits prod.splits sum.splits simp del: with_props_Cons)

lemma wire_entry:
  assumes "encryptEventContentRequest c ak bk request ver rng = (Inr wire, rng')"
    and kv: "(k, v) \<in> set wire"
  shows "(k, v) \<in> set request \<and> k \<notin> set EVENT_CONTENT_FIELDS \<or> k \<in> set WIRE_FIELDS \<or>
       k = ''invitationContent'' \<and> v = invitation_content request \<and> invitesAttendees request"
proof -
  let ?rest = "without_props request EVENT_CONTENT_FIELDS"
  let ?new = "\<lambda>p tokens. [(''encryptedContent'', JStr (payload_text (json_texts c) p)), (''blindIndexTokens'', JArr (map JStr tokens)),
         (''encryptionKeyVersion'', JNum (of_int ver)), (''attributesEncrypted'', JBool True)] @
        (if invitesAttendees request then [(''invitationContent'', invitation_content request)] else [])"
  from encrypted_event_wire [OF assms(1)]
  consider "wire = ?rest" | p tokens where "wire = with_props ?rest (?new p tokens)" by blast
  then consider "(k, v) \<in> set ?rest" | p tokens where "(k, v) \<in> set (?new p tokens)"
  proof cases
    case 1
    with kv that show ?thesis by simp
  next
    case (2 p tokens)
    with kv set_with_props [of ?rest "?new p tokens"] that show ?thesis by blast
  qed
  then show ?thesis
  proof cases
    case 1
    then show ?thesis by (simp add: without_props_def)
  next
    case 2
    then show ?thesis by (auto simp: WIRE_FIELDS_def split: if_splits)
  qed
qed

lemma wire_names_are_not_content:
  "field \<in> set EVENT_CONTENT_FIELDS \<Longrightarrow> field \<notin> set WIRE_FIELDS \<and> field \<noteq> ''invitationContent''"
  by (auto simp: WIRE_FIELDS_def EVENT_CONTENT_FIELDS_def)

lemma event_wire_bare:
  assumes "encryptEventContentRequest c ak bk request ver rng = (Inr wire, rng')" "field \<in> set EVENT_CONTENT_FIELDS"
  shows "\<not> has_own wire field"
  using wire_entry [OF assms(1)] wire_names_are_not_content [OF assms(2)] assms(2) unfolding has_own_def by fastforce

section \<open>Names\<close>

lemma encrypted_name_wire:
  assumes "has_own request ''name''" "trimToNull (prop_of request ''name'') = Some name"
    and "encryptNameRequest c ak bk kind request ver rng = (Inr wire, rng')"
  shows "\<exists>p tokens. encryptJsonPayload c ak (JObj [(''name'', JStr name)]) (Some (encryptedNameAad kind ver)) rng = (Inr p, rng') \<and>
      wire = with_props (without_props request [''name''])
        [(''encryptedName'', JStr (payload_text (json_texts c) p)), (''blindIndexTokens'', JArr (map JStr tokens)),
         (''encryptionKeyVersion'', JNum (of_int ver))]"
  using assms unfolding encryptNameRequest_def
  by (auto split: prod.splits sum.splits simp del: with_props_Cons)

lemma name_wire_bare:
  assumes "encryptNameRequest c ak bk kind request ver rng = (Inr wire, rng')"
  shows "\<not> has_own wire ''name''"
proof (cases "has_own request ''name'' \<and> trimToNull (prop_of request ''name'') \<noteq> None")
  case True
  then obtain name where name: "has_own request ''name''" "trimToNull (prop_of request ''name'') = Some name" by auto
  show ?thesis
  proof
    assume "has_own wire ''name''"
    then obtain v where "(''name'', v) \<in> set wire" by (auto simp: has_own_def)
    then show False using encrypted_name_wire [OF name assms] set_with_props [of "without_props request [''name'']"]
      by (fastforce simp: without_props_def simp del: with_props_Cons)
  qed
next
  case False
  with assms have "withoutPlaintextName request = Inr wire" by (auto simp: encryptNameRequest_def split: if_splits)
  then show ?thesis by (auto simp: withoutPlaintextName_def without_props_def has_own_def split: if_splits)
qed

lemma decryptEntityName_sealed:
  assumes "prop_of r ''encryptedName'' = JStr s" "parseEncryptedJsonPayload s = Some p"
  shows "decryptEntityName c k kind r =
    (case decryptJsonPayload c k p (Some (encryptedNameAad kind (record_version r))) of
       Inl _ \<Rightarrow> None
     | Inr decrypted \<Rightarrow> (case js_get decrypted ''name'' of JStr name \<Rightarrow> trimToNull (JStr name) | _ \<Rightarrow> None))"
proof -
  have "s \<noteq> []" using assms(2) by (auto simp: parseEncryptedJsonPayload_def json_read_def)
  with assms(2) show ?thesis
    unfolding decryptEntityName_def assms(1) by (simp split: option.splits)
qed

text \<open>The name of a calendar or category leaves the device sealed: a record that carries the
  ciphertext shows the trimmed name with the account key, as a record of the same kind and with the
  same key version, and shows no name with another key, as another kind or with another version.\<close>

lemma sealed_name_opens_as_its_kind:
  assumes laws: "crypto_laws c" "crypto_authentic c"
    and name: "has_own request ''name''" "trimToNull (prop_of request ''name'') = Some name"
    and wire: "encryptNameRequest c ak bk kind request ver rng = (Inr wire, rng')"
    and stored: "prop_of r ''encryptedName'' = prop_of wire ''encryptedName''"
  shows "\<not> has_own wire ''name'' \<and>
    decryptEntityName c ak' kind' r =
      (if ak' = ak \<and> kind' = kind \<and> record_version r = ver then Some name else None)"
proof
  obtain p tokens where p: "encryptJsonPayload c ak (JObj [(''name'', JStr name)]) (Some (encryptedNameAad kind ver)) rng = (Inr p, rng')"
    and w: "wire = with_props (without_props request [''name''])
        [(''encryptedName'', JStr (payload_text (json_texts c) p)), (''blindIndexTokens'', JArr (map JStr tokens)),
         (''encryptionKeyVersion'', JNum (of_int ver))]"
    using encrypted_name_wire [OF name wire] by blast
  show "\<not> has_own wire ''name''" using wire by (rule name_wire_bare)
  have content: "prop_of r ''encryptedName'' = JStr (payload_text (json_texts c) p)"
    unfolding stored w by (subst prop_of_with_props) simp_all
  have plain: "json_plain (JObj [(''name'', JStr name)])" by simp
  have opens: "decryptJsonPayload c ak' p (Some (encryptedNameAad kind' (record_version r))) = Inr v \<longleftrightarrow>
      ak' = ak \<and> kind' = kind \<and> record_version r = ver \<and> v = JObj [(''name'', JStr name)]" for v
    using sealed_json_opens [OF laws plain p] by auto
  show "decryptEntityName c ak' kind' r = (if ak' = ak \<and> kind' = kind \<and> record_version r = ver then Some name else None)"
    unfolding decryptEntityName_sealed [OF content parse_sealed_text [OF p]]
  proof (cases "decryptJsonPayload c ak' p (Some (encryptedNameAad kind' (record_version r)))")
    case (Inl e)
    with opens show "(case decryptJsonPayload c ak' p (Some (encryptedNameAad kind' (record_version r))) of Inl _ \<Rightarrow> None
       | Inr decrypted \<Rightarrow> (case js_get decrypted ''name'' of JStr name \<Rightarrow> trimToNull (JStr name) | _ \<Rightarrow> None)) =
      (if ak' = ak \<and> kind' = kind \<and> record_version r = ver then Some name else None)" by auto
  next
    case (Inr v)
    with opens have "ak' = ak" "kind' = kind" "record_version r = ver" "v = JObj [(''name'', JStr name)]" by auto
    with Inr trimToNull_again [OF name(2)]
    show "(case decryptJsonPayload c ak' p (Some (encryptedNameAad kind' (record_version r))) of Inl _ \<Rightarrow> None
       | Inr decrypted \<Rightarrow> (case js_get decrypted ''name'' of JStr name \<Rightarrow> trimToNull (JStr name) | _ \<Rightarrow> None)) =
      (if ak' = ak \<and> kind' = kind \<and> record_version r = ver then Some name else None)" by simp
  qed
qed

lemma sealed_name_opens_as_its_kind_witness:
  "\<exists>wire rng'. encryptNameRequest demo_crypto [1] [2] CalendarName [(''name'', JStr '' Work '')] 1 0 = (Inr wire, rng') \<and>
     decryptEntityName demo_crypto [1] CalendarName wire = Some ''Work'' \<and>
     decryptEntityName demo_crypto [1] CategoryName wire = None \<and>
     decryptEntityName demo_crypto [3] CalendarName wire = None"
proof -
  let ?request = "[(''name'', JStr '' Work '')]"
  have name: "has_own ?request ''name''" "trimToNull (prop_of ?request ''name'') = Some ''Work''"
    by (simp add: has_own_def) code_simp
  obtain p rng' where "encryptJsonPayload demo_crypto [1] (JObj [(''name'', JStr ''Work'')]) (Some (encryptedNameAad CalendarName 1)) 0 = (Inr p, rng')"
    by (simp add: encryptJsonPayload_def demo_crypto_def)
  moreover obtain ts where "createBlindIndexTokens demo_crypto [2] ''Work'' = Inr ts" using demo_tokens by blast
  ultimately obtain wire where wire: "encryptNameRequest demo_crypto [1] [2] CalendarName ?request 1 0 = (Inr wire, rng')"
    using name by (simp add: encryptNameRequest_def del: trimToNull.simps)
  have "record_version wire = 1"
    using encrypted_name_wire [OF name wire] by (auto simp: record_version_def prop_of_with_props simp del: with_props_Cons js_get.simps)
  with sealed_name_opens_as_its_kind [OF demo_crypto_laws demo_crypto_authentic name wire refl] wire
  show ?thesis by (intro exI [of _ wire] exI [of _ rng']) simp
qed

section \<open>When a device key may be forgotten\<close>

lemma resolved_salt:
  assumes laws: "crypto_laws c" "crypto_authentic c"
    and run: "resolveDeviceEnvelopeSalt c stored (Some env) password accountKey rng = (Inr r, rng')"
  shows "r = (if stored = Some (pe_kdfSalt env) \<or>
      (\<exists>pw bk. password = Some pw \<and> pw \<noteq> [] \<and> unwrapPasswordEnvelope c pw env = Inr (accountKey, bk))
    then Some (pe_kdfSalt env) else None)"
proof (cases "stored = Some (pe_kdfSalt env) \<or> password \<in> {None, Some []}")
  case True
  with run show ?thesis by (auto simp: resolveDeviceEnvelopeSalt_def split: if_splits)
next
  case False
  then obtain pw where pw: "password = Some pw" "pw \<noteq> []" by auto
  show ?thesis
  proof (cases "unwrapPasswordEnvelope c pw env")
    case (Inl e)
    with False pw run show ?thesis by (simp add: resolveDeviceEnvelopeSalt_def)
  next
    case (Inr keys)
    obtain opened bk where keys: "keys = (opened, bk)" by (cases keys)
    obtain probe where probe: "encryptJsonPayload c accountKey (JBool True) None rng = (Inr probe, rng')"
      and r: "r = (case decryptJsonPayload c opened probe None of Inr _ \<Rightarrow> Some (pe_kdfSalt env) | Inl _ \<Rightarrow> None)"
      using False pw run Inr keys by (auto simp: resolveDeviceEnvelopeSalt_def split: prod.splits sum.splits)
    have "decryptJsonPayload c opened probe None = Inr v \<longleftrightarrow> opened = accountKey \<and> v = JBool True" for v
      using sealed_json_opens [OF laws _ probe] by auto
    then have "r = (if opened = accountKey then Some (pe_kdfSalt env) else None)"
      unfolding r by (cases "decryptJsonPayload c opened probe None") auto
    moreover have "(\<exists>pw bk. password = Some pw \<and> pw \<noteq> [] \<and> unwrapPasswordEnvelope c pw env = Inr (accountKey, bk)) \<longleftrightarrow>
        opened = accountKey"
      using pw Inr keys by simp
    ultimately show ?thesis using False by simp
  qed
qed

text \<open>C32: The salt of an envelope is reported as this device's only when it was stored as such before
  or when the password opens the envelope to the very account key of the device; with the password
  and the right envelope it is reported whatever was stored.\<close>

theorem salt_vouches_for_the_account_key:
  assumes laws: "crypto_laws c" "crypto_authentic c"
    and run: "resolveDeviceEnvelopeSalt c stored (Some env) password accountKey rng = (Inr r, rng')"
  shows "r = (if stored = Some (pe_kdfSalt env) \<or>
      (\<exists>pw bk. password = Some pw \<and> pw \<noteq> [] \<and> unwrapPasswordEnvelope c pw env = Inr (accountKey, bk))
    then Some (pe_kdfSalt env) else None)"
  by (rule resolved_salt [OF laws run])

theorem salt_vouches_for_the_account_key_witness:
  "\<exists>env rng' r rng''. createPasswordEnvelope demo_crypto [1] [2] ''hunter2'' 1 0 = (Inr env, rng') \<and>
     resolveDeviceEnvelopeSalt demo_crypto None (Some env) (Some ''hunter2'') [3] 0 = (Inr r, rng'') \<and> r = None"
proof -
  obtain env rng' where env: "createPasswordEnvelope demo_crypto [1] [2] ''hunter2'' 1 0 = (Inr env, rng')"
    using demo_envelope by blast
  have opens: "unwrapPasswordEnvelope demo_crypto ''hunter2'' env = Inr ([1], [2])"
    by (rule created_envelope_opens [OF demo_crypto_laws demo_exported demo_exported env])
  obtain r rng'' where run: "resolveDeviceEnvelopeSalt demo_crypto None (Some env) (Some ''hunter2'') [3] 0 = (Inr r, rng'')"
    using opens by (simp add: resolveDeviceEnvelopeSalt_def encryptJsonPayload_def demo_crypto_def)
  from salt_vouches_for_the_account_key [OF demo_crypto_laws demo_crypto_authentic run] opens run env
  show ?thesis by auto
qed

end
