(* ===== verification/Async.thy ===== *)
theory Async
  imports E2eeModule
begin

text \<open>
  Asynchronous functions as state transformers that may throw, and what is kept by every run of
  one. The state, and what may happen to it at an \<open>await\<close>, is the one of the component.
\<close>

section \<open>Asynchronous functions\<close>

type_synonym ('w, 'a) async = "'w \<Rightarrow> (e2ee_error + 'a) \<times> 'w"

definition pure :: "'a \<Rightarrow> ('w, 'a) async" where
  "pure x w = (Inr x, w)"

definition bind :: "('w, 'a) async \<Rightarrow> ('a \<Rightarrow> ('w, 'b) async) \<Rightarrow> ('w, 'b) async" where
  "bind m f w = (case m w of (Inl e, w') \<Rightarrow> (Inl e, w') | (Inr x, w') \<Rightarrow> f x w')"

definition catching :: "('w, 'a) async \<Rightarrow> (e2ee_error \<Rightarrow> ('w, 'a) async) \<Rightarrow> ('w, 'a) async" where
  "catching m h w = (case m w of (Inl e, w') \<Rightarrow> h e w' | (Inr x, w') \<Rightarrow> (Inr x, w'))"

definition result :: "e2ee_error + 'a \<Rightarrow> ('w, 'a) async" where
  "result r w = (r, w)"

definition asks :: "('w \<Rightarrow> 'a) \<Rightarrow> ('w, 'a) async" where
  "asks f w = (Inr (f w), w)"

definition change :: "('w \<Rightarrow> 'w) \<Rightarrow> ('w, unit) async" where
  "change f w = (Inr (), f w)"

section \<open>What holds after a run\<close>

text \<open>\<open>P\<close> before, \<open>Q\<close> of the result after, \<open>E\<close> when the function throws.\<close>

definition triple ::
  "('w \<Rightarrow> bool) \<Rightarrow> ('w, 'a) async \<Rightarrow> ('a \<Rightarrow> 'w \<Rightarrow> bool) \<Rightarrow>
   ('w \<Rightarrow> bool) \<Rightarrow> bool" where
  "triple P m Q E \<longleftrightarrow> (\<forall>w. P w \<longrightarrow> (case m w of (Inl _, w') \<Rightarrow> E w' | (Inr x, w') \<Rightarrow> Q x w'))"

lemma triple_bind: "triple P m R E \<Longrightarrow> (\<And>x. triple (R x) (f x) Q E) \<Longrightarrow> triple P (bind m f) Q E"
  by (fastforce simp: triple_def bind_def split: prod.splits sum.splits)

lemma triple_catching: "triple P m Q R \<Longrightarrow> (\<And>e. triple R (h e) Q E) \<Longrightarrow> triple P (catching m h) Q E"
  by (fastforce simp: triple_def catching_def split: prod.splits sum.splits)

lemma triple_weaken: "triple P' m Q' E' \<Longrightarrow> (\<And>w. P w \<Longrightarrow> P' w) \<Longrightarrow> (\<And>x w. Q' x w \<Longrightarrow> Q x w) \<Longrightarrow> (\<And>w. E' w \<Longrightarrow> E w) \<Longrightarrow>
    triple P m Q E"
  by (fastforce simp: triple_def split: prod.splits sum.splits)

lemma triple_pre: "(A \<Longrightarrow> triple P m Q E) \<Longrightarrow> triple (\<lambda>w. P w \<and> A) m Q E"
  by (auto simp: triple_def)

text \<open>\<open>I\<close> is kept whether the function returns or throws, and \<open>F\<close> holds of what it returns.\<close>

definition keeps :: "('w \<Rightarrow> bool) \<Rightarrow> ('w, 'a) async \<Rightarrow> ('a \<Rightarrow> bool) \<Rightarrow> bool" where
  "keeps I m F \<longleftrightarrow> triple I m (\<lambda>x w. I w \<and> F x) I"

named_theorems keeps_rules

lemma keeps_bind: "keeps I m F \<Longrightarrow> (\<And>x. F x \<Longrightarrow> keeps I (f x) G) \<Longrightarrow> keeps I (bind m f) G"
  unfolding keeps_def by (rule triple_bind) (auto intro: triple_pre)

lemma keeps_then: "keeps I m F \<Longrightarrow> (\<And>x. F x \<Longrightarrow> triple I (f x) Q E) \<Longrightarrow> (\<And>w. I w \<Longrightarrow> E w) \<Longrightarrow> triple I (bind m f) Q E"
  unfolding keeps_def
  by (rule triple_bind [where R = "\<lambda>x w. I w \<and> F x"], erule triple_weaken) (auto intro: triple_pre)

lemma triple_if: "(b \<Longrightarrow> triple P m Q E) \<Longrightarrow> (\<not> b \<Longrightarrow> triple P n Q E) \<Longrightarrow> triple P (if b then m else n) Q E"
  by simp

text \<open>When nothing has to be known of what the first function returns.\<close>

lemma keeps_seq [keeps_rules]: "keeps I m (\<lambda>_. True) \<Longrightarrow> (\<And>x. keeps I (f x) G) \<Longrightarrow> keeps I (bind m f) G"
  by (rule keeps_bind)

lemma keeps_weaken: "keeps I m F \<Longrightarrow> (\<And>x. F x \<Longrightarrow> G x) \<Longrightarrow> keeps I m G"
  unfolding keeps_def by (erule triple_weaken) auto

lemma keeps_any: "keeps I m F \<Longrightarrow> keeps I m (\<lambda>_. True)"
  by (erule keeps_weaken) simp

lemma keeps_pure [keeps_rules]: "F x \<Longrightarrow> keeps I (pure x) F"
  by (simp add: keeps_def triple_def pure_def)

lemma keeps_result [keeps_rules]: "(\<And>x. r = Inr x \<Longrightarrow> F x) \<Longrightarrow> keeps I (result r) F"
  by (auto simp: keeps_def triple_def result_def split: sum.splits)

lemma keeps_asks: "(\<And>w. I w \<Longrightarrow> F (f w)) \<Longrightarrow> keeps I (asks f) F"
  by (simp add: keeps_def triple_def asks_def)

lemma keeps_asks_any [keeps_rules]: "keeps I (asks f) (\<lambda>_. True)"
  by (rule keeps_asks) simp

lemma keeps_change [keeps_rules]: "(\<And>w. I w \<Longrightarrow> I (f w)) \<Longrightarrow> F () \<Longrightarrow> keeps I (change f) F"
  by (simp add: keeps_def triple_def change_def)

lemma keeps_catching [keeps_rules]: "keeps I m F \<Longrightarrow> (\<And>e. keeps I (h e) F) \<Longrightarrow> keeps I (catching m h) F"
  unfolding keeps_def by (rule triple_catching)

lemma keeps_if [keeps_rules]: "(b \<Longrightarrow> keeps I m F) \<Longrightarrow> (\<not> b \<Longrightarrow> keeps I n F) \<Longrightarrow> keeps I (if b then m else n) F"
  by simp

lemma keeps_run: "keeps I m F \<Longrightarrow> I w \<Longrightarrow> m w = (r, w') \<Longrightarrow> I w' \<and> (\<forall>x. r = Inr x \<longrightarrow> F x)"
  by (cases r) (auto simp: keeps_def triple_def)

end
