(* ===== verification/KeyBootstrap.thy ===== *)
theory KeyBootstrap
  imports E2eePayloads Async
begin

text \<open>
  How a browser comes by the account key: \<open>apps/web/lib/e2ee-bootstrap.ts\<close> over the session of
  \<open>e2ee-session.ts\<close>, the device records of \<open>e2ee-storage.ts\<close>, the password held between sign-in
  and unlocking (\<open>e2ee-password-cache.ts\<close>) and the password change of
  \<open>command-palette-actions.ts\<close>. An asynchronous function is a state transformer that may throw;
  at an await the call may fail and other code may run: in this page a sign-out with its wipe of the
  records, or another user's sign-in and start; in another tab the storing of a record.
\<close>

section \<open>The state\<close>

text \<open>Time stamps are left out of the records; the key version and the algorithm names are constant.\<close>

record remote_device =
  rd_deviceId :: string
  rd_wrappedAccountKey :: string
  rd_wrappedSearchKey :: string

record bootstrap_response =
  devices :: "remote_device list"
  passwordEnvelope :: "password_envelope option"

record 'key stored_device =
  sd_userId :: string
  sd_deviceId :: string
  sd_publicKey :: string
  sd_privateKey :: 'key
  sd_wrappedAccountKey :: string
  sd_wrappedSearchKey :: string
  sd_envelopeSalt :: "string option"

record 'key active_session =
  as_userId :: string
  as_deviceId :: string
  as_accountKey :: 'key
  as_blindIndexKey :: 'key

record device_upload =
  du_deviceId :: string
  du_publicKey :: string
  du_wrappedAccountKey :: string
  du_wrappedSearchKey :: string

datatype api_call =
    GetBootstrap bootstrap_response
  | PutDevice device_upload
  | PutEnvelope password_envelope
  | ChangePassword string password_envelope

text \<open>
  What else happens while a call is awaited. In this page: a sign-out, whose deletes of the device
  records (\<open>clearSolaceClientAuthArtifacts\<close> of \<open>auth-local-state.ts\<close>) are not awaited and come at any
  later time, and the sign-in and start of another user. In another tab: a record that is stored.
\<close>

datatype 'key interference =
    SignOut
  | WipeRecords
  | OtherUser string "string option" "'key active_session option"
  | OtherTab "'key stored_device"

text \<open>
  \<open>schedule\<close> says for each await what runs meanwhile and whether the call fails; \<open>api_log\<close> holds
  the calls sent, newest first, with whether they were answered.
\<close>

record ('key, 'rng) world =
  stored :: "string \<Rightarrow> 'key stored_device option"
  active :: "'key active_session option"
  pendingAuthPassword :: "string option"
  bootstrapGeneration :: nat
  activeBootstrapUserId :: "string option"
  rng_state :: 'rng
  schedule :: "('key interference list \<times> bool) list"
  api_log :: "(api_call \<times> bool) list"

text \<open>What the server answers, and whether the page has Web Crypto and IndexedDB.\<close>

record server_env =
  bootstrap_answer :: bootstrap_response
  device_answer :: "device_upload \<Rightarrow> remote_device"
  isWebCryptoAvailable :: bool
  has_indexedDB :: bool

section \<open>Asynchronous functions\<close>

text \<open>The functions of \<open>Async\<close> on this state.\<close>

type_synonym ('key, 'rng, 'a) page = "(('key, 'rng) world, 'a) async"

definition random :: "('rng \<Rightarrow> (e2ee_error + 'a) \<times> 'rng) \<Rightarrow> ('key, 'rng, 'a) page" where
  "random f w = (case f (rng_state w) of (r, g) \<Rightarrow> (r, w\<lparr>rng_state := g\<rparr>))"

section \<open>e2ee-session.ts and the generations of e2ee-bootstrap.ts\<close>

definition setActiveE2eeSession :: "'key active_session \<Rightarrow> ('key, 'rng) world \<Rightarrow> ('key, 'rng) world" where
  "setActiveE2eeSession session w = w\<lparr>active := Some session\<rparr>"

definition clearActiveE2eeSession :: "('key, 'rng) world \<Rightarrow> ('key, 'rng) world" where
  "clearActiveE2eeSession w = w\<lparr>active := None\<rparr>"

definition beginBootstrap :: "string \<Rightarrow> ('key, 'rng) world \<Rightarrow> ('key, 'rng) world" where
  "beginBootstrap userId w =
     (if activeBootstrapUserId w \<noteq> Some userId
      then clearActiveE2eeSession (w\<lparr>bootstrapGeneration := bootstrapGeneration w + 1, activeBootstrapUserId := Some userId\<rparr>)
      else w)"

definition resetE2eeBootstrap :: "('key, 'rng) world \<Rightarrow> ('key, 'rng) world" where
  "resetE2eeBootstrap w =
     clearActiveE2eeSession (w\<lparr>bootstrapGeneration := bootstrapGeneration w + 1, activeBootstrapUserId := None\<rparr>)"

definition isBootstrapCurrent :: "string \<Rightarrow> nat \<Rightarrow> ('key, 'rng) world \<Rightarrow> bool" where
  "isBootstrapCurrent userId generation w \<longleftrightarrow>
     activeBootstrapUserId w = Some userId \<and> bootstrapGeneration w = generation"

definition activateSession :: "string \<Rightarrow> string \<Rightarrow> 'key \<Rightarrow> 'key \<Rightarrow> ('key, 'rng) world \<Rightarrow> ('key, 'rng) world" where
  "activateSession userId deviceId ak bk =
     setActiveE2eeSession \<lparr>as_userId = userId, as_deviceId = deviceId, as_accountKey = ak, as_blindIndexKey = bk\<rparr>"

text \<open>An empty salt is no salt.\<close>

definition recoverable :: "'key stored_device \<Rightarrow> bool" where
  "recoverable r \<longleftrightarrow> sd_envelopeSalt r \<notin> {None, Some []}"

text \<open>Another user's sign-in and start, after which that user's session may be active.\<close>

fun interfere :: "'key interference \<Rightarrow> ('key, 'rng) world \<Rightarrow> ('key, 'rng) world" where
  "interfere SignOut w = resetE2eeBootstrap (w\<lparr>pendingAuthPassword := None\<rparr>)"
| "interfere WipeRecords w = w\<lparr>stored := (\<lambda>u. case stored w u of None \<Rightarrow> None | Some r \<Rightarrow> if recoverable r then None else Some r)\<rparr>"
| "interfere (OtherUser u password session) w =
     (let w' = beginBootstrap u (w\<lparr>pendingAuthPassword := password\<rparr>) in case session of
        None \<Rightarrow> w' | Some s \<Rightarrow> setActiveE2eeSession (s\<lparr>as_userId := u\<rparr>) w')"
| "interfere (OtherTab r) w = w\<lparr>stored := (stored w)(sd_userId r \<mapsto> r)\<rparr>"

definition await :: "('key, 'rng, bool) page" where
  "await w = (case schedule w of [] \<Rightarrow> (Inr True, w)
     | (others, fails) # rest \<Rightarrow> (Inr (\<not> fails), fold interfere others (w\<lparr>schedule := rest\<rparr>)))"

definition pause :: "('key, 'rng, unit) page" where
  "pause = bind await (\<lambda>_. pure ())"

text \<open>A call of Web Crypto, which is done or rejected at once and awaited.\<close>

definition awaited :: "('key, 'rng, 'a) page \<Rightarrow> ('key, 'rng, 'a) page" where
  "awaited m w = (case m w of (r, w') \<Rightarrow> (r, snd (pause w')))"

section \<open>The server and the storage\<close>

text \<open>\<open>e2eeApiService\<close>: a call that fails throws.\<close>

definition api :: "api_call \<Rightarrow> 'a \<Rightarrow> ('key, 'rng, 'a) page" where
  "api call answer = bind await (\<lambda>ok.
     bind (change (\<lambda>w. w\<lparr>api_log := (call, ok) # api_log w\<rparr>)) (\<lambda>_.
     if ok then pure answer else result (Inl (Thrown ''network''))))"

definition getBootstrap :: "server_env \<Rightarrow> ('key, 'rng, bootstrap_response) page" where
  "getBootstrap env = api (GetBootstrap (bootstrap_answer env)) (bootstrap_answer env)"

definition upsertDevice :: "server_env \<Rightarrow> device_upload \<Rightarrow> ('key, 'rng, remote_device) page" where
  "upsertDevice env request = api (PutDevice request) (device_answer env request)"

definition upsertPasswordEnvelope :: "password_envelope \<Rightarrow> ('key, 'rng, unit) page" where
  "upsertPasswordEnvelope request = api (PutEnvelope request) ()"

definition withStore :: "server_env \<Rightarrow> 'a \<Rightarrow> ('key, 'rng, 'a) page \<Rightarrow> ('key, 'rng, 'a) page" where
  "withStore env absent run =
     (if \<not> has_indexedDB env then pure absent
      else bind await (\<lambda>ok. if ok then run else result (Inl (Thrown ''IndexedDB request failed''))))"

definition getStoredE2eeDevice :: "server_env \<Rightarrow> string \<Rightarrow> ('key, 'rng, 'key stored_device option) page" where
  "getStoredE2eeDevice env userId = withStore env None (asks (\<lambda>w. stored w userId))"

definition putStoredE2eeDevice :: "server_env \<Rightarrow> 'key stored_device \<Rightarrow> ('key, 'rng, unit) page" where
  "putStoredE2eeDevice env r = withStore env () (change (\<lambda>w. w\<lparr>stored := (stored w)(sd_userId r \<mapsto> r)\<rparr>))"

definition deleteStoredE2eeDevice :: "server_env \<Rightarrow> string \<Rightarrow> ('key, 'rng, unit) page" where
  "deleteStoredE2eeDevice env userId = withStore env () (change (\<lambda>w. w\<lparr>stored := (stored w)(userId := None)\<rparr>))"

definition rememberStoredDeviceEnvelopeSalt ::
  "server_env \<Rightarrow> string \<Rightarrow> string \<Rightarrow> string option \<Rightarrow> ('key, 'rng, unit) page" where
  "rememberStoredDeviceEnvelopeSalt env userId deviceId envelopeSalt =
     bind (getStoredE2eeDevice env userId) (\<lambda>found. case found of
        Some r \<Rightarrow> if sd_deviceId r = deviceId \<and> sd_envelopeSalt r \<noteq> envelopeSalt
                  then putStoredE2eeDevice env (r\<lparr>sd_envelopeSalt := envelopeSalt\<rparr>) else pure ()
      | None \<Rightarrow> pure ())"

text \<open>\<open>users\<close> are the keys of the object store.\<close>

definition listRecoverableE2eeDevices :: "server_env \<Rightarrow> string list \<Rightarrow> ('key, 'rng, 'key stored_device list) page" where
  "listRecoverableE2eeDevices env users =
     withStore env [] (asks (\<lambda>w. filter recoverable (List.map_filter (stored w) users)))"

fun delete_all :: "server_env \<Rightarrow> 'key stored_device list \<Rightarrow> ('key, 'rng, unit) page" where
  "delete_all env [] = pure ()"
| "delete_all env (r # rs) = bind (deleteStoredE2eeDevice env (sd_userId r)) (\<lambda>_. delete_all env rs)"

definition deleteRecoverableE2eeDevices :: "server_env \<Rightarrow> string list \<Rightarrow> ('key, 'rng, unit) page" where
  "deleteRecoverableE2eeDevices env users = bind (listRecoverableE2eeDevices env users) (delete_all env)"

section \<open>The password at sign-in\<close>

definition storePendingAuthPassword :: "string \<Rightarrow> ('key, 'rng) world \<Rightarrow> ('key, 'rng) world" where
  "storePendingAuthPassword password w =
     (let trimmed = trim password in w\<lparr>pendingAuthPassword := if trimmed = [] then None else Some trimmed\<rparr>)"

definition clearPendingAuthPassword :: "('key, 'rng) world \<Rightarrow> ('key, 'rng) world" where
  "clearPendingAuthPassword w = w\<lparr>pendingAuthPassword := None\<rparr>"

section \<open>e2ee-bootstrap.ts\<close>

record bootstrap_attempt =
  activated :: bool
  at_bootstrap :: "bootstrap_response option"
  passwordUnlockFailed :: bool

definition createAttempt :: "bool \<Rightarrow> bootstrap_response option \<Rightarrow> bool \<Rightarrow> bootstrap_attempt" where
  "createAttempt done b unlockFailed = \<lparr>activated = done, at_bootstrap = b, passwordUnlockFailed = unlockFailed\<rparr>"

text \<open>\<open>if (!isBootstrapCurrent(userId, generation)) return createAttempt(false, bootstrap);\<close>\<close>

definition whileCurrent ::
  "string \<Rightarrow> nat \<Rightarrow> bootstrap_response \<Rightarrow> ('key, 'rng, bootstrap_attempt) page \<Rightarrow> ('key, 'rng, bootstrap_attempt) page" where
  "whileCurrent userId generation b m w =
     (if isBootstrapCurrent userId generation w then m w else (Inr (createAttempt False (Some b) False), w))"

definition activateFromRemote ::
  "('key, 'rng) web_crypto \<Rightarrow> server_env \<Rightarrow> string \<Rightarrow> nat \<Rightarrow> 'key stored_device \<Rightarrow> remote_device \<Rightarrow> bootstrap_response \<Rightarrow>
   ('key, 'rng, bootstrap_attempt) page" where
  "activateFromRemote crypto env userId generation localRecord remoteRecord b =
     whileCurrent userId generation b
      (bind pause (\<lambda>_.
       bind (result (unwrapAccountKey crypto (sd_wrappedAccountKey localRecord) (sd_privateKey localRecord))) (\<lambda>ak.
       bind (result (unwrapBlindIndexKey crypto (sd_wrappedSearchKey localRecord) (sd_privateKey localRecord))) (\<lambda>bk.
       whileCurrent userId generation b
        (bind (change (activateSession userId (rd_deviceId remoteRecord) ak bk)) (\<lambda>_.
         bind (catching
           (bind (asks pendingAuthPassword) (\<lambda>password.
            bind (awaited (random (resolveDeviceEnvelopeSalt crypto (sd_envelopeSalt localRecord) (passwordEnvelope b) password ak))) (\<lambda>salt.
            rememberStoredDeviceEnvelopeSalt env userId (sd_deviceId localRecord) salt)))
           (\<lambda>_. pure ())) (\<lambda>_.
         pure (createAttempt True (Some b) False))))))))"

definition uploadDevice :: "server_env \<Rightarrow> 'key stored_device \<Rightarrow> ('key, 'rng, remote_device) page" where
  "uploadDevice env r = upsertDevice env
     \<lparr>du_deviceId = sd_deviceId r, du_publicKey = sd_publicKey r,
      du_wrappedAccountKey = sd_wrappedAccountKey r, du_wrappedSearchKey = sd_wrappedSearchKey r\<rparr>"

definition createDeviceRecord ::
  "('key, 'rng) web_crypto \<Rightarrow> string \<Rightarrow> 'key \<Rightarrow> 'key \<Rightarrow> string option \<Rightarrow> ('key, 'rng, 'key stored_device) page" where
  "createDeviceRecord crypto userId ak bk envelopeSalt =
     bind (awaited (random (generateWrappingKeyPair crypto))) (\<lambda>(publicKey, privateKey).
     bind (awaited
       (bind (result (exportWrappingPublicKey crypto publicKey)) (\<lambda>exported.
        bind (random (wrapSymmetricKey crypto ak publicKey)) (\<lambda>wrappedAccountKey.
        bind (random (wrapSymmetricKey crypto bk publicKey)) (\<lambda>wrappedSearchKey.
        pure (exported, wrappedAccountKey, wrappedSearchKey)))))) (\<lambda>(exported, wrappedAccountKey, wrappedSearchKey).
     bind (random (\<lambda>g. apfst Inr (generateDeviceId crypto g))) (\<lambda>deviceId.
     pure \<lparr>sd_userId = userId, sd_deviceId = deviceId, sd_publicKey = exported, sd_privateKey = privateKey,
           sd_wrappedAccountKey = wrappedAccountKey, sd_wrappedSearchKey = wrappedSearchKey,
           sd_envelopeSalt = envelopeSalt\<rparr>)))"

definition provisionLocalDevice ::
  "('key, 'rng) web_crypto \<Rightarrow> server_env \<Rightarrow> string \<Rightarrow> 'key \<Rightarrow> 'key \<Rightarrow> string option \<Rightarrow> ('key, 'rng, remote_device) page" where
  "provisionLocalDevice crypto env userId ak bk envelopeSalt =
     bind (createDeviceRecord crypto userId ak bk envelopeSalt) (\<lambda>localRecord.
     bind (uploadDevice env localRecord) (\<lambda>remoteRecord.
     bind (putStoredE2eeDevice env localRecord) (\<lambda>_.
     pure remoteRecord)))"

definition first_envelope ::
  "('key, 'rng) web_crypto \<Rightarrow> server_env \<Rightarrow> 'key \<Rightarrow> 'key \<Rightarrow> ('key, 'rng, string option) page" where
  "first_envelope crypto env ak bk =
     bind (asks pendingAuthPassword) (\<lambda>signInPassword. case signInPassword of
        None \<Rightarrow> pure None
      | Some password \<Rightarrow>
          bind (awaited (random (createPasswordEnvelope crypto ak bk password 1))) (\<lambda>envelope.
          bind (upsertPasswordEnvelope envelope) (\<lambda>_.
          bind (change clearPendingAuthPassword) (\<lambda>_.
          pure (Some (pe_kdfSalt envelope))))))"

definition createInitialDevice ::
  "('key, 'rng) web_crypto \<Rightarrow> server_env \<Rightarrow> string \<Rightarrow> nat \<Rightarrow> bootstrap_response \<Rightarrow> ('key, 'rng, bootstrap_attempt) page" where
  "createInitialDevice crypto env userId generation b =
     bind (awaited
       (bind (random (generateAccountKey crypto)) (\<lambda>ak.
        bind (random (generateBlindIndexKey crypto)) (\<lambda>bk. pure (ak, bk))))) (\<lambda>(ak, bk).
     bind (first_envelope crypto env ak bk) (\<lambda>kdfSalt.
     bind (provisionLocalDevice crypto env userId ak bk kdfSalt) (\<lambda>remoteRecord.
     whileCurrent userId generation b
      (bind (change (activateSession userId (rd_deviceId remoteRecord) ak bk)) (\<lambda>_.
       pure (createAttempt True (Some (b\<lparr>devices := remoteRecord # devices b\<rparr>)) False))))))"

definition matching_remote :: "'key stored_device option \<Rightarrow> bootstrap_response \<Rightarrow> remote_device option" where
  "matching_remote localRecord b =
     (case localRecord of None \<Rightarrow> None | Some r \<Rightarrow> find (\<lambda>device. rd_deviceId device = sd_deviceId r) (devices b))"

definition activateFromPasswordEnvelope ::
  "('key, 'rng) web_crypto \<Rightarrow> server_env \<Rightarrow> string \<Rightarrow> nat \<Rightarrow> bootstrap_response \<Rightarrow> string \<Rightarrow>
   ('key, 'rng, bootstrap_attempt) page" where
  "activateFromPasswordEnvelope crypto env userId generation b password =
     (case passwordEnvelope b of
        None \<Rightarrow> pure (createAttempt False (Some b) False)
      | Some envelope \<Rightarrow>
          bind pause (\<lambda>_.
          case unwrapPasswordEnvelope crypto password envelope of
            Inl _ \<Rightarrow> bind (change clearActiveE2eeSession) (\<lambda>_. pure (createAttempt False (Some b) True))
          | Inr (ak, bk) \<Rightarrow>
              whileCurrent userId generation b
               (bind (getStoredE2eeDevice env userId) (\<lambda>localRecord.
                bind (case matching_remote localRecord b of
                        Some device \<Rightarrow> pure (rd_deviceId device)
                      | None \<Rightarrow> bind (provisionLocalDevice crypto env userId ak bk (Some (pe_kdfSalt envelope)))
                                  (\<lambda>r. pure (rd_deviceId r))) (\<lambda>deviceId.
                whileCurrent userId generation b
                 (bind (change (activateSession userId deviceId ak bk)) (\<lambda>_.
                  bind (change clearPendingAuthPassword) (\<lambda>_.
                  pure (createAttempt True (Some b) False)))))))))"

definition bootstrapUser ::
  "('key, 'rng) web_crypto \<Rightarrow> server_env \<Rightarrow> string \<Rightarrow> nat \<Rightarrow> ('key, 'rng, bootstrap_attempt) page" where
  "bootstrapUser crypto env userId generation =
     (if \<not> isWebCryptoAvailable env
      then bind (change clearActiveE2eeSession) (\<lambda>_. pure (createAttempt False None False))
      else bind (getBootstrap env) (\<lambda>b. bind (getStoredE2eeDevice env userId) (\<lambda>localRecord.
        whileCurrent userId generation b
         (case localRecord of
            Some local \<Rightarrow>
              (case matching_remote localRecord b of
                 Some remote \<Rightarrow> activateFromRemote crypto env userId generation local remote b
               | None \<Rightarrow> bind (uploadDevice env local) (\<lambda>remote.
                   whileCurrent userId generation b
                     (activateFromRemote crypto env userId generation local remote (b\<lparr>devices := remote # devices b\<rparr>))))
          | None \<Rightarrow>
              if passwordEnvelope b \<noteq> None then
                bind (asks pendingAuthPassword) (\<lambda>authPassword. case authPassword of
                   Some password \<Rightarrow> activateFromPasswordEnvelope crypto env userId generation b password
                 | None \<Rightarrow> bind (change clearActiveE2eeSession) (\<lambda>_. pure (createAttempt False (Some b) False)))
              else if devices b = [] then createInitialDevice crypto env userId generation b
              else bind (change clearActiveE2eeSession) (\<lambda>_. pure (createAttempt False (Some b) False))))))"

definition storePasswordEnvelopeForActiveSession ::
  "('key, 'rng) web_crypto \<Rightarrow> server_env \<Rightarrow> string \<Rightarrow> string \<Rightarrow> ('key, 'rng, bool) page" where
  "storePasswordEnvelopeForActiveSession crypto env userId password =
     bind (asks active) (\<lambda>session. case session of
        None \<Rightarrow> pure False
      | Some s \<Rightarrow>
          if as_userId s \<noteq> userId then pure False
          else bind (awaited (random (createPasswordEnvelope crypto (as_accountKey s) (as_blindIndexKey s) password 1))) (\<lambda>envelope.
            bind (upsertPasswordEnvelope envelope) (\<lambda>_.
            bind (rememberStoredDeviceEnvelopeSalt env userId (as_deviceId s) (Some (pe_kdfSalt envelope))) (\<lambda>_.
            bind (change clearPendingAuthPassword) (\<lambda>_.
            pure True)))))"

definition unlockE2eeWithPassword ::
  "('key, 'rng) web_crypto \<Rightarrow> server_env \<Rightarrow> string \<Rightarrow> string \<Rightarrow> bootstrap_response \<Rightarrow> ('key, 'rng, bootstrap_attempt) page" where
  "unlockE2eeWithPassword crypto env userId password b =
     (if userId = [] \<or> \<not> isWebCryptoAvailable env then pure (createAttempt False None False)
      else bind (change (beginBootstrap userId)) (\<lambda>_.
        bind (asks bootstrapGeneration) (\<lambda>generation.
        activateFromPasswordEnvelope crypto env userId generation b password)))"

text \<open>A second call while the first one runs gets the promise of the first; this is the call that runs.\<close>

definition ensureE2eeBootstrap ::
  "('key, 'rng) web_crypto \<Rightarrow> server_env \<Rightarrow> string \<Rightarrow> ('key, 'rng, bootstrap_attempt) page" where
  "ensureE2eeBootstrap crypto env userId =
     (if userId = [] then bind (change clearActiveE2eeSession) (\<lambda>_. pure (createAttempt False None False))
      else bind (change (beginBootstrap userId)) (\<lambda>_.
        bind (asks bootstrapGeneration) (\<lambda>generation.
        catching (bootstrapUser crypto env userId generation) (\<lambda>_.
          bind (change (\<lambda>w. if isBootstrapCurrent userId generation w then clearActiveE2eeSession w else w)) (\<lambda>_.
          pure (createAttempt False None False))))))"

definition unlockWithSignInPassword ::
  "('key, 'rng) web_crypto \<Rightarrow> server_env \<Rightarrow> string \<Rightarrow> ('key, 'rng, e2ee_lock option) page" where
  "unlockWithSignInPassword crypto env userId =
     bind (asks pendingAuthPassword) (\<lambda>pending. case pending of
        None \<Rightarrow> pure None
      | Some password \<Rightarrow>
          if userId = [] then pure None
          else bind (ensureE2eeBootstrap crypto env userId) (\<lambda>attempt. case at_bootstrap attempt of
             None \<Rightarrow> pure None
           | Some b \<Rightarrow>
               if activated attempt then
                 bind (if passwordEnvelope b = None
                       then catching (storePasswordEnvelopeForActiveSession crypto env userId password) (\<lambda>_. pure False)
                       else pure False) (\<lambda>_. pure None)
               else if passwordEnvelope b \<noteq> None \<and> \<not> passwordUnlockFailed attempt then
                 bind (unlockE2eeWithPassword crypto env userId password b) (\<lambda>unlocked.
                   if \<not> activated unlocked \<and> \<not> passwordUnlockFailed unlocked then pure None
                   else pure (lockWithoutDeviceKeys True (0 < length (devices b)) SignInPassword (activated unlocked)))
               else pure (lockWithoutDeviceKeys (passwordEnvelope b \<noteq> None) (0 < length (devices b)) SignInPassword False)))"

section \<open>Changing the password\<close>




section \<open>What holds after a run\<close>










section \<open>An account keeps its key\<close>

definition visible_record :: "server_env \<Rightarrow> ('key, 'rng) world \<Rightarrow> string \<Rightarrow> 'key stored_device option" where
  "visible_record env w userId = (if has_indexedDB env then stored w userId else None)"

definition record_key :: "('key, 'rng) web_crypto \<Rightarrow> 'key stored_device \<Rightarrow> e2ee_error + 'key" where
  "record_key c r = unwrapAccountKey c (sd_wrappedAccountKey r) (sd_privateKey r)"




definition session_has_key :: "string \<Rightarrow> 'key \<Rightarrow> ('key, 'rng) world \<Rightarrow> bool" where
  "session_has_key userId K w \<longleftrightarrow> (\<forall>s. active w = Some s \<longrightarrow> as_userId s = userId \<longrightarrow> as_accountKey s = K)"







lemma interfere_fields [simp]:
  "schedule (interfere i w) = schedule w" "api_log (interfere i w) = api_log w" "rng_state (interfere i w) = rng_state w"
  by (cases i; auto simp: resetE2eeBootstrap_def clearActiveE2eeSession_def beginBootstrap_def setActiveE2eeSession_def
      Let_def split: option.splits)+



































text \<open>A server that denies the account exists does not make a browser with a record mint a key.\<close>

definition denying_server :: server_env where
  "denying_server = \<lparr>bootstrap_answer = \<lparr>devices = [], passwordEnvelope = None\<rparr>,
     device_answer = (\<lambda>d. \<lparr>rd_deviceId = du_deviceId d, rd_wrappedAccountKey = [], rd_wrappedSearchKey = []\<rparr>),
     isWebCryptoAvailable = True, has_indexedDB = True\<rparr>"


definition demo_world :: "byte list stored_device option \<Rightarrow> string option \<Rightarrow> (byte list, nat) world" where
  "demo_world r password = \<lparr>stored = (\<lambda>u. if u = ''jo'' then r else None), active = None, pendingAuthPassword = password,
     bootstrapGeneration = 0, activeBootstrapUserId = None, rng_state = 0, schedule = [], api_log = []\<rparr>"



section \<open>The envelope comes before the first device\<close>

definition no_device_sent :: "('key, 'rng) world \<Rightarrow> bool" where
  "no_device_sent w \<longleftrightarrow> (\<forall>d ok. (PutDevice d, ok) \<notin> set (api_log w))"

text \<open>The key \<open>K\<close> of this browser is in the envelope \<open>e\<close>, which the server has accepted.\<close>

definition key_in_envelope :: "('key, 'rng) web_crypto \<Rightarrow> string \<Rightarrow> password_envelope \<Rightarrow> 'key \<Rightarrow> ('key, 'rng) world \<Rightarrow> bool" where
  "key_in_envelope c u e K w \<longleftrightarrow> (PutEnvelope e, True) \<in> set (api_log w) \<and>
     (\<forall>r. stored w u = Some r \<longrightarrow> record_key c r = Inr K \<and> sd_envelopeSalt r = Some (pe_kdfSalt e)) \<and>
     session_has_key u K w"

text \<open>What the others may do during the first start: nobody else acts for this user.\<close>

fun unrelated :: "string \<Rightarrow> 'key interference \<Rightarrow> bool" where
  "unrelated u SignOut = True"
| "unrelated u WipeRecords = True"
| "unrelated u (OtherUser v password s) = (v \<noteq> u)"
| "unrelated u (OtherTab r) = (sd_userId r \<noteq> u)"

definition unrelated_schedule :: "string \<Rightarrow> ('key, 'rng) world \<Rightarrow> bool" where
  "unrelated_schedule u w \<longleftrightarrow> list_all (\<lambda>(others, _). list_all (unrelated u) others) (schedule w)"

definition no_session :: "string \<Rightarrow> ('key, 'rng) world \<Rightarrow> bool" where
  "no_session u w \<longleftrightarrow> (\<forall>s. active w = Some s \<longrightarrow> as_userId s \<noteq> u)"

text \<open>
  Before the first device: the start of generation \<open>g\<close> still runs with the password \<open>pw\<close>, or a
  sign-out or another user's start has ended it.
\<close>

definition unsent :: "string \<Rightarrow> string \<Rightarrow> nat \<Rightarrow> ('key, 'rng) world \<Rightarrow> bool" where
  "unsent u pw g w \<longleftrightarrow> no_device_sent w \<and> stored w u = None \<and> no_session u w \<and> unrelated_schedule u w \<and>
     (pendingAuthPassword w = Some pw \<and> activeBootstrapUserId w = Some u \<and> bootstrapGeneration w = g \<or> g < bootstrapGeneration w)"

definition sealed :: "('key, 'rng) web_crypto \<Rightarrow> string \<Rightarrow> password_envelope \<Rightarrow> 'key \<Rightarrow> ('key, 'rng) world \<Rightarrow> bool" where
  "sealed c u e K w \<longleftrightarrow> key_in_envelope c u e K w \<and> unrelated_schedule u w"

text \<open>
  The start was ended before its envelope was made: then no session of the user is active, and a record
  has no salt, so that no sign-out wipes it, or the salt of an accepted envelope that holds its key.
\<close>

definition vouching_salt :: "('key, 'rng) web_crypto \<Rightarrow> string option \<Rightarrow> 'key \<Rightarrow> ('key, 'rng) world \<Rightarrow> bool" where
  "vouching_salt c salt K w \<longleftrightarrow> salt = None \<or>
     (\<exists>e q bk. (PutEnvelope e, True) \<in> set (api_log w) \<and> salt = Some (pe_kdfSalt e) \<and> unwrapPasswordEnvelope c q e = Inr (K, bk))"

definition ended :: "('key, 'rng) web_crypto \<Rightarrow> string \<Rightarrow> nat \<Rightarrow> 'key \<Rightarrow> ('key, 'rng) world \<Rightarrow> bool" where
  "ended c u g K w \<longleftrightarrow> g < bootstrapGeneration w \<and> no_session u w \<and>
     (\<forall>r. stored w u = Some r \<longrightarrow> record_key c r = Inr K \<and> vouching_salt c (sd_envelopeSalt r) K w)"

definition adrift :: "('key, 'rng) web_crypto \<Rightarrow> string \<Rightarrow> nat \<Rightarrow> string option \<Rightarrow> 'key \<Rightarrow> ('key, 'rng) world \<Rightarrow> bool" where
  "adrift c u g salt K w \<longleftrightarrow> ended c u g K w \<and> vouching_salt c salt K w \<and> unrelated_schedule u w"


lemmas first_start_defs = unsent_def sealed_def adrift_def ended_def key_in_envelope_def vouching_salt_def no_device_sent_def
  no_session_def unrelated_schedule_def session_has_key_def










lemma sealed_simps [simp]:
  "sealed c u e K w \<Longrightarrow> sealed c u e K (w\<lparr>rng_state := g\<rparr>)"
  "sealed c u e K w \<Longrightarrow> sealed c u e K (clearPendingAuthPassword w)"
  "sealed c u e K w \<Longrightarrow> sealed c u e K (w\<lparr>api_log := x # api_log w\<rparr>)"
  "sealed c u e K w \<Longrightarrow> sealed c u e K (activateSession u d K bk w)"
  by (auto simp: first_start_defs clearPendingAuthPassword_def activateSession_def setActiveE2eeSession_def)

lemma vouching_salt_log: "vouching_salt c salt K w \<Longrightarrow> vouching_salt c salt K (w\<lparr>api_log := y # api_log w\<rparr>)"
  unfolding vouching_salt_def by simp blast

lemma adrift_simps [simp]:
  "adrift c u g salt K w \<Longrightarrow> adrift c u g salt K (w\<lparr>rng_state := x\<rparr>)"
  "adrift c u g salt K w \<Longrightarrow> adrift c u g salt K (clearPendingAuthPassword w)"
  by (auto simp: first_start_defs clearPendingAuthPassword_def)

lemma adrift_log [simp]: "adrift c u g salt K w \<Longrightarrow> adrift c u g salt K (w\<lparr>api_log := y # api_log w\<rparr>)"
  using vouching_salt_log [of c _ K w y] by (simp add: adrift_def ended_def no_session_def unrelated_schedule_def)



lemma unsent_rng [simp]: "unsent u pw g w \<Longrightarrow> unsent u pw g (w\<lparr>rng_state := x\<rparr>)"
  by (simp add: first_start_defs)










text \<open>A sign-out while the first keys are generated: the device is registered and no envelope holds its keys.\<close>

lemma interrupted_first_start:
  "\<exists>w' d. ensureE2eeBootstrap demo_crypto denying_server ''jo''
       ((demo_world None (Some ''hunter2''))\<lparr>schedule := [([], False), ([], False), ([SignOut], False)]\<rparr>) = (Inr w', d) \<and>
     (\<exists>u. (PutDevice u, True) \<in> set (api_log d)) \<and> (\<forall>e ok. (PutEnvelope e, ok) \<notin> set (api_log d))"
  by (simp add: ensureE2eeBootstrap_def bootstrapUser_def demo_world_def denying_server_def bind_def change_def asks_def pure_def
      catching_def result_def beginBootstrap_def clearActiveE2eeSession_def getBootstrap_def api_def await_def getStoredE2eeDevice_def
      withStore_def whileCurrent_def isBootstrapCurrent_def createInitialDevice_def awaited_def pause_def random_def resetE2eeBootstrap_def
      first_envelope_def provisionLocalDevice_def createDeviceRecord_def uploadDevice_def upsertDevice_def putStoredE2eeDevice_def
      generateAccountKey_def generateBlindIndexKey_def generateWrappingKeyPair_def exportWrappingPublicKey_def wrapSymmetricKey_def
      generateDeviceId_def demo_crypto_def createAttempt_def)

section \<open>The next browser signs in\<close>

text \<open>Web Crypto makes key pairs, exports public keys and wraps.\<close>

definition crypto_total :: "('key, 'rng) web_crypto \<Rightarrow> bool" where
  "crypto_total c \<longleftrightarrow> (\<forall>g. fst (wc_generate_pair c g) \<noteq> None) \<and> (\<forall>k. wc_export_spki c k \<noteq> None) \<and>
     (\<forall>k pub g. fst (wc_wrap c k pub g) \<noteq> None)"

lemma quiet_await: "schedule w = [] \<Longrightarrow> await w = (Inr True, w)"
  by (simp add: await_def)

lemma quiet_pause: "schedule w = [] \<Longrightarrow> pause w = (Inr (), w)"
  by (simp add: pause_def bind_def quiet_await pure_def)

lemma quiet_awaited: "schedule (snd (m w)) = [] \<Longrightarrow> awaited m w = m w"
  by (cases "m w") (simp add: awaited_def quiet_pause)

lemma quiet_api: "schedule w = [] \<Longrightarrow> api call answer w = (Inr answer, w\<lparr>api_log := (call, True) # api_log w\<rparr>)"
  by (simp add: api_def bind_def quiet_await change_def pure_def)

lemma quiet_get: "schedule w = [] \<Longrightarrow> getStoredE2eeDevice env u w = (Inr (visible_record env w u), w)"
  by (simp add: getStoredE2eeDevice_def withStore_def bind_def quiet_await asks_def pure_def visible_record_def)

lemma quiet_put:
  "schedule w = [] \<Longrightarrow> putStoredE2eeDevice env r w =
     (Inr (), if has_indexedDB env then w\<lparr>stored := (stored w)(sd_userId r \<mapsto> r)\<rparr> else w)"
  by (simp add: putStoredE2eeDevice_def withStore_def bind_def quiet_await change_def pure_def)

lemma quiet_record:
  assumes "crypto_total c" and quiet: "schedule w = []"
  shows "\<exists>r g. createDeviceRecord c u ak bk salt w = (Inr r, w\<lparr>rng_state := g\<rparr>)"
proof -
  have pair: "\<exists>pub priv g'. generateWrappingKeyPair c g = (Inr (pub, priv), g')" for g
    using assms by (cases "wc_generate_pair c g") (fastforce simp: crypto_total_def generateWrappingKeyPair_def dest: spec [of _ g])
  have spki: "\<exists>s. exportWrappingPublicKey c k = Inr s" for k
    using assms by (auto simp: crypto_total_def exportWrappingPublicKey_def)
  have wrap: "\<exists>x g'. wrapSymmetricKey c k pub g = (Inr x, g')" for k pub g
  proof -
    obtain x g' where "wc_wrap c k pub g = (Some x, g')"
      using assms unfolding crypto_total_def by (metis option.exhaust surjective_pairing)
    then show ?thesis by (simp add: wrapSymmetricKey_def)
  qed
  obtain pub priv g1 where 1: "generateWrappingKeyPair c (rng_state w) = (Inr (pub, priv), g1)" using pair by blast
  obtain s where 2: "exportWrappingPublicKey c pub = Inr s" using spki by blast
  obtain x g2 where 3: "wrapSymmetricKey c ak pub g1 = (Inr x, g2)" using wrap by blast
  obtain y g3 where 4: "wrapSymmetricKey c bk pub g2 = (Inr y, g3)" using wrap by blast
  show ?thesis
    by (cases "generateDeviceId c g3")
      (auto simp: createDeviceRecord_def bind_def random_def result_def pure_def quiet_awaited quiet 1 2 3 4)
qed

lemma quiet_provision:
  assumes "crypto_total c" "schedule w = []"
  shows "\<exists>d w'. provisionLocalDevice c env u ak bk salt w = (Inr d, w') \<and> activeBootstrapUserId w' = activeBootstrapUserId w \<and>
    bootstrapGeneration w' = bootstrapGeneration w"
proof -
  obtain r g where r: "createDeviceRecord c u ak bk salt w = (Inr r, w\<lparr>rng_state := g\<rparr>)" using quiet_record [OF assms] by blast
  with assms(2) show ?thesis
    by (simp add: provisionLocalDevice_def bind_def uploadDevice_def upsertDevice_def quiet_api quiet_put pure_def)
qed

text \<open>C6: A sign-in opens the account in a new browser: when the password of the sign-in opens the
  envelope of the server and nothing fails, the sign-in ends without a lock and with an active
  session of the user that holds exactly the keys of the envelope.\<close>

theorem sign_in_opens_the_account:
  assumes total: "crypto_total c" and quiet: "schedule w = []"
    and user: "u \<noteq> []" "stored w u = None" "isWebCryptoAvailable env"
    and envelope: "passwordEnvelope (bootstrap_answer env) = Some e" "unwrapPasswordEnvelope c pw e = Inr (K, bk)"
    and password: "pendingAuthPassword w = Some pw"
  shows "\<exists>w' d. unlockWithSignInPassword c env u w = (Inr None, w') \<and>
    active w' = Some \<lparr>as_userId = u, as_deviceId = d, as_accountKey = K, as_blindIndexKey = bk\<rparr>"
proof -
  let ?b = "bootstrap_answer env"
  let ?w = "(beginBootstrap u w)\<lparr>api_log := (GetBootstrap ?b, True) # api_log w\<rparr>"
  let ?g = "bootstrapGeneration ?w"
  have w: "schedule ?w = []" "visible_record env ?w u = None" "pendingAuthPassword ?w = Some pw" "isBootstrapCurrent u ?g ?w"
    "api_log (beginBootstrap u w) = api_log w" "schedule (beginBootstrap u w) = []"
    using quiet user password
    by (auto simp: beginBootstrap_def clearActiveE2eeSession_def isBootstrapCurrent_def visible_record_def)
  obtain d w1 where provisioned: "provisionLocalDevice c env u K bk (Some (pe_kdfSalt e)) ?w = (Inr d, w1)"
    and w1: "activeBootstrapUserId w1 = activeBootstrapUserId ?w" "bootstrapGeneration w1 = bootstrapGeneration ?w"
    using quiet_provision [OF total w(1)] by blast
  have current: "isBootstrapCurrent u ?g w1" using w(4) w1 by (simp add: isBootstrapCurrent_def)
  let ?final = "clearPendingAuthPassword (activateSession u (rd_deviceId d) K bk w1)"
  have opened: "activateFromPasswordEnvelope c env u ?g ?b pw ?w = (Inr (createAttempt True (Some ?b) False), ?final)"
    using w(1,2,4) provisioned current
    by (simp add: activateFromPasswordEnvelope_def envelope bind_def quiet_pause quiet_get whileCurrent_def matching_remote_def
        change_def pure_def)
  have boot: "bootstrapUser c env u ?g (beginBootstrap u w) = (Inr (createAttempt True (Some ?b) False), ?final)"
    using w user(3) opened
    by (simp add: bootstrapUser_def bind_def getBootstrap_def quiet_api quiet_get whileCurrent_def asks_def envelope(1))
  have ensured: "ensureE2eeBootstrap c env u w = (Inr (createAttempt True (Some ?b) False), ?final)"
    using user(1) boot by (simp add: ensureE2eeBootstrap_def bind_def change_def asks_def catching_def)
  have "unlockWithSignInPassword c env u w = (Inr None, ?final)"
    using user(1) password ensured
    by (simp add: unlockWithSignInPassword_def bind_def asks_def createAttempt_def envelope(1) pure_def)
  moreover have "active ?final = Some \<lparr>as_userId = u, as_deviceId = rd_deviceId d, as_accountKey = K, as_blindIndexKey = bk\<rparr>"
    by (simp add: clearPendingAuthPassword_def activateSession_def setActiveE2eeSession_def)
  ultimately show ?thesis by blast
qed

lemma demo_crypto_total: "crypto_total demo_crypto"
  by (simp add: crypto_total_def demo_crypto_def)

theorem sign_in_opens_the_account_witness:
  "\<exists>e g w' d. createPasswordEnvelope demo_crypto [1] [2] ''hunter2'' 1 0 = (Inr e, g) \<and>
     unlockWithSignInPassword demo_crypto (denying_server\<lparr>bootstrap_answer := \<lparr>devices = [], passwordEnvelope = Some e\<rparr>\<rparr>)
       ''jo'' (demo_world None (Some ''hunter2'')) = (Inr None, w') \<and>
     active w' = Some \<lparr>as_userId = ''jo'', as_deviceId = d, as_accountKey = [1], as_blindIndexKey = [2]\<rparr>"
proof -
  obtain e g where e: "createPasswordEnvelope demo_crypto [1] [2] ''hunter2'' 1 0 = (Inr e, g)" using demo_envelope by blast
  have opens: "unwrapPasswordEnvelope demo_crypto ''hunter2'' e = Inr ([1], [2])"
    by (rule created_envelope_opens [OF demo_crypto_laws demo_exported demo_exported e])
  have "schedule (demo_world None (Some ''hunter2'')) = []" "stored (demo_world None (Some ''hunter2'')) ''jo'' = None"
    "pendingAuthPassword (demo_world None (Some ''hunter2'')) = Some ''hunter2''"
    by (simp_all add: demo_world_def)
  from sign_in_opens_the_account [OF demo_crypto_total this(1) _ this(2) _ _ opens this(3),
      of "denying_server\<lparr>bootstrap_answer := \<lparr>devices = [], passwordEnvelope = Some e\<rparr>\<rparr>"] e
  show ?thesis by (simp add: denying_server_def)
qed

section \<open>Passwords with blanks around them\<close>

text \<open>C34: A password with blanks around it locks the account out of every new browser. The password
  change wraps the keys with the password as it was typed and the sign-in sends it so, but the page
  unlocks with the trimmed password: when that derives another key the sign-in the server has just
  accepted ends in the lock of an account that cannot be opened.\<close>

theorem padded_password_cannot_open:
  assumes laws: "crypto_laws c" "crypto_authentic c"
    and changed: "createPasswordEnvelope c ak bk pw 1 rng = (Inr e, rng')"
    and padded: "trim pw \<noteq> []" "derivePasswordWrappingKey c (trim pw) (pe_kdfSalt e) DEFAULT_PASSWORD_KDF_ITERATIONS = Inr wk"
      "derivePasswordWrappingKey c pw (pe_kdfSalt e) DEFAULT_PASSWORD_KDF_ITERATIONS \<noteq> Inr wk"
    and quiet: "schedule w = []"
    and user: "u \<noteq> []" "stored w u = None" "isWebCryptoAvailable env" "passwordEnvelope (bootstrap_answer env) = Some e"
  shows "\<exists>w'. unlockWithSignInPassword c env u (storePendingAuthPassword pw w) = (Inr (Some CannotOpen), w') \<and> active w' = None"
proof -
  let ?b = "bootstrap_answer env"
  let ?v = "storePendingAuthPassword pw w"
  let ?w = "(beginBootstrap u ?v)\<lparr>api_log := (GetBootstrap ?b, True) # api_log w\<rparr>"
  let ?g = "bootstrapGeneration ?w"
  have w: "schedule ?w = []" "visible_record env ?w u = None" "pendingAuthPassword ?w = Some (trim pw)" "isBootstrapCurrent u ?g ?w"
    "api_log (beginBootstrap u ?v) = api_log w" "schedule (beginBootstrap u ?v) = []" "pendingAuthPassword ?v = Some (trim pw)"
    using quiet user padded(1)
    by (auto simp: beginBootstrap_def clearActiveE2eeSession_def isBootstrapCurrent_def visible_record_def storePendingAuthPassword_def Let_def)
  have rejected: "unwrapPasswordEnvelope c (trim pw) e = Inl CryptoRejected"
    by (rule envelope_rejects_other_key [OF laws changed padded(2,3)])
  let ?final = "clearActiveE2eeSession ?w"
  have failed: "activateFromPasswordEnvelope c env u ?g ?b (trim pw) ?w = (Inr (createAttempt False (Some ?b) True), ?final)"
    using w(1) by (simp add: activateFromPasswordEnvelope_def user(4) bind_def quiet_pause change_def pure_def rejected)
  have "bootstrapUser c env u ?g (beginBootstrap u ?v) = (Inr (createAttempt False (Some ?b) True), ?final)"
    using w user(3) failed
    by (simp add: bootstrapUser_def bind_def getBootstrap_def quiet_api quiet_get whileCurrent_def asks_def user(4))
  then have "ensureE2eeBootstrap c env u ?v = (Inr (createAttempt False (Some ?b) True), ?final)"
    using user(1) by (simp add: ensureE2eeBootstrap_def bind_def change_def asks_def catching_def)
  then have "unlockWithSignInPassword c env u ?v = (Inr (Some CannotOpen), ?final)"
    using user(1) w(7)
    by (simp add: unlockWithSignInPassword_def bind_def asks_def createAttempt_def user(4) pure_def lockWithoutDeviceKeys_def)
  then show ?thesis by (simp add: clearActiveE2eeSession_def)
qed

theorem padded_password_cannot_open_witness:
  "\<exists>e g w'. createPasswordEnvelope demo_crypto [1] [2] ''hunter2 '' 1 0 = (Inr e, g) \<and>
     unlockWithSignInPassword demo_crypto (denying_server\<lparr>bootstrap_answer := \<lparr>devices = [], passwordEnvelope = Some e\<rparr>\<rparr>)
       ''jo'' (storePendingAuthPassword ''hunter2 '' (demo_world None None)) = (Inr (Some CannotOpen), w')"
proof -
  obtain e g where e: "createPasswordEnvelope demo_crypto [1] [2] ''hunter2 '' 1 0 = (Inr e, g)" using demo_envelope by blast
  have opens: "unwrapPasswordEnvelope demo_crypto ''hunter2 '' e = Inr ([1], [2])"
    by (rule created_envelope_opens [OF demo_crypto_laws demo_exported demo_exported e])
  then obtain salt where salt: "base64UrlToArrayBuffer (pe_kdfSalt e) = Some salt"
    by (auto simp: unwrapPasswordEnvelope_def assertEnvelopeKdfParameters_def Let_def split: if_splits)
  have wk: "derivePasswordWrappingKey demo_crypto pw (pe_kdfSalt e) DEFAULT_PASSWORD_KDF_ITERATIONS =
      Inr (frame salt @ frame (text_encode (nat_str DEFAULT_PASSWORD_KDF_ITERATIONS)) @ text_encode pw)" for pw
    by (simp add: derivePasswordWrappingKey_def demo_crypto_def salt)
  have trimmed: "trim ''hunter2 '' = ''hunter2''" by code_simp
  have differ: "text_encode ''hunter2 '' \<noteq> text_encode ''hunter2''" by code_simp
  from padded_password_cannot_open [OF demo_crypto_laws demo_crypto_authentic e, of _ "demo_world None None" "''jo''"
      "denying_server\<lparr>bootstrap_answer := \<lparr>devices = [], passwordEnvelope = Some e\<rparr>\<rparr>"] e differ
  show ?thesis by (simp add: wk trimmed demo_world_def denying_server_def) blast
qed

end
