(* ===== verification/ContentProvider.thy ===== *)
theory ContentProvider
  imports E2eePayloads
begin

text \<open>
  The E2EE providers that the calendar client calls before a write and after a read: the interface
  of \<open>packages/e2ee/src/provider.ts\<close>, its implementation without a session, the web one
  (\<open>apps/web/lib/web-e2ee-provider.ts\<close> over \<open>e2ee-payloads.ts\<close>) and the native one
  (\<open>packages/native-core/src/lib/native-e2ee-provider.ts\<close>). The session a provider works with is the
  active one, or the one a pending bootstrap leaves behind.
\<close>

section \<open>Sessions\<close>

record 'key e2ee_session =
  accountKey :: 'key
  blindIndexKey :: 'key

text \<open>A bootstrap that is still running: how it settles, and the session that is active afterwards.\<close>

record 'key pending_bootstrap =
  rejection :: "e2ee_error option"
  session_after :: "'key e2ee_session option"

type_synonym 'key session_state = "'key e2ee_session option \<times> 'key pending_bootstrap option"

definition getEncryptionSession :: "'key session_state \<Rightarrow> 'key e2ee_session option" where
  "getEncryptionSession = (\<lambda>(active, pending).
     case active of Some s \<Rightarrow> Some s
     | None \<Rightarrow> (case pending of None \<Rightarrow> None | Some b \<Rightarrow> session_after b))"

text \<open>The native provider does not catch a rejected bootstrap.\<close>

definition waitForSession :: "'key session_state \<Rightarrow> e2ee_error + 'key e2ee_session option" where
  "waitForSession = (\<lambda>(active, pending).
     case (active, pending) of
       (None, Some b) \<Rightarrow> (case rejection b of Some e \<Rightarrow> Inl e | None \<Rightarrow> Inr (session_after b))
     | _ \<Rightarrow> Inr active)"

section \<open>Showing an encrypted event\<close>

definition isEncryptedEvent :: "js_object \<Rightarrow> bool" where
  "isEncryptedEvent event \<longleftrightarrow>
     \<not> (prop_of event ''encryptionState'' \<noteq> JStr ''encrypted'' \<or> \<not> truthy (prop_of event ''encryptedContent'') \<or>
        str_of (prop_of event ''encryptedContent'') = None)"

text \<open>
  The body of the \<open>try\<close>: the stored text is parsed without a check of its shape, so a missing
  \<open>iv\<close> or \<open>ciphertext\<close> throws when it is decoded, and so do a \<open>null\<close> content and a title that is
  no string when the content is merged.
\<close>

definition stored_payload :: "jsval \<Rightarrow> e2ee_error + encrypted_payload" where
  "stored_payload v =
     (case (str_of (js_get v ''iv''), str_of (js_get v ''ciphertext'')) of
        (Some iv, Some ciphertext) \<Rightarrow> Inr \<lparr>ep_version = js_get v ''version'', ep_iv = iv, ep_ciphertext = ciphertext\<rparr>
      | _ \<Rightarrow> Inl (Thrown ''TypeError''))"

fun content_props :: "jsval \<Rightarrow> e2ee_error + js_object" where
  "content_props JNull = Inl (Thrown ''TypeError'')"
| "content_props (JObj ps) =
     (case prop_of ps ''title'' of
        JStr _ \<Rightarrow> Inr ps | JUndefined \<Rightarrow> Inr ps | JNull \<Rightarrow> Inr ps | _ \<Rightarrow> Inl (Thrown ''TypeError''))"
| "content_props _ = Inr []"

definition decrypt_event :: "('key, 'rng) web_crypto \<Rightarrow> 'key \<Rightarrow> js_object \<Rightarrow> e2ee_error + js_object" where
  "decrypt_event crypto key event =
     and_then (attempt JsonSyntax (json_read (the (str_of (prop_of event ''encryptedContent''))))) (\<lambda>v.
     and_then (stored_payload v) (\<lambda>payload.
     and_then (decryptJsonPayload crypto key payload (Some ''event-content:v1'')) (\<lambda>decrypted.
     and_then (content_props decrypted) (\<lambda>content.
     Inr (withDecryptedEventContent event content)))))"

definition shown_event ::
  "('key, 'rng) web_crypto \<Rightarrow> 'key e2ee_session option \<Rightarrow> js_object \<Rightarrow> js_object" where
  "shown_event crypto session event =
     (case session of
        None \<Rightarrow> hydrateEncryptedEventWithoutSession event
      | Some s \<Rightarrow> (case decrypt_event crypto (accountKey s) event of
            Inl _ \<Rightarrow> hydrateEncryptedEventWithoutSession event | Inr shown \<Rightarrow> shown))"

section \<open>The web provider\<close>

definition web_attachEvent ::
  "('key, 'rng) web_crypto \<Rightarrow> 'key session_state \<Rightarrow> js_object \<Rightarrow> 'rng \<Rightarrow> (e2ee_error + js_object) \<times> 'rng" where
  "web_attachEvent crypto st request rng =
     (case getEncryptionSession st of
        None \<Rightarrow> (withoutPlaintextEventContent request, rng)
      | Some s \<Rightarrow> encryptEventContentRequest crypto (accountKey s) (blindIndexKey s) request CONTENT_ENCRYPTION_KEY_VERSION rng)"

definition web_attachName ::
  "('key, 'rng) web_crypto \<Rightarrow> 'key session_state \<Rightarrow> name_kind \<Rightarrow> js_object \<Rightarrow> 'rng \<Rightarrow> (e2ee_error + js_object) \<times> 'rng" where
  "web_attachName crypto st kind request rng =
     (case getEncryptionSession st of
        None \<Rightarrow> (withoutPlaintextName request, rng)
      | Some s \<Rightarrow> encryptNameRequest crypto (accountKey s) (blindIndexKey s) kind request CONTENT_ENCRYPTION_KEY_VERSION rng)"

definition web_hydrateName ::
  "('key, 'rng) web_crypto \<Rightarrow> 'key session_state \<Rightarrow> name_kind \<Rightarrow> js_object \<Rightarrow> js_object" where
  "web_hydrateName crypto st kind r =
     (let session = (if truthy (prop_of r ''encryptedName'') then getEncryptionSession st else None)
      in hydrateEncryptedName (map_option (\<lambda>s. (crypto, accountKey s)) session) kind r)"

definition web_hasActiveSession :: "'key session_state \<Rightarrow> bool" where
  "web_hasActiveSession st \<longleftrightarrow> getEncryptionSession st \<noteq> None"

definition web_hydrateEvent :: "('key, 'rng) web_crypto \<Rightarrow> 'key session_state \<Rightarrow> js_object \<Rightarrow> js_object" where
  "web_hydrateEvent crypto st event =
     (if \<not> isEncryptedEvent event then event else shown_event crypto (getEncryptionSession st) event)"

definition web_hydrateEvents :: "('key, 'rng) web_crypto \<Rightarrow> 'key session_state \<Rightarrow> js_object list \<Rightarrow> js_object list" where
  "web_hydrateEvents crypto st events = map (web_hydrateEvent crypto st) events"

definition web_blindIndexTokens ::
  "('key, 'rng) web_crypto \<Rightarrow> 'key session_state \<Rightarrow> string \<Rightarrow> e2ee_error + string list" where
  "web_blindIndexTokens crypto st value =
     (case getEncryptionSession st of None \<Rightarrow> Inr [] | Some s \<Rightarrow> createBlindIndexTokens crypto (blindIndexKey s) value)"

definition web_encryptJson ::
  "('key, 'rng) web_crypto \<Rightarrow> 'key session_state \<Rightarrow> jsval \<Rightarrow> string \<Rightarrow> 'rng \<Rightarrow> (e2ee_error + string) \<times> 'rng" where
  "web_encryptJson crypto st value aad rng =
     (case getEncryptionSession st of
        None \<Rightarrow> (Inl (Thrown ''Encrypted data is not unlocked on this device.''), rng)
      | Some s \<Rightarrow> apfst (\<lambda>r. and_then r (\<lambda>p. Inr (payload_text (json_texts crypto) p)))
                    (encryptJsonPayload crypto (accountKey s) value (Some aad) rng))"

definition opened_json ::
  "('key, 'rng) web_crypto \<Rightarrow> 'key \<Rightarrow> encrypted_payload \<Rightarrow> string \<Rightarrow> jsval" where
  "opened_json crypto key payload aad =
     (case decryptJsonPayload crypto key payload (Some aad) of Inl _ \<Rightarrow> JNull | Inr v \<Rightarrow> v)"

definition web_decryptJson :: "('key, 'rng) web_crypto \<Rightarrow> 'key session_state \<Rightarrow> string \<Rightarrow> string \<Rightarrow> jsval" where
  "web_decryptJson crypto st encrypted aad =
     (case (getEncryptionSession st, parseEncryptedJsonPayload encrypted) of
        (Some s, Some payload) \<Rightarrow> opened_json crypto (accountKey s) payload aad
      | _ \<Rightarrow> JNull)"

section \<open>The native provider\<close>

text \<open>\<open>getModule\<close> answers the loaded E2EE module, \<open>None\<close> where there is no native crypto.\<close>

definition encryptWith ::
  "'key session_state \<Rightarrow> ('key, 'rng) web_crypto option \<Rightarrow>
   (('key, 'rng) web_crypto \<Rightarrow> 'key e2ee_session \<Rightarrow> 'rng \<Rightarrow> (e2ee_error + 'a) \<times> 'rng) \<Rightarrow>
   (e2ee_error + 'a) \<Rightarrow> 'rng \<Rightarrow> (e2ee_error + 'a) \<times> 'rng" where
  "encryptWith st getModule encrypt withoutSession rng =
     (case waitForSession st of
        Inl e \<Rightarrow> (Inl e, rng)
      | Inr session \<Rightarrow>
          (case (session, getModule) of
             (Some s, Some e2ee) \<Rightarrow> encrypt e2ee s rng
           | _ \<Rightarrow> (withoutSession, rng)))"

definition native_attachEvent ::
  "('key, 'rng) web_crypto option \<Rightarrow> 'key session_state \<Rightarrow> js_object \<Rightarrow> 'rng \<Rightarrow> (e2ee_error + js_object) \<times> 'rng" where
  "native_attachEvent getModule st request =
     encryptWith st getModule
       (\<lambda>e2ee s. encryptEventContentRequest e2ee (accountKey s) (blindIndexKey s) request CONTENT_ENCRYPTION_KEY_VERSION)
       (withoutPlaintextEventContent request)"

definition native_attachName ::
  "('key, 'rng) web_crypto option \<Rightarrow> 'key session_state \<Rightarrow> name_kind \<Rightarrow> js_object \<Rightarrow> 'rng \<Rightarrow> (e2ee_error + js_object) \<times> 'rng" where
  "native_attachName getModule st kind request =
     encryptWith st getModule
       (\<lambda>e2ee s. encryptNameRequest e2ee (accountKey s) (blindIndexKey s) kind request CONTENT_ENCRYPTION_KEY_VERSION)
       (withoutPlaintextName request)"

definition native_hydrateName ::
  "('key, 'rng) web_crypto option \<Rightarrow> 'key session_state \<Rightarrow> name_kind \<Rightarrow> js_object \<Rightarrow> e2ee_error + js_object" where
  "native_hydrateName getModule st kind r =
     (if \<not> truthy (prop_of r ''encryptedName'') then Inr r
      else and_then (waitForSession st) (\<lambda>session.
        Inr (hydrateEncryptedName
          (case (getModule, session) of (Some e2ee, Some s) \<Rightarrow> Some (e2ee, accountKey s) | _ \<Rightarrow> None) kind r)))"

definition native_hasActiveSession :: "'key session_state \<Rightarrow> e2ee_error + bool" where
  "native_hasActiveSession st = and_then (waitForSession st) (\<lambda>session. Inr (session \<noteq> None))"

definition native_hydrateEvent ::
  "('key, 'rng) web_crypto option \<Rightarrow> 'key session_state \<Rightarrow> js_object \<Rightarrow> e2ee_error + js_object" where
  "native_hydrateEvent getModule st event =
     (if \<not> isEncryptedEvent event then Inr event
      else and_then (waitForSession st) (\<lambda>session. Inr
        (case (session, getModule) of
           (Some s, Some e2ee) \<Rightarrow> shown_event e2ee (Some s) event
         | _ \<Rightarrow> hydrateEncryptedEventWithoutSession event)))"

fun native_hydrateEvents ::
  "('key, 'rng) web_crypto option \<Rightarrow> 'key session_state \<Rightarrow> js_object list \<Rightarrow> e2ee_error + js_object list" where
  "native_hydrateEvents getModule st [] = Inr []"
| "native_hydrateEvents getModule st (event # events) =
     and_then (native_hydrateEvent getModule st event) (\<lambda>e. and_then (native_hydrateEvents getModule st events) (\<lambda>es. Inr (e # es)))"

text \<open>The promise is returned out of the \<open>try\<close> and not awaited in it, so its rejection is not caught.\<close>

definition native_blindIndexTokens ::
  "('key, 'rng) web_crypto option \<Rightarrow> 'key session_state \<Rightarrow> string \<Rightarrow> e2ee_error + string list" where
  "native_blindIndexTokens getModule st value =
     (case (fst st, getModule) of
        (Some s, Some e2ee) \<Rightarrow> createBlindIndexTokens e2ee (blindIndexKey s) value
      | _ \<Rightarrow> Inr [])"

definition native_encryptJson ::
  "('key, 'rng) web_crypto option \<Rightarrow> 'key session_state \<Rightarrow> jsval \<Rightarrow> string \<Rightarrow> 'rng \<Rightarrow> (e2ee_error + string) \<times> 'rng" where
  "native_encryptJson getModule st value aad =
     encryptWith st getModule
       (\<lambda>e2ee s rng. apfst (\<lambda>r. and_then r (\<lambda>p. Inr (payload_text (json_texts e2ee) p)))
          (encryptJsonPayload e2ee (accountKey s) value (Some aad) rng))
       (Inl (Thrown ''Encrypted data is not unlocked on this device.''))"

definition native_decryptJson ::
  "('key, 'rng) web_crypto option \<Rightarrow> 'key session_state \<Rightarrow> string \<Rightarrow> string \<Rightarrow> e2ee_error + jsval" where
  "native_decryptJson getModule st encrypted aad =
     and_then (waitForSession st) (\<lambda>session. Inr
       (case (session, getModule, parseEncryptedJsonPayload encrypted) of
          (Some s, Some e2ee, Some payload) \<Rightarrow> opened_json e2ee (accountKey s) payload aad
        | _ \<Rightarrow> JNull))"

section \<open>The provider without a session\<close>

definition noop_attachEvent :: "js_object \<Rightarrow> e2ee_error + js_object" where
  "noop_attachEvent request = withoutPlaintextEventContent request"

definition noop_attachName :: "js_object \<Rightarrow> e2ee_error + js_object" where
  "noop_attachName request = withoutPlaintextName request"

definition noop_hydrateName :: "name_kind \<Rightarrow> js_object \<Rightarrow> js_object" where
  "noop_hydrateName kind r = hydrateEncryptedNameWithoutSession kind r"

definition noop_hydrateEvent :: "js_object \<Rightarrow> js_object" where
  "noop_hydrateEvent event = event"

definition noop_encryptJson :: "jsval \<Rightarrow> string \<Rightarrow> e2ee_error + string" where
  "noop_encryptJson value aad = Inl (Thrown ''Encrypted data is not unlocked on this device.'')"

definition noop_decryptJson :: "string \<Rightarrow> string \<Rightarrow> jsval" where
  "noop_decryptJson encrypted aad = JNull"

section \<open>The contract of a provider\<close>

text \<open>What a row of writes posts: a write whose encryption throws is not sent.\<close>

fun send_all :: "('r \<Rightarrow> 'rng \<Rightarrow> (e2ee_error + 'w) \<times> 'rng) \<Rightarrow> 'r list \<Rightarrow> 'rng \<Rightarrow> 'w list" where
  "send_all attach [] rng = []"
| "send_all attach (r # rs) rng =
     (case attach r rng of
        (Inr wire, rng') \<Rightarrow> wire # send_all attach rs rng'
      | (Inl _, rng') \<Rightarrow> send_all attach rs rng')"

text \<open>
  What the calendar client relies on: a write either fails or leaves without content, whoever
  provides the encryption. Each provider meets it.
\<close>

locale content_provider =
  fixes attachEvent :: "js_object \<Rightarrow> 'rng \<Rightarrow> (e2ee_error + js_object) \<times> 'rng"
    and attachName :: "name_kind \<Rightarrow> js_object \<Rightarrow> 'rng \<Rightarrow> (e2ee_error + js_object) \<times> 'rng"
  assumes event_bare: "attachEvent request rng = (Inr wire, rng') \<Longrightarrow> field \<in> set EVENT_CONTENT_FIELDS \<Longrightarrow> \<not> has_own wire field"
    and name_bare: "attachName kind request rng = (Inr wire, rng') \<Longrightarrow> \<not> has_own wire ''name''"
begin

lemma sent_events_bare: "wire \<in> set (send_all attachEvent rs rng) \<Longrightarrow> field \<in> set EVENT_CONTENT_FIELDS \<Longrightarrow> \<not> has_own wire field"
proof (induction rs arbitrary: rng)
  case (Cons r rs)
  obtain x rng' where x: "attachEvent r rng = (x, rng')" by fastforce
  with Cons show ?case by (cases x) (auto dest: event_bare)
qed simp

end

lemma withoutPlaintext_event_bare:
  "withoutPlaintextEventContent request = Inr wire \<Longrightarrow> field \<in> set EVENT_CONTENT_FIELDS \<Longrightarrow> \<not> has_own wire field"
  by (auto simp: withoutPlaintextEventContent_def without_props_def has_own_def split: if_splits)

lemma withoutPlaintext_name_bare: "withoutPlaintextName request = Inr wire \<Longrightarrow> \<not> has_own wire ''name''"
  by (auto simp: withoutPlaintextName_def without_props_def has_own_def split: if_splits)

interpretation web: content_provider "web_attachEvent c st" "web_attachName c st"
  by unfold_locales
    (auto simp: web_attachEvent_def web_attachName_def split: option.splits
      dest: withoutPlaintext_event_bare withoutPlaintext_name_bare event_wire_bare name_wire_bare)

interpretation native: content_provider "native_attachEvent m st" "native_attachName m st"
  by unfold_locales
    (auto simp: native_attachEvent_def native_attachName_def encryptWith_def split: option.splits sum.splits
      dest: withoutPlaintext_event_bare withoutPlaintext_name_bare event_wire_bare name_wire_bare)

interpretation noop: content_provider "\<lambda>r rng. (noop_attachEvent r, rng)" "\<lambda>k r rng. (noop_attachName r, rng)"
  by unfold_locales
    (auto simp: noop_attachEvent_def noop_attachName_def dest: withoutPlaintext_event_bare withoutPlaintext_name_bare)

section \<open>No event leaves with plaintext\<close>






section \<open>An event is shown to its account only\<close>

lemma event_content_plain: "json_plain (event_content request)"
  by (auto simp: event_content_def null_or_str_def split: option.splits)

lemma content_props_event [simp]: "content_props (event_content request) =
    Inr [(''title'', JStr (case trimToNull (prop_of request ''title'') of None \<Rightarrow> [] | Some t \<Rightarrow> t)),
      (''description'', null_or_str (trimToNull (prop_of request ''description''))),
      (''location'', null_or_str (trimToNull (prop_of request ''location''))),
      (''color'', null_or_str (trimToNull (prop_of request ''color''))),
      (''categoryId'', null_or_str (trimToNull (prop_of request ''categoryId'')))]"
  by (simp add: event_content_def)

lemma null_or_str_simps [simp]:
  "coalesce (null_or_str x) JNull = null_or_str x"
  "truthy (null_or_str (trimToNull v)) \<longleftrightarrow> trimToNull v \<noteq> None"
  by (auto simp: null_or_str_def coalesce_def split: option.splits dest: trimToNull_trimmed)

text \<open>A row that carries the ciphertext, read with the key it was written with or with another one.\<close>

lemma decrypt_event_sealed:
  assumes laws: "crypto_laws c" "crypto_authentic c"
    and sealed: "encryptJsonPayload c k (event_content request) (Some (eventContentAad CONTENT_ENCRYPTION_KEY_VERSION)) rng = (Inr p, rng')"
    and row: "prop_of row ''encryptedContent'' = JStr (payload_text (json_texts c) p)"
  shows "\<exists>content. content_props (event_content request) = Inr content \<and>
    decrypt_event c k row = Inr (withDecryptedEventContent row content)"
    "k' \<noteq> k \<Longrightarrow> \<exists>e. decrypt_event c k' row = Inl e"
proof -
  have version: "ep_version p = JNum 1" using sealed by (rule encrypted_json) simp
  from json_round_trip [OF payload_object_plain [OF version], of "json_texts c"]
  have parsed: "json_read (payload_text (json_texts c) p) = Some (payload_object p)" by (auto simp: payload_text_def)
  have stored: "stored_payload (payload_object p) = Inr p"
    by (simp add: stored_payload_def payload_object_def)
  have aad: "eventContentAad CONTENT_ENCRYPTION_KEY_VERSION = ''event-content:v1''" by code_simp
  have opens: "decryptJsonPayload c k' p (Some ''event-content:v1'') = Inr v \<longleftrightarrow> k' = k \<and> v = event_content request" for k' v
    using sealed_json_opens [OF laws event_content_plain sealed] unfolding aad by auto
  have run: "decrypt_event c k' row = and_then (decryptJsonPayload c k' p (Some ''event-content:v1'')) (\<lambda>decrypted.
     and_then (content_props decrypted) (\<lambda>content. Inr (withDecryptedEventContent row content)))" for k'
    unfolding decrypt_event_def row by (simp add: parsed stored)
  show "\<exists>content. content_props (event_content request) = Inr content \<and>
    decrypt_event c k row = Inr (withDecryptedEventContent row content)"
    using opens [of k "event_content request"] by (simp add: run)
  show "\<exists>e. decrypt_event c k' row = Inl e" if "k' \<noteq> k"
    using opens [of k'] that by (cases "decryptJsonPayload c k' p (Some ''event-content:v1'')") (auto simp: run)
qed

text \<open>What the holder of the key sees of a stored row: the trimmed texts of the request, and its colour
  and category unless the row itself has one.\<close>

definition shows_content :: "js_object \<Rightarrow> js_object \<Rightarrow> js_object \<Rightarrow> bool" where
  "shows_content request row shown \<longleftrightarrow>
     prop_of shown ''title'' = null_or_str (trimToNull (prop_of request ''title'')) \<and>
     prop_of shown ''description'' = null_or_str (trimToNull (prop_of request ''description'')) \<and>
     prop_of shown ''location'' = null_or_str (trimToNull (prop_of request ''location'')) \<and>
     (\<forall>k \<in> {''color'', ''categoryId''}.
        prop_of shown k = (if truthy (prop_of row k) \<or> trimToNull (prop_of request k) = None then prop_of row k
                           else null_or_str (trimToNull (prop_of request k)))) \<and>
     (\<forall>k. k \<notin> set EVENT_CONTENT_FIELDS \<longrightarrow> prop_of shown k = prop_of row k)"

lemma decrypted_shows_content:
  assumes "shouldEncryptEventContent request" "content_props (event_content request) = Inr content"
  shows "shows_content request row (withDecryptedEventContent row content)"
proof -
  obtain t where t: "trimToNull (prop_of request ''title'') = Some t"
    using assms(1) by (auto simp: shouldEncryptEventContent_def)
  let ?null = "\<lambda>k. null_or_str (trimToNull (prop_of request k))"
  have content: "prop_of content ''title'' = JStr t" "prop_of content ''description'' = ?null ''description''"
    "prop_of content ''location'' = ?null ''location''" "prop_of content ''color'' = ?null ''color''"
    "prop_of content ''categoryId'' = ?null ''categoryId''"
    using assms(2) t by auto
  let ?new = "[(''title'', JStr t), (''description'', ?null ''description''), (''location'', ?null ''location''),
      (''color'', js_or (js_or (prop_of row ''color'') (?null ''color'')) (prop_of row ''color'')),
      (''categoryId'', js_or (js_or (prop_of row ''categoryId'') (?null ''categoryId'')) (prop_of row ''categoryId''))]"
  have shown: "withDecryptedEventContent row content = with_props row ?new"
    unfolding withDecryptedEventContent_def content trimToNull_again [OF t] by simp
  have look: "prop_of (withDecryptedEventContent row content) k = (case map_of ?new k of Some v \<Rightarrow> v | None \<Rightarrow> prop_of row k)" for k
    unfolding shown by (rule prop_of_with_props) simp
  have own: "js_or (js_or v (null_or_str (trimToNull w))) v = (if truthy v \<or> trimToNull w = None then v else null_or_str (trimToNull w))"
    for v w by (cases "trimToNull w") (auto simp: js_or_def null_or_str_def dest: trimToNull_trimmed)
  show ?thesis
    unfolding shows_content_def look
  proof (intro conjI ballI allI impI)
    fix k assume "k \<in> {''color'', ''categoryId''}"
    then consider "k = ''color''" | "k = ''categoryId''" by blast
    then show "(case map_of ?new k of Some v \<Rightarrow> v | None \<Rightarrow> prop_of row k) =
        (if truthy (prop_of row k) \<or> trimToNull (prop_of request k) = None then prop_of row k else ?null k)"
      by cases (simp_all add: own del: js_get.simps)
  next
    fix k assume "k \<notin> set EVENT_CONTENT_FIELDS"
    then have "map_of ?new k = None" by (simp add: EVENT_CONTENT_FIELDS_def)
    then show "(case map_of ?new k of Some v \<Rightarrow> v | None \<Rightarrow> prop_of row k) = prop_of row k" by simp
  qed (simp_all add: t null_or_str_def del: js_get.simps)
qed

lemma written_ciphertext:
  assumes "getEncryptionSession st = Some s" "shouldEncryptEventContent request"
    "web_attachEvent c st request rng = (Inr wire, rng')"
  shows "\<exists>p. encryptJsonPayload c (accountKey s) (event_content request)
        (Some (eventContentAad CONTENT_ENCRYPTION_KEY_VERSION)) rng = (Inr p, rng') \<and>
      prop_of wire ''encryptedContent'' = JStr (payload_text (json_texts c) p)"
proof -
  have run: "encryptEventContentRequest c (accountKey s) (blindIndexKey s) request CONTENT_ENCRYPTION_KEY_VERSION rng = (Inr wire, rng')"
    using assms(1,3) by (simp add: web_attachEvent_def)
  from encrypted_event_wire [OF run] assms(2) obtain p tokens where
    "encryptJsonPayload c (accountKey s) (event_content request) (Some (eventContentAad CONTENT_ENCRYPTION_KEY_VERSION)) rng = (Inr p, rng')"
    "wire = with_props (without_props request EVENT_CONTENT_FIELDS)
       ([(''encryptedContent'', JStr (payload_text (json_texts c) p)), (''blindIndexTokens'', JArr (map JStr tokens)),
         (''encryptionKeyVersion'', JNum (of_int CONTENT_ENCRYPTION_KEY_VERSION)), (''attributesEncrypted'', JBool True)] @
        (if invitesAttendees request then [(''invitationContent'', invitation_content request)] else []))" by blast
  then show ?thesis by (auto simp: prop_of_with_props simp del: with_props_Cons js_get.simps)
qed

text \<open>C9: An event written through the web provider comes back on every device of the account: a
  row with its ciphertext is shown with the texts, the colour and the category of the request by a
  session of either app that holds the account key, and by any other session, or none, as an
  encrypted event without description and location.\<close>

theorem event_shown_only_with_its_key:
  assumes laws: "crypto_laws c" "crypto_authentic c"
    and session: "getEncryptionSession st = Some s" "shouldEncryptEventContent request"
      "web_attachEvent c st request rng = (Inr wire, rng')"
    and row: "prop_of row ''encryptedContent'' = prop_of wire ''encryptedContent''"
      "prop_of row ''encryptionState'' = JStr ''encrypted''"
  shows "(case getEncryptionSession st' of
      Some s' \<Rightarrow> if accountKey s' = accountKey s then shows_content request row (web_hydrateEvent c st' row)
                 else web_hydrateEvent c st' row = hydrateEncryptedEventWithoutSession row
    | None \<Rightarrow> web_hydrateEvent c st' row = hydrateEncryptedEventWithoutSession row) \<and>
    (waitForSession st' = Inr active \<longrightarrow>
      native_hydrateEvent (Some c) st' row = Inr (shown_event c active row)) \<and>
    (\<forall>s'. shows_content request row (shown_event c (Some s') row) \<or>
       accountKey s' \<noteq> accountKey s \<and> shown_event c (Some s') row = hydrateEncryptedEventWithoutSession row)"
proof -
  obtain p where p: "encryptJsonPayload c (accountKey s) (event_content request)
        (Some (eventContentAad CONTENT_ENCRYPTION_KEY_VERSION)) rng = (Inr p, rng')"
    and wire: "prop_of wire ''encryptedContent'' = JStr (payload_text (json_texts c) p)"
    using written_ciphertext [OF session] by blast
  note row' = row(1) [unfolded wire]
  have encrypted: "isEncryptedEvent row"
    using payload_text_not_empty [OF p] by (simp add: isEncryptedEvent_def row' row(2) del: js_get.simps)
  obtain content where content: "content_props (event_content request) = Inr content"
    "decrypt_event c (accountKey s) row = Inr (withDecryptedEventContent row content)"
    using decrypt_event_sealed(1) [OF laws p row'] by blast
  have shown: "shown_event c (Some s') row =
      (if accountKey s' = accountKey s then withDecryptedEventContent row content else hydrateEncryptedEventWithoutSession row)" for s'
    using content(2) decrypt_event_sealed(2) [OF laws p row', of "accountKey s'"] by (auto simp: shown_event_def)
  note merged = decrypted_shows_content [OF session(2) content(1), of row]
  have "web_hydrateEvent c st' row = shown_event c (getEncryptionSession st') row"
    using encrypted by (simp add: web_hydrateEvent_def)
  moreover have "shown_event c None row = hydrateEncryptedEventWithoutSession row" by (simp add: shown_event_def)
  moreover have "native_hydrateEvent (Some c) st' row = Inr (shown_event c active row)" if "waitForSession st' = Inr active"
    using encrypted that by (cases active) (simp_all add: native_hydrateEvent_def shown_event_def)
  ultimately show ?thesis
    using shown merged by (auto split: option.splits)
qed

theorem event_shown_only_with_its_key_witness:
  "\<exists>wire rng'. web_attachEvent demo_crypto (Some \<lparr>accountKey = [1], blindIndexKey = [2]\<rparr>, None)
       [(''title'', JStr '' Dentist ''), (''color'', JStr ''red'')] 0 = (Inr wire, rng') \<and>
     (let row = [(''id'', JStr ''e1''), (''title'', JStr ''''), (''encryptionState'', JStr ''encrypted''),
                 (''encryptedContent'', prop_of wire ''encryptedContent'')];
          shown = web_hydrateEvent demo_crypto (None, Some \<lparr>rejection = None, session_after = Some \<lparr>accountKey = [1], blindIndexKey = [3]\<rparr>\<rparr>) row
      in prop_of shown ''title'' = JStr ''Dentist'' \<and> prop_of shown ''color'' = JStr ''red'' \<and>
         web_hydrateEvent demo_crypto (Some \<lparr>accountKey = [8], blindIndexKey = [2]\<rparr>, None) row =
           hydrateEncryptedEventWithoutSession row)"
proof -
  let ?request = "[(''title'', JStr '' Dentist ''), (''color'', JStr ''red'')]"
  let ?st = "(Some \<lparr>accountKey = [1], blindIndexKey = [2]\<rparr>, None)"
  have session: "getEncryptionSession ?st = Some \<lparr>accountKey = [1], blindIndexKey = [2]\<rparr>"
    by (simp add: getEncryptionSession_def)
  have title: "shouldEncryptEventContent ?request" by code_simp
  have texts: "trimToNull (JStr '' Dentist '') = Some ''Dentist''" "trimToNull (JStr ''red'') = Some ''red''" by code_simp+
  obtain p rng' where "encryptJsonPayload demo_crypto [1] (event_content ?request)
      (Some (eventContentAad CONTENT_ENCRYPTION_KEY_VERSION)) 0 = (Inr p, rng')"
    by (simp add: encryptJsonPayload_def demo_crypto_def)
  moreover obtain ts where "createBlindIndexTokens demo_crypto [2] (searchable_text ?request) = Inr ts"
    using demo_tokens by blast
  ultimately obtain wire where wire: "web_attachEvent demo_crypto ?st ?request 0 = (Inr wire, rng')"
    using title by (simp add: web_attachEvent_def session encryptEventContentRequest_def)
  define row where "row = [(''id'', JStr ''e1''), (''title'', JStr ''''), (''encryptionState'', JStr ''encrypted''),
      (''encryptedContent'', prop_of wire ''encryptedContent'')]"
  have row: "prop_of row ''encryptedContent'' = prop_of wire ''encryptedContent''" "prop_of row ''encryptionState'' = JStr ''encrypted''"
    "prop_of row ''color'' = JUndefined"
    by (simp_all add: row_def)
  note shown = event_shown_only_with_its_key [OF demo_crypto_laws demo_crypto_authentic session title wire row(1,2)]
  let ?other = "(None, Some \<lparr>rejection = None, session_after = Some \<lparr>accountKey = [1], blindIndexKey = [3]\<rparr>\<rparr>)"
  from conjunct1 [OF shown [of ?other]] have "shows_content ?request row (web_hydrateEvent demo_crypto ?other row)"
    by (simp add: getEncryptionSession_def)
  then have "prop_of (web_hydrateEvent demo_crypto ?other row) ''title'' = JStr ''Dentist''"
    "prop_of (web_hydrateEvent demo_crypto ?other row) ''color'' = JStr ''red''"
    using texts row(3) by (simp_all add: shows_content_def null_or_str_def del: trimToNull.simps)
  moreover have "web_hydrateEvent demo_crypto (Some \<lparr>accountKey = [8], blindIndexKey = [2]\<rparr>, None) row =
      hydrateEncryptedEventWithoutSession row"
    using conjunct1 [OF shown [of "(Some \<lparr>accountKey = [8], blindIndexKey = [2]\<rparr>, None)"]]
    by (simp add: getEncryptionSession_def)
  ultimately show ?thesis
    using wire unfolding Let_def row_def by blast
qed

end
