(* ===== verification/NotificationTitle.thy ===== *)
theory NotificationTitle
  imports ContentProvider
begin

text \<open>
  Reminder titles and leads sealed for the notification extension:
  \<open>packages/e2ee/src/notification-title.ts\<close> with the web and native wrappers
  \<open>apps/web/lib/e2ee-notification-title.ts\<close> and
  \<open>packages/native-core/src/lib/notification-title-crypto.ts\<close>.
\<close>

section \<open>notification-title.ts\<close>

definition NOTIFICATION_KEY_INFO :: string where "NOTIFICATION_KEY_INFO = ''solace/notification-key/v1''"
definition NOTIFICATION_TITLE_PREFIX :: string where "NOTIFICATION_TITLE_PREFIX = ''v1''"
definition MAX_NOTIFICATION_TITLE_LENGTH :: nat where "MAX_NOTIFICATION_TITLE_LENGTH = 200"
definition NOTIFICATION_IV_BYTES :: nat where "NOTIFICATION_IV_BYTES = 12"
definition GCM_TAG_BYTES :: nat where "GCM_TAG_BYTES = 16"
definition HASH_BYTES :: nat where "HASH_BYTES = 32"

definition notificationTitleAad :: "string \<Rightarrow> string" where
  "notificationTitleAad eventId = ''notification-title:'' @ NOTIFICATION_TITLE_PREFIX @ '':'' @ eventId"

definition notificationLeadAad :: "string \<Rightarrow> string" where
  "notificationLeadAad eventId = ''notification-lead:'' @ NOTIFICATION_TITLE_PREFIX @ '':'' @ eventId"

definition trim_end :: "string \<Rightarrow> string" where
  "trim_end s = rev (dropWhile is_ws (rev s))"

definition normalizeNotificationTitle :: "string \<Rightarrow> string option" where
  "normalizeNotificationTitle v =
     (let collapsed = collapse_ws (trim v) in
      if collapsed = [] then None
      else if length collapsed \<le> MAX_NOTIFICATION_TITLE_LENGTH then Some collapsed
      else Some (trim_end (take MAX_NOTIFICATION_TITLE_LENGTH collapsed)))"

definition hmacSha256 :: "('key, 'rng) web_crypto \<Rightarrow> byte list \<Rightarrow> byte list \<Rightarrow> e2ee_error + byte list" where
  "hmacSha256 crypto key data =
     and_then (attempt CryptoRejected (wc_import crypto HMAC_SHA_256 False key)) (\<lambda>hmacKey.
     attempt CryptoRejected (wc_sign crypto hmacKey data))"

definition deriveNotificationKeyBytes :: "('key, 'rng) web_crypto \<Rightarrow> 'key \<Rightarrow> e2ee_error + byte list" where
  "deriveNotificationKeyBytes crypto ak =
     and_then (attempt CryptoRejected (wc_export crypto ak)) (\<lambda>ikm.
     and_then (hmacSha256 crypto (replicate HASH_BYTES 0) ikm) (\<lambda>prk.
     hmacSha256 crypto prk (text_encode NOTIFICATION_KEY_INFO @ [1])))"

definition importNotificationKey :: "('key, 'rng) web_crypto \<Rightarrow> byte list \<Rightarrow> e2ee_error + 'key" where
  "importNotificationKey crypto keyBytes = attempt CryptoRejected (wc_import crypto AES_GCM_256 False keyBytes)"

definition seal ::
  "('key, 'rng) web_crypto \<Rightarrow> 'key \<Rightarrow> string \<Rightarrow> string \<Rightarrow> 'rng \<Rightarrow> (e2ee_error + string) \<times> 'rng" where
  "seal crypto notificationKey aad plaintext rng =
     (let (iv, rng') = wc_random crypto NOTIFICATION_IV_BYTES rng
      in (and_then (attempt CryptoRejected (wc_encrypt crypto iv (Some (text_encode aad)) notificationKey (text_encode plaintext)))
            (\<lambda>sealed. Inr (join_with ''.'' [NOTIFICATION_TITLE_PREFIX, bytesToBase64Url iv, bytesToBase64Url sealed])), rng'))"

text \<open>A missing part of the destructured array is \<open>undefined\<close>; parts after the third are ignored.\<close>

definition part :: "string list \<Rightarrow> nat \<Rightarrow> string option" where
  "part ws i = (if i < length ws then Some (ws ! i) else None)"

definition unseal :: "('key, 'rng) web_crypto \<Rightarrow> 'key \<Rightarrow> string \<Rightarrow> string \<Rightarrow> e2ee_error + string" where
  "unseal crypto notificationKey aad v =
     (let parts = split_on (CHR ''.'') v; invalid = Inl (Thrown ''Invalid encrypted notification value'') in
      if part parts 0 \<noteq> Some NOTIFICATION_TITLE_PREFIX \<or> part parts 1 \<in> {None, Some []} \<or> part parts 2 \<in> {None, Some []}
      then invalid
      else and_then (attempt InvalidCharacter (base64UrlToArrayBuffer (the (part parts 1)))) (\<lambda>iv.
        if length iv \<noteq> NOTIFICATION_IV_BYTES then invalid
        else and_then (attempt InvalidCharacter (base64UrlToArrayBuffer (the (part parts 2)))) (\<lambda>sealed.
          if length sealed < GCM_TAG_BYTES then invalid
          else and_then (attempt CryptoRejected (wc_decrypt crypto iv (Some (text_encode aad)) notificationKey sealed))
            (\<lambda>plaintext. Inr (text_decode plaintext)))))"

definition encryptNotificationTitle ::
  "('key, 'rng) web_crypto \<Rightarrow> 'key \<Rightarrow> string \<Rightarrow> string \<Rightarrow> 'rng \<Rightarrow> (e2ee_error + string option) \<times> 'rng" where
  "encryptNotificationTitle crypto notificationKey eventId title rng =
     (case normalizeNotificationTitle title of
        None \<Rightarrow> (Inr None, rng)
      | Some normalized \<Rightarrow>
          apfst (\<lambda>r. and_then r (\<lambda>s. Inr (Some s))) (seal crypto notificationKey (notificationTitleAad eventId) normalized rng))"

definition decryptNotificationTitle ::
  "('key, 'rng) web_crypto \<Rightarrow> 'key \<Rightarrow> string \<Rightarrow> string \<Rightarrow> e2ee_error + string" where
  "decryptNotificationTitle crypto notificationKey eventId v = unseal crypto notificationKey (notificationTitleAad eventId) v"

text \<open>\<open>Math.max(0, Math.trunc(minutesBefore))\<close>.\<close>

definition lead_minutes :: "rat \<Rightarrow> int" where
  "lead_minutes q = max 0 (if q < 0 then \<lceil>q\<rceil> else \<lfloor>q\<rfloor>)"

definition encryptNotificationLead ::
  "('key, 'rng) web_crypto \<Rightarrow> 'key \<Rightarrow> string \<Rightarrow> rat \<Rightarrow> 'rng \<Rightarrow> (e2ee_error + string) \<times> 'rng" where
  "encryptNotificationLead crypto notificationKey eventId minutesBefore rng =
     (let minutes = lead_minutes minutesBefore;
          digits = (if \<bar>minutes\<bar> < 10 ^ 21 then int_str minutes else number_text (json_texts crypto) (of_int minutes))
      in seal crypto notificationKey (notificationLeadAad eventId) digits rng)"

definition decryptNotificationLead ::
  "('key, 'rng) web_crypto \<Rightarrow> 'key \<Rightarrow> string \<Rightarrow> string \<Rightarrow> e2ee_error + int" where
  "decryptNotificationLead crypto notificationKey eventId v =
     and_then (unseal crypto notificationKey (notificationLeadAad eventId) v) (\<lambda>s.
       case js_number s of
         Some minutes \<Rightarrow> if \<not> is_integer minutes \<or> minutes < 0 then Inl (Thrown ''Invalid encrypted notification value'')
                         else Inr \<lfloor>minutes\<rfloor>
       | None \<Rightarrow> Inl (Thrown ''Invalid encrypted notification value''))"

section \<open>The wrappers of the apps\<close>

text \<open>The derived key is kept per account key, so this is the value every call finds.\<close>

definition notificationKeyFor :: "('key, 'rng) web_crypto \<Rightarrow> 'key \<Rightarrow> e2ee_error + 'key" where
  "notificationKeyFor crypto ak = and_then (deriveNotificationKeyBytes crypto ak) (importNotificationKey crypto)"

definition exportNotificationKey :: "('key, 'rng) web_crypto \<Rightarrow> 'key \<Rightarrow> e2ee_error + string" where
  "exportNotificationKey crypto ak =
     and_then (notificationKeyFor crypto ak) (\<lambda>_. and_then (deriveNotificationKeyBytes crypto ak) (\<lambda>bytes. Inr (bytesToBase64Url bytes)))"

definition native_encryptReminderTitle ::
  "('key, 'rng) web_crypto \<Rightarrow> 'key \<Rightarrow> string \<Rightarrow> string \<Rightarrow> 'rng \<Rightarrow> (e2ee_error + string option) \<times> 'rng" where
  "native_encryptReminderTitle crypto ak eventId title rng =
     (case notificationKeyFor crypto ak of
        Inl e \<Rightarrow> (Inl e, rng) | Inr key \<Rightarrow> encryptNotificationTitle crypto key eventId title rng)"

definition native_encryptReminderLead ::
  "('key, 'rng) web_crypto \<Rightarrow> 'key \<Rightarrow> string \<Rightarrow> rat \<Rightarrow> 'rng \<Rightarrow> (e2ee_error + string) \<times> 'rng" where
  "native_encryptReminderLead crypto ak eventId minutesBefore rng =
     (case notificationKeyFor crypto ak of
        Inl e \<Rightarrow> (Inl e, rng) | Inr key \<Rightarrow> encryptNotificationLead crypto key eventId minutesBefore rng)"

text \<open>\<open>undefined\<close> keeps the stored title, \<open>null\<close> clears it, a string replaces it.\<close>

datatype reminder_title = KeepTitle | ClearTitle | SealedTitle string

definition web_encryptReminderTitle ::
  "('key, 'rng) web_crypto \<Rightarrow> 'key session_state \<Rightarrow> string \<Rightarrow> string option \<Rightarrow> 'rng \<Rightarrow> (e2ee_error + reminder_title) \<times> 'rng" where
  "web_encryptReminderTitle crypto st eventId title rng =
     (if title = None \<or> trim (the title) = [] then (Inr ClearTitle, rng)
      else case getEncryptionSession st of
        None \<Rightarrow> (Inr KeepTitle, rng)
      | Some s \<Rightarrow> apfst (\<lambda>r. and_then r (\<lambda>v. Inr (case v of None \<Rightarrow> ClearTitle | Some t \<Rightarrow> SealedTitle t)))
                    (native_encryptReminderTitle crypto (accountKey s) eventId (the title) rng))"

definition web_encryptReminderLead ::
  "('key, 'rng) web_crypto \<Rightarrow> 'key session_state \<Rightarrow> string \<Rightarrow> rat \<Rightarrow> 'rng \<Rightarrow> (e2ee_error + string option) \<times> 'rng" where
  "web_encryptReminderLead crypto st eventId minutesBefore rng =
     (case getEncryptionSession st of
        None \<Rightarrow> (Inr None, rng)
      | Some s \<Rightarrow> apfst (\<lambda>r. and_then r (\<lambda>v. Inr (Some v))) (native_encryptReminderLead crypto (accountKey s) eventId minutesBefore rng))"

text \<open>The methods of the providers; \<open>None\<close> is \<open>undefined\<close>.\<close>

definition web_encryptNotificationTitle ::
  "('key, 'rng) web_crypto \<Rightarrow> 'key session_state \<Rightarrow> string \<Rightarrow> string \<Rightarrow> 'rng \<Rightarrow> (e2ee_error + string option) \<times> 'rng" where
  "web_encryptNotificationTitle crypto st eventId title rng =
     apfst (\<lambda>r. and_then r (\<lambda>v. Inr (case v of SealedTitle t \<Rightarrow> Some t | _ \<Rightarrow> None)))
       (web_encryptReminderTitle crypto st eventId (Some title) rng)"

definition native_encryptNotificationTitle ::
  "('key, 'rng) web_crypto \<Rightarrow> 'key session_state \<Rightarrow> string \<Rightarrow> string \<Rightarrow> 'rng \<Rightarrow> (e2ee_error + string option) \<times> 'rng" where
  "native_encryptNotificationTitle crypto st eventId title rng =
     (case waitForSession st of
        Inl e \<Rightarrow> (Inl e, rng)
      | Inr None \<Rightarrow> (Inr None, rng)
      | Inr (Some s) \<Rightarrow> native_encryptReminderTitle crypto (accountKey s) eventId title rng)"

definition native_encryptNotificationLead ::
  "('key, 'rng) web_crypto \<Rightarrow> 'key session_state \<Rightarrow> string \<Rightarrow> rat \<Rightarrow> 'rng \<Rightarrow> (e2ee_error + string option) \<times> 'rng" where
  "native_encryptNotificationLead crypto st eventId minutesBefore rng =
     (case waitForSession st of
        Inl e \<Rightarrow> (Inl e, rng)
      | Inr None \<Rightarrow> (Inr None, rng)
      | Inr (Some s) \<Rightarrow> apfst (\<lambda>r. and_then r (\<lambda>v. Inr (Some v)))
          (native_encryptReminderLead crypto (accountKey s) eventId minutesBefore rng))"

section \<open>Sealed values open for their event only\<close>

text \<open>An AES-GCM ciphertext holds a tag of 16 bytes.\<close>

definition gcm_tag :: "('key, 'rng) web_crypto \<Rightarrow> bool" where
  "gcm_tag c \<longleftrightarrow> (\<forall>iv aad k m x. wc_encrypt c iv aad k m = Some x \<longrightarrow> GCM_TAG_BYTES \<le> length x)"

lemma base64url_nonempty: "bytes \<noteq> [] \<Longrightarrow> bytesToBase64Url bytes \<noteq> []"
proof
  assume "bytes \<noteq> []" "bytesToBase64Url bytes = []"
  moreover have "base64UrlToArrayBuffer [] = Some []" by code_simp
  ultimately show False using base64url_round_trip [of bytes] by simp
qed

lemma sealed_value:
  assumes "seal c k aad t rng = (Inr s, rng')"
  obtains iv x where "wc_random c NOTIFICATION_IV_BYTES rng = (iv, rng')"
    "wc_encrypt c iv (Some (text_encode aad)) k (text_encode t) = Some x"
    "split_on (CHR ''.'') s = [''v1'', bytesToBase64Url iv, bytesToBase64Url x]"
proof -
  from assms obtain iv x where x: "wc_random c NOTIFICATION_IV_BYTES rng = (iv, rng')"
    "wc_encrypt c iv (Some (text_encode aad)) k (text_encode t) = Some x"
    "s = join_with ''.'' [NOTIFICATION_TITLE_PREFIX, bytesToBase64Url iv, bytesToBase64Url x]"
    by (auto simp: seal_def Let_def split: prod.splits)
  have dot: "CHR ''.'' \<notin> set (bytesToBase64Url bytes)" for bytes using base64url_alphabet by blast
  have "split_on (CHR ''.'') s = [''v1'', bytesToBase64Url iv, bytesToBase64Url x]"
    using split_on_append [of "CHR ''.''" "''v1''" "bytesToBase64Url iv @ CHR ''.'' # bytesToBase64Url x"]
      split_on_append [OF dot, of iv "bytesToBase64Url x"] split_on_no_sep [OF dot, of x]
    by (simp add: x(3) NOTIFICATION_TITLE_PREFIX_def)
  with x(1,2) show thesis by (rule that)
qed

lemma unseal_iff:
  assumes laws: "crypto_laws c" "crypto_authentic c" "gcm_tag c" and sealed: "seal c k aad t rng = (Inr s, rng')"
  shows "unseal c k' aad' s = Inr t' \<longleftrightarrow> k' = k \<and> aad' = aad \<and> t' = t"
proof -
  obtain iv x where iv: "wc_random c NOTIFICATION_IV_BYTES rng = (iv, rng')"
    and x: "wc_encrypt c iv (Some (text_encode aad)) k (text_encode t) = Some x"
    and s: "split_on (CHR ''.'') s = [''v1'', bytesToBase64Url iv, bytesToBase64Url x]"
    using sealed by (rule sealed_value)
  have lens: "length iv = NOTIFICATION_IV_BYTES" "GCM_TAG_BYTES \<le> length x"
    using crypto_lawsD(1) [OF laws(1) iv] laws(3) x by (auto simp: gcm_tag_def)
  then have "iv \<noteq> []" "x \<noteq> []" by (auto simp: NOTIFICATION_IV_BYTES_def GCM_TAG_BYTES_def)
  then have "unseal c k' aad' s = and_then (attempt CryptoRejected (wc_decrypt c iv (Some (text_encode aad')) k' x))
      (\<lambda>plaintext. Inr (text_decode plaintext))"
    using lens by (simp add: unseal_def Let_def s part_def NOTIFICATION_TITLE_PREFIX_def base64url_round_trip base64url_nonempty)
  moreover have "wc_decrypt c iv (Some (text_encode aad)) k x = Some (text_encode t)"
    by (rule crypto_lawsD(2) [OF laws(1) x])
  moreover have "k' = k \<and> aad' = aad" if "wc_decrypt c iv (Some (text_encode aad')) k' x = Some m" for m
    using laws(2) x that unfolding crypto_authentic_def by (metis option.inject text_encode_inject)
  ultimately show ?thesis by auto
qed

lemma aad_simps [simp]:
  "notificationTitleAad e = notificationTitleAad e' \<longleftrightarrow> e = e'"
  "notificationLeadAad e = notificationLeadAad e' \<longleftrightarrow> e = e'"
  "notificationTitleAad e \<noteq> notificationLeadAad e'" "notificationLeadAad e' \<noteq> notificationTitleAad e"
  by (simp_all add: notificationTitleAad_def notificationLeadAad_def)

text \<open>The cipher of the concrete instances, with a tag.\<close>

definition tagged_crypto :: "(byte list, nat) web_crypto" where
  "tagged_crypto = demo_crypto
     \<lparr>wc_encrypt := (\<lambda>iv aad k m. map_option ((@) (replicate GCM_TAG_BYTES 0)) (wc_encrypt demo_crypto iv aad k m)),
      wc_decrypt := (\<lambda>iv aad k x. wc_decrypt demo_crypto iv aad k (drop GCM_TAG_BYTES x))\<rparr>"

lemma tagged_crypto_laws: "crypto_laws tagged_crypto" "crypto_authentic tagged_crypto" "gcm_tag tagged_crypto"
proof -
  show "crypto_laws tagged_crypto" "gcm_tag tagged_crypto"
    using demo_crypto_laws by (auto simp: crypto_laws_def gcm_tag_def tagged_crypto_def)
  show "crypto_authentic tagged_crypto"
    unfolding crypto_authentic_def
  proof (intro allI impI)
    fix iv aad iv' aad' and k m x k' m' :: "byte list"
    assume "wc_encrypt tagged_crypto iv aad k m = Some x" "wc_decrypt tagged_crypto iv' aad' k' x = Some m'"
    then obtain z where "wc_encrypt demo_crypto iv aad k m = Some z" "wc_decrypt demo_crypto iv' aad' k' z = Some m'"
      by (auto simp: tagged_crypto_def)
    then show "k' = k \<and> aad' = aad"
      using demo_crypto_authentic unfolding crypto_authentic_def by blast
  qed
qed

lemma tagged_seal: "\<exists>s rng'. seal tagged_crypto k aad t rng = (Inr s, rng')"
  by (simp add: seal_def tagged_crypto_def demo_crypto_def)

lemma length_collapse_ws: "length (collapse_ws s) \<le> length s"
  by (induction s rule: collapse_ws.induct) (auto intro: le_trans [OF _ length_dropWhile_le])

text \<open>C30: A sealed reminder title opens with the notification key for its own event to the normalised
  title, of one to 200 characters without outer blanks; it opens to nothing with another key, for
  another event or as a lead.\<close>

theorem sealed_title_opens_for_its_event:
  assumes laws: "crypto_laws c" "crypto_authentic c" "gcm_tag c"
    and sealed: "encryptNotificationTitle c k eventId title rng = (Inr (Some s), rng')"
  shows "\<exists>normalized. normalizeNotificationTitle title = Some normalized \<and>
    length normalized \<le> MAX_NOTIFICATION_TITLE_LENGTH \<and>
    (\<forall>k' eventId' t. decryptNotificationTitle c k' eventId' s = Inr t \<longleftrightarrow> k' = k \<and> eventId' = eventId \<and> t = normalized) \<and>
    (\<forall>k' eventId' n. decryptNotificationLead c k' eventId' s \<noteq> Inr n)"
proof -
  obtain normalized where n: "normalizeNotificationTitle title = Some normalized"
    using sealed by (cases "normalizeNotificationTitle title") (auto simp: encryptNotificationTitle_def)
  with sealed have s: "seal c k (notificationTitleAad eventId) normalized rng = (Inr s, rng')"
    by (cases "seal c k (notificationTitleAad eventId) normalized rng") (auto simp: encryptNotificationTitle_def)
  have "length (trim_end u) \<le> length u" for u
    using length_dropWhile_le [of is_ws "rev u"] by (simp add: trim_end_def)
  from this [of "take MAX_NOTIFICATION_TITLE_LENGTH (collapse_ws (trim title))"] n
  have "length normalized \<le> MAX_NOTIFICATION_TITLE_LENGTH"
    by (auto simp: normalizeNotificationTitle_def Let_def split: if_splits)
  with n unseal_iff [OF laws s] show ?thesis
    by (auto simp: decryptNotificationTitle_def decryptNotificationLead_def)
qed

theorem sealed_title_opens_for_its_event_witness:
  "\<exists>s rng'. encryptNotificationTitle tagged_crypto [3] ''e1'' ''  Team   lunch '' 0 = (Inr (Some s), rng') \<and>
     decryptNotificationTitle tagged_crypto [3] ''e1'' s = Inr ''Team lunch'' \<and>
     decryptNotificationTitle tagged_crypto [3] ''e2'' s \<noteq> Inr ''Team lunch''"
proof -
  have n: "normalizeNotificationTitle ''  Team   lunch '' = Some ''Team lunch''" by code_simp
  obtain s rng' where "seal tagged_crypto [3] (notificationTitleAad ''e1'') ''Team lunch'' 0 = (Inr s, rng')"
    using tagged_seal by blast
  then have s: "encryptNotificationTitle tagged_crypto [3] ''e1'' ''  Team   lunch '' 0 = (Inr (Some s), rng')"
    by (simp add: encryptNotificationTitle_def n)
  from sealed_title_opens_for_its_event [OF tagged_crypto_laws s] s n show ?thesis by auto
qed

lemma lead_below_overflow: "(10 ^ 21 :: int) \<le> double_overflow"
  by (simp add: double_overflow_def)

text \<open>A sealed lead comes back as the whole minutes, at least zero, for its own event and with its
  key only, if there are fewer of them than ten to the 21st.\<close>

lemma sealed_lead_round_trip:
  assumes laws: "crypto_laws c" "crypto_authentic c" "gcm_tag c"
    and sealed: "encryptNotificationLead c k eventId minutesBefore rng = (Inr s, rng')"
    and minutes: "minutesBefore < 10 ^ 21"
  shows "decryptNotificationLead c k' eventId' s = Inr n \<longleftrightarrow> k' = k \<and> eventId' = eventId \<and> n = lead_minutes minutesBefore"
proof -
  let ?n = "lead_minutes minutesBefore"
  have bounds: "0 \<le> ?n" "\<bar>?n\<bar> < 10 ^ 21"
  proof -
    show "0 \<le> ?n" by (simp add: lead_minutes_def)
    have "\<lfloor>minutesBefore\<rfloor> < 10 ^ 21" using minutes by (simp add: floor_less_iff)
    moreover have "\<lceil>minutesBefore\<rceil> \<le> 0" if "minutesBefore < 0" using that by (simp add: ceiling_le_iff)
    ultimately show "\<bar>?n\<bar> < 10 ^ 21" by (auto simp: lead_minutes_def max_def)
  qed
  then have s: "seal c k (notificationLeadAad eventId) (int_str ?n) rng = (Inr s, rng')"
    using sealed by (simp add: encryptNotificationLead_def Let_def)
  have "\<bar>?n\<bar> < double_overflow" using bounds(2) lead_below_overflow by linarith
  then have number: "js_number (int_str ?n) = Some (of_int ?n)" by (rule js_number_int_str)
  have "decryptNotificationLead c k' eventId' s = Inr n \<longleftrightarrow>
      (\<exists>t. unseal c k' (notificationLeadAad eventId') s = Inr t \<and> (\<exists>q. js_number t = Some q \<and> is_integer q \<and> 0 \<le> q \<and> n = \<lfloor>q\<rfloor>))"
    by (auto simp: decryptNotificationLead_def split: option.splits if_splits)
  then show ?thesis
    using number bounds(1) by (auto simp: unseal_iff [OF laws s] is_integer_def)
qed

lemma sealed_lead_round_trip_witness:
  "\<exists>s rng'. encryptNotificationLead tagged_crypto [3] ''e1'' (15 + 1/2) 0 = (Inr s, rng') \<and>
     decryptNotificationLead tagged_crypto [3] ''e1'' s = Inr 15"
proof -
  obtain s rng' where s: "encryptNotificationLead tagged_crypto [3] ''e1'' (15 + 1/2) 0 = (Inr s, rng')"
    using tagged_seal unfolding encryptNotificationLead_def Let_def by blast
  have "lead_minutes (15 + 1/2) = 15" by code_simp
  with sealed_lead_round_trip [OF tagged_crypto_laws s, of "[3]" "''e1''" 15] s show ?thesis by auto
qed

end
