(* ===== verification/MailboxNames.thy ===== *)
theory MailboxNames
  imports E2eeModule
begin

text \<open>
  Custom mail folder names sealed to the account key:
  \<open>packages/calendar-core/src/mail-mailbox-names.ts\<close>. The cipher is made from the E2EE module.
\<close>

definition SEALED_MAILBOX_NAME_PREFIX :: string where "SEALED_MAILBOX_NAME_PREFIX = ''enc1.''"
definition UNREADABLE_MAILBOX_NAME :: string where "UNREADABLE_MAILBOX_NAME = ''Encrypted folder''"
definition MAILBOX_NAME_AAD :: string where "MAILBOX_NAME_AAD = ''mail-mailbox-name:v1''"
definition SEALED_IV_LENGTH :: nat where "SEALED_IV_LENGTH = 16"
definition MAILBOX_TAG_BYTES :: nat where "MAILBOX_TAG_BYTES = 16"

record mailbox_entry =
  mb_id :: string
  mb_name :: string
  mb_role :: "string option"

definition isSealedMailboxName :: "string \<Rightarrow> bool" where
  "isSealedMailboxName name \<longleftrightarrow> starts_with name SEALED_MAILBOX_NAME_PREFIX"

definition isCustomMailbox :: "mailbox_entry \<Rightarrow> bool" where
  "isCustomMailbox mailbox \<longleftrightarrow> mb_role mailbox \<in> {None, Some []}"

section \<open>The cipher\<close>

definition seal_name :: "('key, 'rng) web_crypto \<Rightarrow> 'key \<Rightarrow> string \<Rightarrow> 'rng \<Rightarrow> (e2ee_error + string) \<times> 'rng" where
  "seal_name c key name rng =
     apfst (\<lambda>r. and_then r (\<lambda>p. Inr (SEALED_MAILBOX_NAME_PREFIX @ ep_iv p @ ''.'' @ ep_ciphertext p)))
       (encryptJsonPayload c key (JStr name) (Some MAILBOX_NAME_AAD) rng)"

definition open_name :: "('key, 'rng) web_crypto \<Rightarrow> 'key \<Rightarrow> string \<Rightarrow> string" where
  "open_name c key name =
     (if \<not> isSealedMailboxName name then name
      else (let parts = split_on (CHR ''.'') (drop (length SEALED_MAILBOX_NAME_PREFIX) name);
                iv = (if 0 < length parts then parts ! 0 else []);
                ciphertext = (if 1 < length parts then parts ! 1 else [])
            in case decryptJsonPayload c key \<lparr>ep_version = JNum 1, ep_iv = iv, ep_ciphertext = ciphertext\<rparr> (Some MAILBOX_NAME_AAD) of
                 Inr (JStr opened) \<Rightarrow> opened
               | _ \<Rightarrow> UNREADABLE_MAILBOX_NAME))"

section \<open>Reading and sealing all folders\<close>

text \<open>\<open>cipher\<close> is \<open>None\<close> without keys.\<close>

definition openMailboxNames ::
  "mailbox_entry list \<Rightarrow> (('key, 'rng) web_crypto \<times> 'key) option \<Rightarrow> mailbox_entry list" where
  "openMailboxNames mailboxes cipher =
     map (\<lambda>mailbox. if isSealedMailboxName (mb_name mailbox)
       then mailbox\<lparr>mb_name := (case cipher of Some (c, key) \<Rightarrow> open_name c key (mb_name mailbox) | None \<Rightarrow> UNREADABLE_MAILBOX_NAME)\<rparr>
       else mailbox) mailboxes"

definition pending_names :: "mailbox_entry list \<Rightarrow> mailbox_entry list" where
  "pending_names = filter (\<lambda>mailbox. isCustomMailbox mailbox \<and> \<not> isSealedMailboxName (mb_name mailbox))"

fun seal_all ::
  "('key, 'rng) web_crypto \<Rightarrow> 'key \<Rightarrow> mailbox_entry list \<Rightarrow> 'rng \<Rightarrow> (e2ee_error + (string \<times> string) list) \<times> 'rng" where
  "seal_all c key [] rng = (Inr [], rng)"
| "seal_all c key (m # ms) rng =
     (case seal_name c key (mb_name m) rng of
        (Inl e, rng') \<Rightarrow> (Inl e, rng')
      | (Inr sealed, rng') \<Rightarrow>
          apfst (\<lambda>r. and_then r (\<lambda>entries. Inr ((mb_id m, sealed) # entries))) (seal_all c key ms rng'))"

text \<open>\<open>Object.fromEntries\<close>: the updates \<open>{ name }\<close> by mailbox id.\<close>

definition sealPlaintextMailboxNames ::
  "('key, 'rng) web_crypto \<Rightarrow> 'key \<Rightarrow> mailbox_entry list \<Rightarrow> 'rng \<Rightarrow> (e2ee_error + (string \<times> string) list) \<times> 'rng" where
  "sealPlaintextMailboxNames c key mailboxes rng =
     apfst (\<lambda>r. and_then r (\<lambda>entries. Inr (fold (\<lambda>(k, v). map_set k v) entries [])))
       (seal_all c key (pending_names mailboxes) rng)"

section \<open>Lengths\<close>

definition base64UrlLength :: "nat \<Rightarrow> nat" where
  "base64UrlLength bytes = (let rest = bytes mod 3 in bytes div 3 * 4 + (if rest = 0 then 0 else rest + 1))"

definition sealedMailboxNameLength :: "string \<Rightarrow> nat" where
  "sealedMailboxNameLength name =
     (let bytes = length (text_encode (json_quote name)) + MAILBOX_TAG_BYTES
      in length SEALED_MAILBOX_NAME_PREFIX + SEALED_IV_LENGTH + 1 + base64UrlLength bytes)"

definition maxPlainMailboxNameLength :: "rat \<Rightarrow> int" where
  "maxPlainMailboxNameLength sealedLimit =
     (let available = sealedLimit - of_nat (length SEALED_MAILBOX_NAME_PREFIX) - of_nat SEALED_IV_LENGTH - 1;
          bytes = \<lfloor>available * 3 / 4\<rfloor>
      in max (bytes - int MAILBOX_TAG_BYTES - 2) 0)"

lemma maxPlain_of_int: "maxPlainMailboxNameLength (of_int limit) = max ((limit - 22) * 3 div 4 - 18) 0"
proof -
  have "(of_int limit - 5 - 16 - 1) * 3 / 4 = (of_int ((limit - 22) * 3) / of_int 4 :: rat)" by (simp add: field_simps)
  then have "\<lfloor>(of_int limit - 5 - 16 - 1) * 3 / 4 :: rat\<rfloor> = (limit - 22) * 3 div 4"
    by (simp only: floor_divide_of_int_eq)
  then show ?thesis
    by (simp add: maxPlainMailboxNameLength_def Let_def MAILBOX_TAG_BYTES_def SEALED_IV_LENGTH_def SEALED_MAILBOX_NAME_PREFIX_def)
qed

section \<open>Sealed names open again\<close>

lemma sealed_name_parts:
  assumes "seal_name c k name rng = (Inr s, rng')"
  obtains p where "encryptJsonPayload c k (JStr name) (Some MAILBOX_NAME_AAD) rng = (Inr p, rng')"
    "isSealedMailboxName s"
    "open_name c' k' s = (case decryptJsonPayload c' k' p (Some MAILBOX_NAME_AAD) of
       Inr (JStr opened) \<Rightarrow> opened | _ \<Rightarrow> UNREADABLE_MAILBOX_NAME)"
    "s = SEALED_MAILBOX_NAME_PREFIX @ ep_iv p @ ''.'' @ ep_ciphertext p"
proof -
  obtain p where p: "encryptJsonPayload c k (JStr name) (Some MAILBOX_NAME_AAD) rng = (Inr p, rng')"
    "s = SEALED_MAILBOX_NAME_PREFIX @ ep_iv p @ ''.'' @ ep_ciphertext p"
    using assms by (cases "encryptJsonPayload c k (JStr name) (Some MAILBOX_NAME_AAD) rng") (auto simp: seal_name_def)
  obtain iv x where "p = \<lparr>ep_version = JNum 1, ep_iv = bytesToBase64Url iv, ep_ciphertext = bytesToBase64Url x\<rparr>"
    using p(1) by (rule encrypted_json)
  then have payload: "\<lparr>ep_version = JNum 1, ep_iv = ep_iv p, ep_ciphertext = ep_ciphertext p\<rparr> = p"
    and dots: "CHR ''.'' \<notin> set (ep_iv p)" "CHR ''.'' \<notin> set (ep_ciphertext p)"
    using base64url_alphabet by auto
  have "split_on (CHR ''.'') (ep_iv p @ CHR ''.'' # ep_ciphertext p) = [ep_iv p, ep_ciphertext p]"
    using split_on_append [OF dots(1)] split_on_no_sep [OF dots(2)] by simp
  moreover have "isSealedMailboxName s" by (simp add: p(2) isSealedMailboxName_def SEALED_MAILBOX_NAME_PREFIX_def starts_with_def)
  ultimately show thesis
    by (intro that [OF p(1)]) (auto simp: open_name_def p(2) payload)
qed

lemma open_sealed_name:
  assumes laws: "crypto_laws c" "crypto_authentic c" and sealed: "seal_name c k name rng = (Inr s, rng')"
  shows "open_name c k' s = (if k' = k then name else UNREADABLE_MAILBOX_NAME)"
proof -
  obtain p where p: "encryptJsonPayload c k (JStr name) (Some MAILBOX_NAME_AAD) rng = (Inr p, rng')"
    and s: "open_name c k' s = (case decryptJsonPayload c k' p (Some MAILBOX_NAME_AAD) of
       Inr (JStr opened) \<Rightarrow> opened | _ \<Rightarrow> UNREADABLE_MAILBOX_NAME)"
    using sealed by (rule sealed_name_parts)
  have "decryptJsonPayload c k' p (Some MAILBOX_NAME_AAD) = Inr v \<longleftrightarrow> k' = k \<and> v = JStr name" for v
    using sealed_json_opens [OF laws _ p] by auto
  note opens = this
  show ?thesis
  proof (cases "k' = k")
    case True
    with opens [of "JStr name"] show ?thesis unfolding s by simp
  next
    case False
    with opens obtain e where "decryptJsonPayload c k' p (Some MAILBOX_NAME_AAD) = Inl e"
      by (cases "decryptJsonPayload c k' p (Some MAILBOX_NAME_AAD)") blast+
    with False show ?thesis unfolding s by simp
  qed
qed

text \<open>The updates applied to the folders of the server.\<close>

definition apply_updates :: "(string \<times> string) list \<Rightarrow> mailbox_entry list \<Rightarrow> mailbox_entry list" where
  "apply_updates updates = map (\<lambda>m. case map_of updates (mb_id m) of None \<Rightarrow> m | Some name \<Rightarrow> m\<lparr>mb_name := name\<rparr>)"

lemma seal_all_entries:
  assumes "seal_all c k ms rng = (Inr entries, rng')"
  shows "map fst entries = map mb_id ms \<and>
    (\<forall>m \<in> set ms. \<exists>s g g'. (mb_id m, s) \<in> set entries \<and> seal_name c k (mb_name m) g = (Inr s, g'))"
  using assms
proof (induction ms arbitrary: rng entries)
  case (Cons m ms)
  obtain s g where s: "seal_name c k (mb_name m) rng = (Inr s, g)"
    using Cons.prems by (cases "seal_name c k (mb_name m) rng") (auto split: sum.splits)
  with Cons.prems obtain es where es: "seal_all c k ms g = (Inr es, rng')" "entries = (mb_id m, s) # es"
    by (cases "seal_all c k ms g") (auto split: sum.splits)
  note IH = Cons.IH [OF es(1)]
  have "\<exists>t g g'. (mb_id m', t) \<in> set entries \<and> seal_name c k (mb_name m') g = (Inr t, g')" if "m' \<in> set (m # ms)" for m'
  proof (cases "m' = m")
    case True
    with s es(2) show ?thesis by auto
  next
    case False
    with that IH obtain t g1 g2 where "(mb_id m', t) \<in> set es" "seal_name c k (mb_name m') g1 = (Inr t, g2)"
      by (metis set_ConsD)
    then show ?thesis using es(2) by auto
  qed
  with IH es(2) show ?case by simp
qed simp

text \<open>C16: Sealing the folders of an account hides every custom name from the server and changes no name
  for the holder of the account key: after the updates every custom folder has a sealed name, and
  opened with the key all folders show the names they showed before; with another key the names
  that were sealed show as encrypted folders. A name counts as sealed when it starts like one, as
  in the code: a folder that somebody named \<open>enc1.x\<close> is left as it is.\<close>

theorem sealing_folders_changes_no_name:
  assumes laws: "crypto_laws c" "crypto_authentic c" and ids: "distinct (map mb_id mailboxes)"
    and sealed: "sealPlaintextMailboxNames c k mailboxes rng = (Inr updates, rng')"
  shows "openMailboxNames (apply_updates updates mailboxes) (Some (c, k)) = openMailboxNames mailboxes (Some (c, k)) \<and>
    (\<forall>m \<in> set (apply_updates updates mailboxes). isCustomMailbox m \<longrightarrow> isSealedMailboxName (mb_name m)) \<and>
    (k' \<noteq> k \<longrightarrow> (\<forall>m \<in> set (pending_names mailboxes).
       m\<lparr>mb_name := UNREADABLE_MAILBOX_NAME\<rparr> \<in> set (openMailboxNames (apply_updates updates mailboxes) (Some (c, k')))))"
proof -
  obtain entries where entries: "seal_all c k (pending_names mailboxes) rng = (Inr entries, rng')"
    "updates = fold (\<lambda>(k, v). map_set k v) entries []"
    using sealed by (cases "seal_all c k (pending_names mailboxes) rng") (auto simp: sealPlaintextMailboxNames_def)
  note all = seal_all_entries [OF entries(1)]
  have distinct: "distinct (map fst entries)"
    using ids all by (simp add: pending_names_def distinct_map_filter)
  have updates: "map_of updates = map_of entries"
    unfolding entries(2) fold_map_set(2) using distinct by (intro map_of_eqI) (auto simp: map_of_eq_Some_iff rev_map [symmetric])
  have hit: "\<exists>s g g'. map_of updates (mb_id m) = Some s \<and> seal_name c k (mb_name m) g = (Inr s, g')" if "m \<in> set (pending_names mailboxes)" for m
    using all that distinct unfolding updates by (metis map_of_is_SomeI)
  have miss: "map_of updates (mb_id m) = None" if "m \<in> set mailboxes" "m \<notin> set (pending_names mailboxes)" for m
  proof -
    have "mb_id m \<notin> mb_id ` set (pending_names mailboxes)"
      using ids that by (auto simp: pending_names_def distinct_map inj_on_def)
    then show ?thesis using all unfolding updates by (metis list.set_map map_of_eq_None_iff)
  qed
  let ?after = "\<lambda>m. case map_of updates (mb_id m) of None \<Rightarrow> m | Some name \<Rightarrow> m\<lparr>mb_name := name\<rparr>"
  let ?open = "\<lambda>k m. if isSealedMailboxName (mb_name m) then m\<lparr>mb_name := open_name c k (mb_name m)\<rparr> else m"
  have opened: "openMailboxNames ms (Some (c, k)) = map (?open k) ms" for ms k by (simp add: openMailboxNames_def)
  have pending: "isSealedMailboxName (mb_name (?after m)) \<and> ?open k (?after m) = m \<and>
      (k' \<noteq> k \<longrightarrow> ?open k' (?after m) = m\<lparr>mb_name := UNREADABLE_MAILBOX_NAME\<rparr>)"
    if m: "m \<in> set (pending_names mailboxes)" for m
  proof -
    obtain s g g' where s: "map_of updates (mb_id m) = Some s" "seal_name c k (mb_name m) g = (Inr s, g')"
      using hit [OF m] by blast
    obtain p where "isSealedMailboxName s" using s(2) by (rule sealed_name_parts)
    with s open_sealed_name [OF laws s(2)] show ?thesis by simp
  qed
  have custom: "isCustomMailbox (?after m) = isCustomMailbox m" for m
    by (simp add: isCustomMailbox_def split: option.splits)
  have same: "?open k (?after m) = ?open k m" if "m \<in> set mailboxes" for m
    using pending [of m] miss [OF that] by (cases "m \<in> set (pending_names mailboxes)") (auto simp: pending_names_def)
  have sealed': "isSealedMailboxName (mb_name (?after m))" if "m \<in> set mailboxes" "isCustomMailbox m" for m
    using pending [of m] miss [of m] that by (cases "m \<in> set (pending_names mailboxes)") (auto simp: pending_names_def)
  have sub: "set (pending_names mailboxes) \<subseteq> set mailboxes" by (auto simp: pending_names_def)
  show ?thesis
    unfolding opened apply_updates_def map_map comp_def
  proof (intro conjI ballI impI)
    show "map (\<lambda>m. ?open k (?after m)) mailboxes = map (?open k) mailboxes" using same by simp
    show "isSealedMailboxName (mb_name m)" if "m \<in> set (map ?after mailboxes)" "isCustomMailbox m" for m
      using that sealed' custom by auto
    show "m\<lparr>mb_name := UNREADABLE_MAILBOX_NAME\<rparr> \<in> set (map (\<lambda>m. ?open k' (?after m)) mailboxes)"
      if "k' \<noteq> k" "m \<in> set (pending_names mailboxes)" for m
    proof -
      have "m \<in> set mailboxes" using that(2) sub by blast
      moreover have "?open k' (?after m) = m\<lparr>mb_name := UNREADABLE_MAILBOX_NAME\<rparr>"
        using pending [OF that(2)] that(1) by blast
      note this [symmetric]
      ultimately show ?thesis unfolding set_map by (rule rev_image_eqI)
    qed
  qed
qed

section \<open>Lengths\<close>

text \<open>An AES-GCM ciphertext is 16 bytes longer than the text.\<close>

definition gcm_length :: "('key, 'rng) web_crypto \<Rightarrow> bool" where
  "gcm_length c \<longleftrightarrow> (\<forall>iv aad k m x. wc_encrypt c iv aad k m = Some x \<longrightarrow> length x = length m + MAILBOX_TAG_BYTES)"

text \<open>A printable ASCII character that JSON does not escape.\<close>

definition plain_char :: "char \<Rightarrow> bool" where
  "plain_char ch \<longleftrightarrow> 32 \<le> (of_char ch :: nat) \<and> (of_char ch :: nat) < 127 \<and> ch \<noteq> CHR 0x22 \<and> ch \<noteq> CHR 0x5C"

lemma base64UrlLength_le: "base64UrlLength b \<le> a \<longleftrightarrow> b \<le> 3 * a div 4"
proof -
  have b: "b = 3 * (b div 3) + b mod 3" and "b mod 3 = 0 \<or> b mod 3 = 1 \<or> b mod 3 = 2" by simp linarith
  then have len: "base64UrlLength b = b div 3 * 4 + (if b mod 3 = 0 then 0 else b mod 3 + 1)"
    by (simp add: base64UrlLength_def Let_def)
  have "base64UrlLength b \<le> a \<longleftrightarrow> b * 4 \<le> 3 * a"
    using \<open>b mod 3 = 0 \<or> b mod 3 = 1 \<or> b mod 3 = 2\<close> b unfolding len by (elim disjE) (simp_all, linarith+)
  then show ?thesis by (simp add: less_eq_div_iff_mult_less_eq)
qed

lemma plain_quoted: "list_all plain_char name \<Longrightarrow> length (text_encode (json_quote name)) = length name + 2"
proof -
  have escape: "json_escape ch = [ch] \<and> length (utf8_char ch) = 1" if "plain_char ch" for ch
    using that by (auto simp: plain_char_def json_escape_def utf8_char_def Let_def)
  have "list_all plain_char name \<Longrightarrow> length (text_encode (concat (map json_escape name))) = length name"
    by (induction name) (auto simp: text_encode_def escape)
  then show "list_all plain_char name \<Longrightarrow> length (text_encode (json_quote name)) = length name + 2"
    by (simp add: json_quote_def text_encode_def utf8_char_def)
qed

text \<open>The length that validation measures is exactly the length of the sealed name, and the length
  limit shown to the user is exact: a name of plain ASCII characters fits once sealed exactly when
  it is at most that long, unless not even an empty name fits.\<close>

lemma name_limit_is_exact:
  assumes laws: "crypto_laws c" "gcm_length c"
  shows "(seal_name c k name rng = (Inr s, rng') \<longrightarrow> length s = sealedMailboxNameLength name) \<and>
    (list_all plain_char name \<and> 0 < length name \<longrightarrow>
      (int (sealedMailboxNameLength name) \<le> limit \<longleftrightarrow> int (length name) \<le> maxPlainMailboxNameLength (of_int limit)))"
proof (intro conjI impI)
  assume sealed: "seal_name c k name rng = (Inr s, rng')"
  obtain p where p: "encryptJsonPayload c k (JStr name) (Some MAILBOX_NAME_AAD) rng = (Inr p, rng')"
    and s: "s = SEALED_MAILBOX_NAME_PREFIX @ ep_iv p @ ''.'' @ ep_ciphertext p"
    using sealed by (rule sealed_name_parts)
  obtain iv x where iv: "wc_random c GCM_IV_BYTES rng = (iv, rng')"
    and x: "wc_encrypt c iv (aad_bytes (Some MAILBOX_NAME_AAD)) k (text_encode (json_quote name)) = Some x"
    and p': "p = \<lparr>ep_version = JNum 1, ep_iv = bytesToBase64Url iv, ep_ciphertext = bytesToBase64Url x\<rparr>"
    using p by (auto simp: encryptJsonPayload_def Let_def split: prod.splits)
  have "length iv = 12" using crypto_lawsD(1) [OF laws(1) iv] by (simp add: GCM_IV_BYTES_def)
  moreover have "length x = length (text_encode (json_quote name)) + MAILBOX_TAG_BYTES"
    using laws(2) x by (simp add: gcm_length_def)
  moreover have "length (bytesToBase64Url bytes) = base64UrlLength (length bytes)" for bytes
    by (simp add: length_bytesToBase64Url base64UrlLength_def Let_def)
  ultimately show "length s = sealedMailboxNameLength name"
    by (simp add: s p' sealedMailboxNameLength_def Let_def SEALED_IV_LENGTH_def base64UrlLength_def)
next
  assume name: "list_all plain_char name \<and> 0 < length name"
  have "length (text_encode (json_quote name)) = length name + 2" using name plain_quoted by blast
  then have "sealedMailboxNameLength name = base64UrlLength (length name + 18) + 22"
    by (simp add: sealedMailboxNameLength_def Let_def MAILBOX_TAG_BYTES_def SEALED_IV_LENGTH_def SEALED_MAILBOX_NAME_PREFIX_def
        add.commute)
  then have "int (sealedMailboxNameLength name) \<le> limit \<longleftrightarrow> base64UrlLength (length name + 18) + 22 \<le> nat limit"
    by linarith
  also have "\<dots> \<longleftrightarrow> 22 \<le> nat limit \<and> length name + 18 \<le> 3 * (nat limit - 22) div 4"
    using base64UrlLength_le [of "length name + 18" "nat limit - 22"] by linarith
  also have "\<dots> \<longleftrightarrow> int (length name) \<le> maxPlainMailboxNameLength (of_int limit)"
  proof -
    have max: "int (length name) \<le> maxPlainMailboxNameLength (of_int limit) \<longleftrightarrow> int (length name) + 18 \<le> (limit - 22) * 3 div 4"
      using name unfolding maxPlain_of_int by linarith
    show ?thesis
    proof (cases "22 \<le> limit")
      case True
      then obtain m where m: "limit = int m + 22" by (metis add.commute nonneg_int_cases le_add_diff_inverse diff_ge_0_iff_ge)
      have "(limit - 22) * 3 div 4 = int (3 * m div 4)" by (simp add: m zdiv_int)
      with m show ?thesis unfolding max by auto
    next
      case False
      then have "(limit - 22) * 3 div 4 < 0" by simp
      with False show ?thesis unfolding max by auto
    qed
  qed
  finally show "int (sealedMailboxNameLength name) \<le> limit \<longleftrightarrow> int (length name) \<le> maxPlainMailboxNameLength (of_int limit)" .
qed

theorem sealing_folders_changes_no_name_witness:
  "\<exists>updates rng'. sealPlaintextMailboxNames demo_crypto [1] [\<lparr>mb_id = ''a'', mb_name = ''Receipts'', mb_role = None\<rparr>,
       \<lparr>mb_id = ''b'', mb_name = ''Inbox'', mb_role = Some ''inbox''\<rparr>] 0 = (Inr updates, rng') \<and>
     map mb_name (openMailboxNames (apply_updates updates [\<lparr>mb_id = ''a'', mb_name = ''Receipts'', mb_role = None\<rparr>,
       \<lparr>mb_id = ''b'', mb_name = ''Inbox'', mb_role = Some ''inbox''\<rparr>]) (Some (demo_crypto, [1]))) = [''Receipts'', ''Inbox'']"
proof -
  let ?ms = "[\<lparr>mb_id = ''a'', mb_name = ''Receipts'', mb_role = None\<rparr>, \<lparr>mb_id = ''b'', mb_name = ''Inbox'', mb_role = Some ''inbox''\<rparr>]"
  have ids: "distinct (map mb_id ?ms)" by simp
  have names: "\<not> isSealedMailboxName ''Receipts''" "\<not> isSealedMailboxName ''Inbox''" by code_simp+
  obtain updates rng' where run: "sealPlaintextMailboxNames demo_crypto [1] ?ms 0 = (Inr updates, rng')"
    by (simp add: sealPlaintextMailboxNames_def pending_names_def names isCustomMailbox_def seal_name_def encryptJsonPayload_def
        demo_crypto_def)
  have "openMailboxNames ?ms (Some (demo_crypto, [1])) = ?ms" using names by (simp add: openMailboxNames_def)
  with sealing_folders_changes_no_name [OF demo_crypto_laws demo_crypto_authentic ids run] run show ?thesis by auto
qed

end
