(* ===== verification/MailPolicy.thy ===== *)
theory MailPolicy
  imports MailboxNames "HOL-Library.Log_Nat"
begin

text \<open>
  The limits of the mail server: \<open>packages/calendar-core/src/mail-server-limits.ts\<close> and the resolvers,
  checks and chunking of \<open>packages/calendar-core/src/mail-server-policy.ts\<close>. What the server and the
  settings endpoint send is a \<open>jsval\<close>. Amounts with decimals are doubles here, so their products are
  rounded. \<open>formatAttachmentByteLimit\<close> only words messages and is an argument.
\<close>

section \<open>Doubles\<close>

text \<open>The double nearest to a non-negative rational, ties to even, without subnormals and overflow.\<close>

definition binary_exponent :: "rat \<Rightarrow> int" where
  "binary_exponent q =
     (let (n, d) = quotient_of q; k = int (floorlog 2 (nat n)) - int (floorlog 2 (nat d))
      in if 2 powi k \<le> q then k else k - 1)"

definition round_half_even :: "rat \<Rightarrow> int" where
  "round_half_even x =
     (let f = \<lfloor>x\<rfloor>; r = x - of_int f
      in if r < 1 / 2 \<or> (r = 1 / 2 \<and> even f) then f else f + 1)"

definition to_double :: "rat \<Rightarrow> rat" where
  "to_double q =
     (if q = 0 then 0
      else let ulp = 2 powi (binary_exponent q - 52) in of_int (round_half_even (q / ulp)) * ulp)"

section \<open>Limits of messages and uploads\<close>

definition JMAP_CORE_CAPABILITY :: string where "JMAP_CORE_CAPABILITY = ''urn:ietf:params:jmap:core''"
definition DEFAULT_MAX_BLOB_UPLOAD_BYTES :: rat where "DEFAULT_MAX_BLOB_UPLOAD_BYTES = 50000000"
definition DEFAULT_MAX_ATTACHMENT_BYTES :: rat where "DEFAULT_MAX_ATTACHMENT_BYTES = 50000000"
definition DEFAULT_MAX_MESSAGE_BYTES :: rat where "DEFAULT_MAX_MESSAGE_BYTES = 75000000"
definition SEALED_COPY_EXPANSION :: rat where "SEALED_COPY_EXPANSION = 15 / 8"

record mail_server_limits =
  maxBlobUploadBytes :: rat
  maxAttachmentSizeBytes :: "rat option"
  maxMessageSizeBytes :: "rat option"
  maxOutgoingAttachmentBytes :: rat

text \<open>\<open>Partial<MailServerLimits>\<close>, as far as it is read; \<open>None\<close> is \<open>undefined\<close> or \<open>null\<close>.\<close>

record config_limits =
  cl_maxBlobUploadBytes :: "rat option"
  cl_maxAttachmentSizeBytes :: "rat option"
  cl_maxMessageSizeBytes :: "rat option"

record limits_source =
  ls_session :: jsval
  ls_emailSettings :: jsval
  ls_jmapSettings :: jsval
  ls_configLimits :: "config_limits option"

definition SIZE_UNIT_MULTIPLIERS :: "(string \<times> rat) list" where
  "SIZE_UNIT_MULTIPLIERS =
     [(''b'', 1), (''kb'', 1000), (''mb'', 1000000), (''gb'', 1000000000),
      (''kib'', 1024), (''mib'', 1024 * 1024), (''gib'', 1024 * 1024 * 1024)]"

definition ascii_lower :: "char \<Rightarrow> bool" where
  "ascii_lower c \<longleftrightarrow> 97 \<le> (of_char c :: nat) \<and> (of_char c :: nat) \<le> 122"

text \<open>The groups of \<open>/^(\d+(?:\.\d+)?)(.*)$/\<close>: an amount and what follows it.\<close>

definition amount_match :: "string \<Rightarrow> (string \<times> string) option" where
  "amount_match s =
     (let whole = takeWhile is_digit s; r = dropWhile is_digit s
      in if whole = [] then None
         else (case r of
             [] \<Rightarrow> Some (whole, [])
           | c # f \<Rightarrow> if c = CHR ''.'' \<and> takeWhile is_digit f \<noteq> []
                      then Some (whole @ c # takeWhile is_digit f, dropWhile is_digit f)
                      else Some (whole, r)))"

text \<open>\<open>Number(amount)\<close> of such an amount as a double; \<open>None\<close> when it is not finite or not positive.\<close>

definition positive_amount :: "string \<Rightarrow> rat option" where
  "positive_amount amount =
     (case js_number amount of None \<Rightarrow> None
      | Some q \<Rightarrow> if to_double q \<le> 0 then None else Some (to_double q))"

definition positive_integer :: "jsval \<Rightarrow> rat option" where
  "positive_integer v = (case v of JNum q \<Rightarrow> if is_integer q \<and> q > 0 then Some q else None | _ \<Rightarrow> None)"

text \<open>A unit such as \<open>constructor\<close>, which the table inherits, gives \<open>NaN\<close>; every caller takes it as no limit.\<close>

definition parseStalwartSizeBytes :: "jsval \<Rightarrow> rat option" where
  "parseStalwartSizeBytes v =
     (case positive_integer v of
        Some q \<Rightarrow> Some q
      | None \<Rightarrow>
          (case str_of v of None \<Rightarrow> None
           | Some s \<Rightarrow>
               (case amount_match (to_lower (trim s)) of None \<Rightarrow> None
                | Some (amount, unit_text) \<Rightarrow>
                    if \<not> list_all ascii_lower unit_text then None
                    else (case positive_amount amount of None \<Rightarrow> None
                          | Some q \<Rightarrow>
                              (case map_of SIZE_UNIT_MULTIPLIERS (if unit_text = [] then ''b'' else unit_text) of
                                 None \<Rightarrow> None
                               | Some multiplier \<Rightarrow> Some (of_int \<lfloor>to_double (q * multiplier)\<rfloor>))))))"

text \<open>The \<open>maxSizeUpload\<close> of the session, a positive safe integer, when it is a plain object.\<close>

definition session_upload_limit :: "jsval \<Rightarrow> rat option" where
  "session_upload_limit session =
     (case js_get (js_get session ''capabilities'') JMAP_CORE_CAPABILITY of
        JObj ps \<Rightarrow> (case positive_integer (js_get (JObj ps) ''maxSizeUpload'') of
            Some q \<Rightarrow> if q \<le> 2 ^ 53 - 1 then Some q else None | None \<Rightarrow> None)
      | _ \<Rightarrow> None)"

text \<open>\<open>a || b\<close> on \<open>number | null | undefined\<close>: the first that is not zero.\<close>

fun first_nonzero :: "rat option list \<Rightarrow> rat option" where
  "first_nonzero [] = None"
| "first_nonzero (q # qs) = (if q \<in> {None, Some 0} then first_nonzero qs else q)"

definition config_of :: "(config_limits \<Rightarrow> rat option) \<Rightarrow> limits_source \<Rightarrow> rat option" where
  "config_of field source = Option.bind (ls_configLimits source) field"

definition blob_upload_candidates :: "limits_source \<Rightarrow> rat option list" where
  "blob_upload_candidates source =
     [session_upload_limit (ls_session source), parseStalwartSizeBytes (js_get (ls_jmapSettings source) ''maxUploadSize''),
      config_of cl_maxBlobUploadBytes source]"

definition resolveMaxBlobUploadBytes :: "limits_source \<Rightarrow> rat" where
  "resolveMaxBlobUploadBytes source =
     (case first_nonzero (blob_upload_candidates source) of Some q \<Rightarrow> q | None \<Rightarrow> DEFAULT_MAX_BLOB_UPLOAD_BYTES)"

definition hasBlobUploadLimitSource :: "limits_source \<Rightarrow> bool" where
  "hasBlobUploadLimitSource source \<longleftrightarrow> first_nonzero (blob_upload_candidates source) \<noteq> None"

definition resolveAttachmentSizeBytes :: "limits_source \<Rightarrow> rat option" where
  "resolveAttachmentSizeBytes source =
     (case first_nonzero [parseStalwartSizeBytes (js_get (ls_emailSettings source) ''maxAttachmentSize''),
                          config_of cl_maxAttachmentSizeBytes source] of
        Some q \<Rightarrow> Some q
      | None \<Rightarrow> if hasBlobUploadLimitSource source then None else Some DEFAULT_MAX_ATTACHMENT_BYTES)"

definition resolveMessageSizeBytes :: "limits_source \<Rightarrow> rat option" where
  "resolveMessageSizeBytes source =
     first_nonzero [parseStalwartSizeBytes (js_get (ls_emailSettings source) ''maxMessageSize''),
                    config_of cl_maxMessageSizeBytes source]"

definition outgoing_candidates :: "rat \<Rightarrow> rat option \<Rightarrow> rat option \<Rightarrow> rat list" where
  "outgoing_candidates blobBytes attachmentBytes messageBytes =
     [of_int \<lfloor>to_double (blobBytes / SEALED_COPY_EXPANSION)\<rfloor>,
      of_int \<lfloor>to_double ((case messageBytes of Some q \<Rightarrow> q | None \<Rightarrow> DEFAULT_MAX_MESSAGE_BYTES) / SEALED_COPY_EXPANSION)\<rfloor>] @
     (case attachmentBytes of Some q \<Rightarrow> if q \<noteq> 0 then [q] else [] | None \<Rightarrow> [])"

definition resolveMailServerLimits :: "limits_source \<Rightarrow> mail_server_limits" where
  "resolveMailServerLimits source =
     (let blobBytes = resolveMaxBlobUploadBytes source;
          attachmentBytes = resolveAttachmentSizeBytes source;
          messageBytes = resolveMessageSizeBytes source
      in \<lparr>maxBlobUploadBytes = blobBytes, maxAttachmentSizeBytes = attachmentBytes, maxMessageSizeBytes = messageBytes,
          maxOutgoingAttachmentBytes = Min (set (outgoing_candidates blobBytes attachmentBytes messageBytes))\<rparr>)"

definition resolveMaxOutgoingAttachmentBytes :: "limits_source \<Rightarrow> rat" where
  "resolveMaxOutgoingAttachmentBytes source = maxOutgoingAttachmentBytes (resolveMailServerLimits source)"

section \<open>The policy\<close>

definition DEFAULT_MAX_MAILBOX_DEPTH :: rat where "DEFAULT_MAX_MAILBOX_DEPTH = 10"
definition DEFAULT_MAX_MAILBOX_NAME_LENGTH :: rat where "DEFAULT_MAX_MAILBOX_NAME_LENGTH = 255"
definition DEFAULT_MAX_MAILBOXES :: rat where "DEFAULT_MAX_MAILBOXES = 250"
definition DEFAULT_MAX_IDENTITIES :: rat where "DEFAULT_MAX_IDENTITIES = 20"
definition DEFAULT_JMAP_GET_MAX_RESULTS :: rat where "DEFAULT_JMAP_GET_MAX_RESULTS = 500"
definition DEFAULT_JMAP_QUERY_MAX_RESULTS :: rat where "DEFAULT_JMAP_QUERY_MAX_RESULTS = 5000"
definition DEFAULT_JMAP_MAX_METHOD_CALLS :: rat where "DEFAULT_JMAP_MAX_METHOD_CALLS = 16"
definition DEFAULT_JMAP_MAX_CONCURRENT_UPLOADS :: rat where "DEFAULT_JMAP_MAX_CONCURRENT_UPLOADS = 4"
definition DEFAULT_JMAP_MAX_REQUEST_SIZE_BYTES :: rat where "DEFAULT_JMAP_MAX_REQUEST_SIZE_BYTES = 10000000"
definition DEFAULT_JMAP_UPLOAD_TTL_MS :: rat where "DEFAULT_JMAP_UPLOAD_TTL_MS = 60 * 60000"

definition REQUIRED_DEFAULT_FOLDER_ROLES :: "string list" where
  "REQUIRED_DEFAULT_FOLDER_ROLES = [''inbox'', ''drafts'', ''sent'', ''trash'']"

record default_folder =
  df_role :: string
  df_name :: string
  df_create :: bool
  df_subscribe :: bool

record policy_config = config_limits +
  pc_maxMailboxDepth :: "rat option"
  pc_maxMailboxNameLength :: "rat option"
  pc_maxMailboxes :: "rat option"
  pc_maxIdentities :: "rat option"
  pc_defaultFolders :: "default_folder list option"
  pc_getMaxResults :: "rat option"
  pc_queryMaxResults :: "rat option"
  pc_maxMethodCalls :: "rat option"
  pc_maxConcurrentUploads :: "rat option"
  pc_maxRequestSizeBytes :: "rat option"
  pc_uploadTtlMs :: "rat option"

record policy_source = limits_source +
  ps_configPolicy :: "policy_config option"

record mail_server_policy =
  mp_limits :: mail_server_limits
  maxMailboxDepth :: rat
  maxMailboxNameLength :: rat
  maxMailboxes :: rat
  maxIdentities :: rat
  defaultFolders :: "default_folder list"
  getMaxResults :: rat
  queryMaxResults :: rat
  maxMethodCalls :: rat
  maxConcurrentUploads :: rat
  maxRequestSizeBytes :: rat
  uploadTtlMs :: rat

text \<open>A digit string beyond the doubles is \<open>Infinity\<close> in the code and its rounded value here.\<close>

definition parsePositiveInt :: "jsval \<Rightarrow> rat option" where
  "parsePositiveInt v =
     (case positive_integer v of
        Some q \<Rightarrow> Some q
      | None \<Rightarrow>
          (case str_of v of None \<Rightarrow> None
           | Some s \<Rightarrow> if all_digits (trim s)
                       then (let parsed = to_double (of_nat (nat_of_digits (trim s))) in if parsed > 0 then Some parsed else None)
                       else None))"

definition DURATION_UNIT_MS :: "(string \<times> rat) list" where
  "DURATION_UNIT_MS = [(''s'', 1000), (''m'', 60000), (''h'', 3600000), (''d'', 86400000)]"

definition parseStalwartDuration :: "jsval \<Rightarrow> rat option" where
  "parseStalwartDuration v =
     (case positive_integer v of
        Some q \<Rightarrow> Some q
      | None \<Rightarrow>
          (case str_of v of None \<Rightarrow> None
           | Some s \<Rightarrow>
               (case amount_match (to_lower (trim s)) of None \<Rightarrow> None
                | Some (amount, unit_text) \<Rightarrow>
                    (case map_of DURATION_UNIT_MS unit_text of None \<Rightarrow> None
                     | Some unit_ms \<Rightarrow>
                         map_option (\<lambda>q. of_int \<lfloor>to_double (q * unit_ms)\<rfloor>) (positive_amount amount)))))"

definition getBuiltinDefaultFolders :: "default_folder list" where
  "getBuiltinDefaultFolders =
     map (\<lambda>(role, name). \<lparr>df_role = role, df_name = name, df_create = True, df_subscribe = True\<rparr>)
       [(''inbox'', ''Inbox''), (''drafts'', ''Drafts''), (''sent'', ''Sent''), (''trash'', ''Trash'')]"

text \<open>One entry of the settings; a \<open>Date\<close> has no own properties.\<close>

definition parse_folder :: "string \<times> jsval \<Rightarrow> default_folder list" where
  "parse_folder entry =
     (case entry of (role, config) \<Rightarrow>
        if \<not> truthy config \<or> \<not> is_object config \<or> is_array config then []
        else (case str_of (js_get config ''name'') of None \<Rightarrow> []
              | Some name \<Rightarrow> if trim name = [] then []
                  else [\<lparr>df_role = to_lower role, df_name = trim name, df_create = js_get config ''create'' \<noteq> JBool False,
                         df_subscribe = js_get config ''subscribe'' \<noteq> JBool False\<rparr>]))"

definition parseStalwartDefaultFolders :: "jsval \<Rightarrow> default_folder list" where
  "parseStalwartDefaultFolders v =
     (case v of
        JObj ps \<Rightarrow> (let entries = concat (map parse_folder ps) in if entries \<noteq> [] then entries else getBuiltinDefaultFolders)
      | _ \<Rightarrow> getBuiltinDefaultFolders)"

definition readSessionCoreCapability :: "policy_source \<Rightarrow> jsval option" where
  "readSessionCoreCapability source =
     (let core = js_get (js_get (ls_session source) ''capabilities'') JMAP_CORE_CAPABILITY
      in if truthy core \<and> is_object core \<and> \<not> is_array core then Some core else None)"

text \<open>The three entries of \<open>jmapSessionPolicySchema\<close>.\<close>

definition session_number :: "jsval option \<Rightarrow> string \<Rightarrow> rat option" where
  "session_number core name =
     (case core of None \<Rightarrow> None
      | Some v \<Rightarrow> (case js_get v name of JNum q \<Rightarrow> if q > 0 then Some q else None | _ \<Rightarrow> None))"

fun resolvePositiveInt :: "rat option list \<Rightarrow> rat \<Rightarrow> rat" where
  "resolvePositiveInt [] fallback = fallback"
| "resolvePositiveInt (candidate # candidates) fallback =
     (case candidate of Some q \<Rightarrow> if q > 0 then q else resolvePositiveInt candidates fallback
      | None \<Rightarrow> resolvePositiveInt candidates fallback)"

definition configured_limits :: "policy_source \<Rightarrow> config_limits option" where
  "configured_limits source =
     (case ps_configPolicy source of Some c \<Rightarrow> Some (config_limits.truncate c) | None \<Rightarrow> ls_configLimits source)"

definition resolveMailServerPolicy :: "policy_source \<Rightarrow> mail_server_policy" where
  "resolveMailServerPolicy source =
     (let config = ps_configPolicy source; sessionCore = readSessionCoreCapability source;
          email = ls_emailSettings source; jmap = ls_jmapSettings source;
          cfg = (\<lambda>field. Option.bind config field);
          limits = resolveMailServerLimits \<lparr>ls_session = ls_session source, ls_emailSettings = email, ls_jmapSettings = jmap,
            ls_configLimits = configured_limits source\<rparr>
      in \<lparr>mp_limits = limits,
          maxMailboxDepth = resolvePositiveInt [parsePositiveInt (js_get email ''maxMailboxDepth''), cfg pc_maxMailboxDepth]
            DEFAULT_MAX_MAILBOX_DEPTH,
          maxMailboxNameLength = resolvePositiveInt [parsePositiveInt (js_get email ''maxMailboxNameLength''), cfg pc_maxMailboxNameLength]
            DEFAULT_MAX_MAILBOX_NAME_LENGTH,
          maxMailboxes = resolvePositiveInt [parsePositiveInt (js_get email ''maxMailboxes''), cfg pc_maxMailboxes]
            DEFAULT_MAX_MAILBOXES,
          maxIdentities = resolvePositiveInt [parsePositiveInt (js_get email ''maxIdentities''), cfg pc_maxIdentities]
            DEFAULT_MAX_IDENTITIES,
          defaultFolders =
            (if \<not> nullish (js_get email ''defaultFolders'') then parseStalwartDefaultFolders (js_get email ''defaultFolders'')
             else case Option.bind config pc_defaultFolders of Some (f # fs) \<Rightarrow> f # fs | _ \<Rightarrow> getBuiltinDefaultFolders),
          getMaxResults = resolvePositiveInt [parsePositiveInt (js_get jmap ''getMaxResults''), cfg pc_getMaxResults]
            DEFAULT_JMAP_GET_MAX_RESULTS,
          queryMaxResults = resolvePositiveInt [parsePositiveInt (js_get jmap ''queryMaxResults''), cfg pc_queryMaxResults]
            DEFAULT_JMAP_QUERY_MAX_RESULTS,
          maxMethodCalls = resolvePositiveInt
            [parsePositiveInt (js_get jmap ''maxMethodCalls''), session_number sessionCore ''maxCallsInRequest'', cfg pc_maxMethodCalls]
            DEFAULT_JMAP_MAX_METHOD_CALLS,
          maxConcurrentUploads = resolvePositiveInt
            [parsePositiveInt (js_get jmap ''maxConcurrentUploads''), session_number sessionCore ''maxConcurrentUpload'',
             cfg pc_maxConcurrentUploads]
            DEFAULT_JMAP_MAX_CONCURRENT_UPLOADS,
          maxRequestSizeBytes = resolvePositiveInt
            [parseStalwartSizeBytes (js_get jmap ''maxRequestSize''), session_number sessionCore ''maxSizeRequest'',
             cfg pc_maxRequestSizeBytes]
            DEFAULT_JMAP_MAX_REQUEST_SIZE_BYTES,
          uploadTtlMs = resolvePositiveInt [parseStalwartDuration (js_get jmap ''uploadTtl''), cfg pc_uploadTtlMs]
            DEFAULT_JMAP_UPLOAD_TTL_MS\<rparr>)"


section \<open>Checks\<close>

definition resolveMailboxMessagesPageSize :: "mail_server_policy \<Rightarrow> rat \<Rightarrow> rat" where
  "resolveMailboxMessagesPageSize policy preferred = min (max 1 preferred) (getMaxResults policy)"

definition resolveMailboxSearchPageSize :: "mail_server_policy \<Rightarrow> rat \<Rightarrow> rat" where
  "resolveMailboxSearchPageSize policy preferred =
     min (max 1 preferred) (min (getMaxResults policy) (queryMaxResults policy))"

definition resolveMailboxNameDepth :: "string \<Rightarrow> nat" where
  "resolveMailboxNameDepth name =
     (if trim name = [] then 0 else length (filter (\<lambda>part. part \<noteq> []) (split_on (CHR ''/'') (trim name))))"

text \<open>\<open>None\<close> is the answer \<open>null\<close>: no complaint.\<close>

definition validateMailboxName :: "json_env \<Rightarrow> string \<Rightarrow> mail_server_policy \<Rightarrow> string option" where
  "validateMailboxName env name policy =
     (if trim name = [] then Some ''Mailbox name is required.''
      else if of_nat (sealedMailboxNameLength (trim name)) > maxMailboxNameLength policy
      then Some (''Mailbox name must be '' @ int_str (maxPlainMailboxNameLength (maxMailboxNameLength policy)) @
                 '' characters or fewer.'')
      else if of_nat (resolveMailboxNameDepth (trim name)) > maxMailboxDepth policy
      then Some (''Mailbox path exceeds the maximum depth of '' @ json_number env (maxMailboxDepth policy) @ ''.'')
      else None)"

definition validateMailboxCreate :: "json_env \<Rightarrow> string \<Rightarrow> nat \<Rightarrow> mail_server_policy \<Rightarrow> string option" where
  "validateMailboxCreate env name existingMailboxCount policy =
     (case validateMailboxName env name policy of
        Some nameError \<Rightarrow> Some nameError
      | None \<Rightarrow> if of_nat existingMailboxCount \<ge> maxMailboxes policy
                then Some (''You can create at most '' @ json_number env (maxMailboxes policy) @ '' mailboxes.'') else None)"

definition canCreateMailbox :: "nat \<Rightarrow> mail_server_policy \<Rightarrow> bool" where
  "canCreateMailbox existingMailboxCount policy \<longleftrightarrow> of_nat existingMailboxCount < maxMailboxes policy"

definition validateIdentityLimit :: "json_env \<Rightarrow> nat \<Rightarrow> mail_server_policy \<Rightarrow> string option" where
  "validateIdentityLimit env existingCount policy =
     (if of_nat existingCount \<ge> maxIdentities policy
      then Some (''This account supports at most '' @ json_number env (maxIdentities policy) @ '' identities.'') else None)"

definition getMissingDefaultFolderRoles :: "string option list \<Rightarrow> default_folder list \<Rightarrow> default_folder list" where
  "getMissingDefaultFolderRoles mailboxRoles folders =
     (let presentRoles = filter (\<lambda>role. role \<noteq> []) (map (\<lambda>role. case role of Some r \<Rightarrow> to_lower r | None \<Rightarrow> []) mailboxRoles)
      in filter (\<lambda>folder. df_role folder \<in> set REQUIRED_DEFAULT_FOLDER_ROLES \<and> df_create folder \<and>
           df_role folder \<notin> set presentRoles) folders)"

definition capIdentitiesForPicker :: "'a list \<Rightarrow> mail_server_policy \<Rightarrow> 'a list" where
  "capIdentitiesForPicker identities policy = take (nat \<lfloor>maxIdentities policy\<rfloor>) identities"

definition validateJmapRequestSize :: "(rat \<Rightarrow> string) \<Rightarrow> nat \<Rightarrow> mail_server_policy \<Rightarrow> string option" where
  "validateJmapRequestSize formatAttachmentByteLimit approximateBytes policy =
     (if of_nat approximateBytes \<le> maxRequestSizeBytes policy then None
      else Some (''Message is too large to save ('' @ formatAttachmentByteLimit (of_nat approximateBytes) @
        ''). The server limit is '' @ formatAttachmentByteLimit (maxRequestSizeBytes policy) @ ''.''))"

section \<open>Sizes of outgoing messages\<close>

definition OUTGOING_MESSAGE_OVERHEAD_BYTES :: nat where "OUTGOING_MESSAGE_OVERHEAD_BYTES = 4096"

text \<open>Of the attachments and the ciphertext only the sizes count.\<close>

record outgoing_size =
  os_subject :: "string option"
  os_textBody :: string
  os_htmlBody :: "string option"
  os_attachments :: "nat list"
  os_pgpMimeCiphertext :: "nat option"

definition byte_length :: "string option \<Rightarrow> nat" where
  "byte_length t = (case t of None \<Rightarrow> 0 | Some s \<Rightarrow> length (text_encode s))"

definition estimateOutgoingJmapMessageBytes :: "outgoing_size \<Rightarrow> nat" where
  "estimateOutgoingJmapMessageBytes input =
     (let subjectBytes = byte_length (os_subject input); attachmentBytes = sum_list (os_attachments input)
      in case os_pgpMimeCiphertext input of
           Some bytes \<Rightarrow> bytes + attachmentBytes + subjectBytes + OUTGOING_MESSAGE_OVERHEAD_BYTES
         | None \<Rightarrow> max (byte_length (Some (os_textBody input))) (byte_length (os_htmlBody input)) + attachmentBytes +
                   subjectBytes + OUTGOING_MESSAGE_OVERHEAD_BYTES)"

definition validateOutgoingMessageSize :: "(rat \<Rightarrow> string) \<Rightarrow> nat \<Rightarrow> rat option \<Rightarrow> string option" where
  "validateOutgoingMessageSize formatAttachmentByteLimit estimatedBytes limit =
     (case limit of None \<Rightarrow> None
      | Some m \<Rightarrow> if of_nat estimatedBytes \<le> m then None
                  else Some (''Message exceeds the '' @ formatAttachmentByteLimit m @ '' server limit.''))"

definition validateOutgoingJmapMessage ::
  "(rat \<Rightarrow> string) \<Rightarrow> outgoing_size \<Rightarrow> mail_server_policy option \<Rightarrow> string option" where
  "validateOutgoingJmapMessage fmt input policy =
     (case validateOutgoingMessageSize fmt (estimateOutgoingJmapMessageBytes input)
         (Option.bind policy (\<lambda>p. maxMessageSizeBytes (mp_limits p))) of
        Some messageError \<Rightarrow> Some messageError
      | None \<Rightarrow>
          (case policy of None \<Rightarrow> None
           | Some p \<Rightarrow> validateJmapRequestSize fmt (estimateOutgoingJmapMessageBytes
               \<lparr>os_subject = os_subject input, os_textBody = os_textBody input, os_htmlBody = os_htmlBody input,
                os_attachments = [], os_pgpMimeCiphertext = None\<rparr>) p))"

section \<open>Chunks\<close>

text \<open>The loop of both chunkings; the step is at least one at every call, slices truncate their bounds.\<close>

function chunk_loop :: "rat \<Rightarrow> rat \<Rightarrow> 'a list \<Rightarrow> 'a list list" where
  "chunk_loop step index items =
     (if 1 \<le> step \<and> index < of_nat (length items)
      then Prelude.slice (nat \<lfloor>index\<rfloor>) (nat \<lfloor>index + step\<rfloor>) items # chunk_loop step (index + step) items
      else [])"
  by pat_completeness auto

termination
proof (relation "measure (\<lambda>(step, index, items). nat \<lceil>of_nat (length items) - index\<rceil>)")
  fix step index :: rat and items :: "'a list"
  assume a: "1 \<le> step \<and> index < of_nat (length items)"
  have "\<lceil>of_nat (length items) - (index + step)\<rceil> \<le> \<lceil>of_nat (length items) - index - 1\<rceil>"
    using a by (intro ceiling_mono) simp
  then have "\<lceil>of_nat (length items) - (index + step)\<rceil> < \<lceil>of_nat (length items) - index\<rceil>"
    by (simp add: ceiling_diff_one)
  moreover have "0 < \<lceil>of_nat (length items) - index\<rceil>" using a by simp
  ultimately show "((step, index + step, items), step, index, items) \<in> measure (\<lambda>(step, index, items). nat \<lceil>of_nat (length items) - index\<rceil>)"
    by simp
qed simp

declare chunk_loop.simps [simp del]

definition chunkArray :: "'a list \<Rightarrow> rat \<Rightarrow> 'a list list" where
  "chunkArray items chunkSize = (if items = [] then [] else chunk_loop (max 1 chunkSize) 0 items)"

type_synonym method_call = "string \<times> jsval \<times> string"

definition paramsReferenceOtherCalls :: "json_env \<Rightarrow> jsval \<Rightarrow> string list \<Rightarrow> bool" where
  "paramsReferenceOtherCalls env params callIds \<longleftrightarrow>
     (let serialized = the (json_text env params)
      in str_includes serialized ''resultOf'' \<or>
         (\<exists>callId \<in> set callIds. str_includes serialized (CHR 0x22 # CHR ''#'' # callId)))"

definition jmapMethodCallsHaveDependencies :: "json_env \<Rightarrow> method_call list \<Rightarrow> bool" where
  "jmapMethodCallsHaveDependencies env methodCalls \<longleftrightarrow>
     (\<exists>call \<in> set methodCalls. paramsReferenceOtherCalls env (fst (snd call)) (map (\<lambda>c. snd (snd c)) methodCalls))"

definition chunkJmapMethodCalls :: "'a list \<Rightarrow> rat \<Rightarrow> 'a list list" where
  "chunkJmapMethodCalls methodCalls limit =
     (let chunkSize = max 1 limit
      in if of_nat (length methodCalls) \<le> chunkSize then [methodCalls] else chunk_loop chunkSize 0 methodCalls)"


section \<open>Chunks hold everything once, in order\<close>

lemma concat_chunk_loop: "0 \<le> index \<Longrightarrow> 1 \<le> step \<Longrightarrow> concat (chunk_loop step index items) = drop (nat \<lfloor>index\<rfloor>) items"
proof (induction step index items rule: chunk_loop.induct)
  case (1 step index items)
  show ?case
  proof (cases "index < of_nat (length items)")
    case True
    have le: "nat \<lfloor>index\<rfloor> \<le> nat \<lfloor>index + step\<rfloor>" using 1 by (intro nat_mono floor_mono) simp
    have "chunk_loop step index items =
        Prelude.slice (nat \<lfloor>index\<rfloor>) (nat \<lfloor>index + step\<rfloor>) items # chunk_loop step (index + step) items"
      using True 1 by (subst chunk_loop.simps) simp
    moreover have "concat (chunk_loop step (index + step) items) = drop (nat \<lfloor>index + step\<rfloor>) items"
      using 1 True by simp
    moreover have "take (b - a) (drop a items) @ drop b items = drop a items" if "a \<le> b" for a b
      using append_take_drop_id [of "b - a" "drop a items"] that by simp
    ultimately show ?thesis using le by (simp add: Prelude.slice_def)
  next
    case False
    then have "int (length items) \<le> \<lfloor>index\<rfloor>" by (simp add: le_floor_iff)
    then have "length items \<le> nat \<lfloor>index\<rfloor>" by linarith
    with False show ?thesis by (subst chunk_loop.simps) simp
  qed
qed

lemma chunk_loop_lengths:
  "0 \<le> index \<Longrightarrow> 1 \<le> step \<Longrightarrow> chunk \<in> set (chunk_loop step index items) \<Longrightarrow>
     chunk \<noteq> [] \<and> int (length chunk) \<le> \<lceil>step\<rceil>"
proof (induction step index items rule: chunk_loop.induct)
  case (1 step index items)
  then have less: "index < of_nat (length items)" by (subst (asm) (2) chunk_loop.simps) (auto split: if_splits)
  let ?first = "Prelude.slice (nat \<lfloor>index\<rfloor>) (nat \<lfloor>index + step\<rfloor>) items"
  have "chunk_loop step index items = ?first # chunk_loop step (index + step) items"
    using less 1 by (subst chunk_loop.simps) simp
  with 1 consider "chunk = ?first" | "chunk \<in> set (chunk_loop step (index + step) items)" by auto
  then show ?case
  proof cases
    case 1
    have "\<lfloor>index\<rfloor> + 1 \<le> \<lfloor>index + step\<rfloor>" using \<open>1 \<le> step\<close> floor_mono [of "index + 1" "index + step"] by simp
    moreover have "\<lfloor>index + step\<rfloor> \<le> \<lfloor>index\<rfloor> + \<lceil>step\<rceil>"
    proof -
      have "index + step < of_int (\<lfloor>index\<rfloor> + \<lceil>step\<rceil> + 1)" using le_of_int_ceiling [of step] floor_correct [of index] by simp linarith
      then show ?thesis by (simp add: floor_less_iff [symmetric] del: of_int_add)
    qed
    moreover have "\<lfloor>index\<rfloor> < int (length items)" using less by (simp add: floor_less_iff)
    moreover have "0 \<le> \<lfloor>index\<rfloor>" using \<open>0 \<le> index\<close> by simp
    ultimately have "nat \<lfloor>index\<rfloor> < nat \<lfloor>index + step\<rfloor>" "nat \<lfloor>index\<rfloor> < length items"
      "int (nat \<lfloor>index + step\<rfloor> - nat \<lfloor>index\<rfloor>) \<le> \<lceil>step\<rceil>"
      by linarith+
    moreover have "take (b - a) (drop a xs) \<noteq> [] \<and> int (length (take (b - a) (drop a xs))) \<le> n"
      if "a < b" "a < length xs" "int (b - a) \<le> n" for a b n and xs :: "'a list"
      using that by auto
    ultimately show ?thesis unfolding 1 Prelude.slice_def by blast
  next
    case 2
    with "1.IH" "1.prems" less show ?thesis by simp
  qed
qed

text \<open>Splitting work into chunks loses, repeats and reorders nothing: the chunks joined are the items,
  no chunk is empty, and for a whole number as the size no chunk is longer; so for the method calls of
  a request, except that no calls give one empty chunk.\<close>

lemma chunks_partition:
  "concat (chunkArray items n) = items \<and>
   (\<forall>chunk \<in> set (chunkArray items n). chunk \<noteq> [] \<and> int (length chunk) \<le> max 1 \<lceil>n\<rceil>) \<and>
   concat (chunkJmapMethodCalls calls n) = calls \<and>
   (\<forall>chunk \<in> set (chunkJmapMethodCalls calls n). int (length chunk) \<le> max 1 \<lceil>n\<rceil>)"
proof -
  have ceiling: "\<lceil>max 1 n\<rceil> = max 1 \<lceil>n\<rceil>" by (simp add: max_def) linarith
  have "int (length calls) \<le> max 1 \<lceil>n\<rceil>" if "of_nat (length calls) \<le> max 1 n"
    using that ceiling by (metis ceiling_mono ceiling_of_nat)
  moreover note chunk_loop_lengths [of 0 "max 1 n" _ items] chunk_loop_lengths [of 0 "max 1 n" _ calls]
  ultimately show ?thesis
    by (auto simp: chunkArray_def chunkJmapMethodCalls_def Let_def concat_chunk_loop ceiling)
qed

lemma chunks_partition_witness:
  "concat (chunkArray [1 :: nat, 2, 3, 4, 5] 2) = [1, 2, 3, 4, 5] \<and> chunkArray [1 :: nat, 2, 3, 4, 5] 2 = [[1, 2], [3, 4], [5]]"
  using chunks_partition [of "[1 :: nat, 2, 3, 4, 5]" 2 "[] :: nat list"]
  by (simp add: chunkArray_def chunk_loop.simps Prelude.slice_def)

section \<open>The policy is usable whatever the server sends\<close>

lemma resolvePositiveInt_pos: "0 < fallback \<Longrightarrow> 0 < resolvePositiveInt candidates fallback"
  by (induction candidates fallback rule: resolvePositiveInt.induct) (auto split: option.splits)

lemma to_double_nonneg: "0 \<le> q \<Longrightarrow> 0 \<le> to_double q"
proof -
  assume q: "0 \<le> q"
  let ?x = "q / 2 powi (binary_exponent q - 52)"
  have "0 \<le> \<lfloor>?x\<rfloor>" using q by simp
  then have "0 \<le> round_half_even ?x" by (simp add: round_half_even_def Let_def)
  then show ?thesis using q by (simp add: to_double_def Let_def)
qed

lemma positive_integer_pos: "positive_integer v = Some q \<Longrightarrow> 0 < q"
  by (auto simp: positive_integer_def split: jsval.splits if_splits)

lemma parsed_size_nonneg: "parseStalwartSizeBytes v = Some q \<Longrightarrow> 0 \<le> q"
proof -
  assume q: "parseStalwartSizeBytes v = Some q"
  have "0 \<le> multiplier" if "map_of SIZE_UNIT_MULTIPLIERS u = Some multiplier" for u multiplier
    using that by (auto simp: SIZE_UNIT_MULTIPLIERS_def split: if_splits)
  moreover have "0 \<le> a" if "positive_amount s = Some a" for s a
    using that by (auto simp: positive_amount_def split: option.splits if_splits)
  ultimately show ?thesis
    using q positive_integer_pos [of v q]
    by (auto simp: parseStalwartSizeBytes_def to_double_nonneg split: option.splits if_splits prod.splits)
qed

lemma first_nonzero_cases: "first_nonzero qs = Some q \<Longrightarrow> Some q \<in> set qs \<and> q \<noteq> 0"
  by (induction qs) (auto split: if_splits)


text \<open>Rounding to a double changes a positive number by less than a part in \<open>2 ^ 53\<close>.\<close>

lemma binary_exponent_le:
  assumes "0 < q"
  shows "2 powi binary_exponent q \<le> q"
proof -
  obtain n d where nd: "quotient_of q = (n, d)" by (cases "quotient_of q")
  let ?a = "floorlog 2 (nat n)" and ?b = "floorlog 2 (nat d)"
  have d: "0 < d" using nd by (rule quotient_of_denom_pos)
  have q: "q = of_int n / of_int d" using nd by (rule quotient_of_div)
  then have n: "0 < n" using assms d by (simp add: zero_less_divide_iff)
  have a: "2 ^ (?a - 1) \<le> nat n" "0 < ?a" and b: "nat d < 2 ^ ?b"
    using n d floorlog_bounds [of "nat n" 2] floorlog_bounds [of "nat d" 2] by (auto simp: floorlog_def)
  have "(2 :: rat) powi (int ?a - int ?b - 1) = 2 powi int (?a - 1) / 2 powi int ?b"
    using a(2) by (subst power_int_diff [symmetric]) (simp_all add: algebra_simps of_nat_diff)
  then have "(2 :: rat) powi (int ?a - int ?b - 1) = 2 ^ (?a - 1) / 2 ^ ?b" by simp
  also have "\<dots> \<le> of_int n / 2 ^ ?b"
  proof -
    have "of_nat (2 ^ (?a - 1)) \<le> (of_nat (nat n) :: rat)" using a(1) by (rule of_nat_mono)
    then show ?thesis using n by (simp add: divide_right_mono)
  qed
  also have "\<dots> \<le> q"
  proof -
    have "of_nat (nat d) \<le> (of_nat (2 ^ ?b) :: rat)" using b by (intro of_nat_mono) simp
    then show ?thesis unfolding q using n d by (intro divide_left_mono) simp_all
  qed
  finally show ?thesis by (simp add: binary_exponent_def nd Let_def)
qed

lemma to_double_error:
  assumes "0 < q"
  shows "\<bar>to_double q - q\<bar> \<le> q / 2 ^ 53"
proof -
  let ?e = "binary_exponent q"
  let ?u = "2 powi (?e - 52) :: rat"
  have u: "0 < ?u" by simp
  have "\<bar>of_int (round_half_even x) - x\<bar> \<le> 1 / 2" for x
    using floor_correct [of x] by (auto simp: round_half_even_def Let_def abs_le_iff)
  from this [of "q / ?u"] have "\<bar>of_int (round_half_even (q / ?u)) - q / ?u\<bar> * ?u \<le> 1 / 2 * ?u"
    using u by (intro mult_right_mono) simp_all
  also have "\<bar>of_int (round_half_even (q / ?u)) - q / ?u\<bar> * ?u = \<bar>to_double q - q\<bar>"
  proof -
    have "\<bar>a - q / t\<bar> * t = \<bar>a * t - q\<bar>" if "0 < t" for a t :: rat
      using that by (simp add: abs_mult_pos left_diff_distrib)
    from this [OF u] show ?thesis using assms by (simp add: to_double_def Let_def)
  qed
  also have "1 / 2 * ?u = 2 powi ?e / 2 ^ 53" by (simp add: power_int_diff)
  also have "\<dots> \<le> q / 2 ^ 53" using binary_exponent_le [OF assms] by (simp add: divide_right_mono)
  finally show ?thesis .
qed

lemma floor_double_quotient:
  assumes "0 < x" "x < 2 ^ 50"
  shows "of_int \<lfloor>to_double (of_int x / SEALED_COPY_EXPANSION)\<rfloor> * SEALED_COPY_EXPANSION \<le> of_int x"
proof (rule ccontr)
  let ?q = "of_int x / SEALED_COPY_EXPANSION" and ?m = "\<lfloor>to_double (of_int x / SEALED_COPY_EXPANSION)\<rfloor>"
  assume "\<not> ?thesis"
  then have "of_int (8 * x) < (of_int (15 * ?m) :: rat)" by (simp add: SEALED_COPY_EXPANSION_def)
  then have "8 * x + 1 \<le> 15 * ?m" by (simp only: of_int_less_iff)
  then have "(of_int (8 * x + 1) :: rat) \<le> of_int (15 * ?m)" by (simp only: of_int_le_iff)
  then have m: "?q + 1 / 15 \<le> of_int ?m" by (simp add: SEALED_COPY_EXPANSION_def)
  have "0 < ?q" using assms by (simp add: SEALED_COPY_EXPANSION_def)
  then have "to_double ?q \<le> ?q + ?q / 2 ^ 53" using to_double_error [of ?q] by (simp add: abs_le_iff)
  moreover have "?q / 2 ^ 53 < 1 / 15"
  proof -
    have "(of_int x :: rat) < of_int (2 ^ 50)" using assms(2) by (simp only: of_int_less_iff)
    then show ?thesis by (simp add: SEALED_COPY_EXPANSION_def)
  qed
  ultimately have "to_double ?q < of_int ?m" using m by linarith
  then show False using of_int_floor_le [of "to_double ?q"] by simp
qed


text \<open>What the deployment configures is not negative; the server is not trusted to send anything sensible.\<close>

definition config_ok :: "config_limits option \<Rightarrow> bool" where
  "config_ok config \<longleftrightarrow>
     (\<forall>c q. config = Some c \<and> Some q \<in> {cl_maxBlobUploadBytes c, cl_maxAttachmentSizeBytes c, cl_maxMessageSizeBytes c} \<longrightarrow> 0 \<le> q)"

text \<open>The limit of one message: the server's, or the default when it gives none.\<close>

definition message_limit :: "mail_server_limits \<Rightarrow> rat" where
  "message_limit l = (case maxMessageSizeBytes l of Some q \<Rightarrow> q | None \<Rightarrow> DEFAULT_MAX_MESSAGE_BYTES)"

definition limits_ok :: "mail_server_limits \<Rightarrow> bool" where
  "limits_ok l \<longleftrightarrow> 0 < maxBlobUploadBytes l \<and> (\<forall>q. maxAttachmentSizeBytes l = Some q \<longrightarrow> 0 < q) \<and>
     (\<forall>q. maxMessageSizeBytes l = Some q \<longrightarrow> 0 < q) \<and> 0 \<le> maxOutgoingAttachmentBytes l \<and>
     (\<forall>q. maxAttachmentSizeBytes l = Some q \<longrightarrow> maxOutgoingAttachmentBytes l \<le> q) \<and>
     maxOutgoingAttachmentBytes l \<le> maxBlobUploadBytes l \<and> maxOutgoingAttachmentBytes l \<le> message_limit l"

lemma double_quotient_le:
  assumes "0 < q"
  shows "of_int \<lfloor>to_double (q / SEALED_COPY_EXPANSION)\<rfloor> \<le> q"
proof -
  have "0 < q / SEALED_COPY_EXPANSION" using assms by (simp add: SEALED_COPY_EXPANSION_def)
  from to_double_error [OF this]
  have "to_double (q / SEALED_COPY_EXPANSION) \<le> q / SEALED_COPY_EXPANSION + q / SEALED_COPY_EXPANSION / 2 ^ 53"
    by (simp add: abs_le_iff)
  also have "\<dots> \<le> q" using assms by (simp add: SEALED_COPY_EXPANSION_def)
  finally have "to_double (q / SEALED_COPY_EXPANSION) \<le> q" .
  then show ?thesis using of_int_floor_le order_trans by blast
qed

lemma first_nonzero_pos:
  "first_nonzero qs = Some q \<Longrightarrow> (\<And>p. Some p \<in> set qs \<Longrightarrow> 0 \<le> p) \<Longrightarrow> 0 < q"
  using first_nonzero_cases [of qs q] by force

lemma config_nonneg:
  assumes "config_ok (ls_configLimits source)"
  shows "config_of cl_maxBlobUploadBytes source = Some q \<Longrightarrow> 0 \<le> q"
    "config_of cl_maxAttachmentSizeBytes source = Some q \<Longrightarrow> 0 \<le> q"
    "config_of cl_maxMessageSizeBytes source = Some q \<Longrightarrow> 0 \<le> q"
  using assms by (auto simp: config_ok_def config_of_def bind_eq_Some_conv)

lemma session_upload_pos: "session_upload_limit session = Some q \<Longrightarrow> 0 < q"
  by (auto simp: session_upload_limit_def dest: positive_integer_pos split: jsval.splits option.splits if_splits)

lemma outgoing_limit_least:
  assumes "l = resolveMailServerLimits source"
    and "q \<in> set (outgoing_candidates (maxBlobUploadBytes l) (maxAttachmentSizeBytes l) (maxMessageSizeBytes l))"
  shows "maxOutgoingAttachmentBytes l \<le> q"
  using assms by (auto simp: resolveMailServerLimits_def Let_def intro: Min_le)

lemma resolved_limits_ok:
  assumes "config_ok (ls_configLimits source)"
  shows "limits_ok (resolveMailServerLimits source)"
proof -
  note nonneg = config_nonneg [OF assms] parsed_size_nonneg order_less_imp_le [OF session_upload_pos]
  have blob: "0 < resolveMaxBlobUploadBytes source"
    by (auto simp: resolveMaxBlobUploadBytes_def blob_upload_candidates_def DEFAULT_MAX_BLOB_UPLOAD_BYTES_def simp del: first_nonzero.simps
        intro: nonneg nonneg [OF sym] elim!: first_nonzero_pos split: option.split)
  have attachment: "0 < q" if "resolveAttachmentSizeBytes source = Some q" for q
    using that by (auto simp: resolveAttachmentSizeBytes_def DEFAULT_MAX_ATTACHMENT_BYTES_def simp del: first_nonzero.simps
        intro: nonneg nonneg [OF sym] elim!: first_nonzero_pos split: option.splits if_splits)
  have message: "0 < q" if "resolveMessageSizeBytes source = Some q" for q
    using that by (auto simp: resolveMessageSizeBytes_def simp del: first_nonzero.simps intro: nonneg nonneg [OF sym] elim!: first_nonzero_pos)
  have nonneg_candidates: "0 \<le> q" if "q \<in> set (outgoing_candidates (resolveMaxBlobUploadBytes source)
      (resolveAttachmentSizeBytes source) (resolveMessageSizeBytes source))" for q
    using that blob attachment message
    by (auto simp: outgoing_candidates_def SEALED_COPY_EXPANSION_def DEFAULT_MAX_MESSAGE_BYTES_def less_imp_le
        intro!: to_double_nonneg split: option.splits if_splits)
  have candidates: "outgoing_candidates b a m \<noteq> []" for b a m by (simp add: outgoing_candidates_def)
  have "maxOutgoingAttachmentBytes (resolveMailServerLimits source) \<le> q" if "resolveAttachmentSizeBytes source = Some q" for q
    using that attachment [OF that]
    by (intro outgoing_limit_least [OF refl]) (simp add: resolveMailServerLimits_def Let_def outgoing_candidates_def)
  moreover have "maxOutgoingAttachmentBytes (resolveMailServerLimits source) \<le> resolveMaxBlobUploadBytes source"
    by (rule order_trans [OF outgoing_limit_least [OF refl] double_quotient_le [OF blob]])
      (simp add: resolveMailServerLimits_def Let_def outgoing_candidates_def)
  moreover have "maxOutgoingAttachmentBytes (resolveMailServerLimits source) \<le>
      message_limit (resolveMailServerLimits source)"
  proof (rule order_trans [OF outgoing_limit_least [OF refl] double_quotient_le])
    show "0 < message_limit (resolveMailServerLimits source)"
      using message by (auto simp: message_limit_def resolveMailServerLimits_def Let_def DEFAULT_MAX_MESSAGE_BYTES_def
          split: option.split)
  qed (simp add: outgoing_candidates_def message_limit_def)
  ultimately show ?thesis using blob attachment message nonneg_candidates
    by (auto simp: limits_ok_def resolveMailServerLimits_def Let_def candidates)
qed

text \<open>C35: Whatever the mail server and the settings endpoint send, and with any configuration that is not
  negative, the policy is usable: every limit is positive, so pages, chunks and pools make progress,
  the outgoing limit is at most the attachment limit, the upload limit and the limit of one message (the
  default one when the server gives none), and there is a default folder.\<close>

theorem server_policy_is_usable:
  assumes "config_ok (configured_limits source)"
  shows "case resolveMailServerPolicy source of p \<Rightarrow>
    limits_ok (mp_limits p) \<and> defaultFolders p \<noteq> [] \<and>
    (\<forall>field \<in> {maxMailboxDepth, maxMailboxNameLength, maxMailboxes, maxIdentities, getMaxResults, queryMaxResults,
        maxMethodCalls, maxConcurrentUploads, maxRequestSizeBytes, uploadTtlMs}. 0 < field p) \<and>
    0 < resolveMailboxMessagesPageSize p preferred \<and> 0 < resolveMailboxSearchPageSize p preferred"
proof -
  have "parseStalwartDefaultFolders v \<noteq> []" for v
    by (auto simp: parseStalwartDefaultFolders_def getBuiltinDefaultFolders_def Let_def split: jsval.split)
  moreover have "getBuiltinDefaultFolders \<noteq> []" by (simp add: getBuiltinDefaultFolders_def)
  ultimately have folders: "defaultFolders (resolveMailServerPolicy source) \<noteq> []"
    by (auto simp: resolveMailServerPolicy_def Let_def split: option.split list.split)
  have "limits_ok (mp_limits (resolveMailServerPolicy source))"
    using assms by (simp add: resolveMailServerPolicy_def Let_def resolved_limits_ok)
  with folders show ?thesis
    by (auto simp: resolveMailServerPolicy_def Let_def resolveMailboxMessagesPageSize_def resolveMailboxSearchPageSize_def
        DEFAULT_MAX_MAILBOX_DEPTH_def DEFAULT_MAX_MAILBOX_NAME_LENGTH_def DEFAULT_MAX_MAILBOXES_def DEFAULT_MAX_IDENTITIES_def
        DEFAULT_JMAP_GET_MAX_RESULTS_def DEFAULT_JMAP_QUERY_MAX_RESULTS_def DEFAULT_JMAP_MAX_METHOD_CALLS_def
        DEFAULT_JMAP_MAX_CONCURRENT_UPLOADS_def DEFAULT_JMAP_MAX_REQUEST_SIZE_BYTES_def DEFAULT_JMAP_UPLOAD_TTL_MS_def
        simp del: resolvePositiveInt.simps intro!: resolvePositiveInt_pos)
qed

text \<open>What an attachment limit by the factor leaves room for. The limits are whole numbers of bytes below a
  pebibyte; the division is the one of doubles.\<close>

lemma outgoing_limit_scaled:
  assumes limits: "l = resolveMailServerLimits source" "config_ok (ls_configLimits source)"
    and whole: "maxBlobUploadBytes l = of_int blob" "blob < 2 ^ 50" "message_limit l = of_int message" "message < 2 ^ 50"
    and size: "n \<le> maxOutgoingAttachmentBytes l"
  shows "n * SEALED_COPY_EXPANSION \<le> of_int blob" "n * SEALED_COPY_EXPANSION \<le> of_int message"
proof -
  have ok: "limits_ok l" using limits resolved_limits_ok by simp
  then have pos: "0 < blob" "0 < message"
    using whole by (auto simp: limits_ok_def message_limit_def DEFAULT_MAX_MESSAGE_BYTES_def split: option.splits)
  note least = order_trans [OF size outgoing_limit_least [OF limits(1)]]
  have "n \<le> of_int \<lfloor>to_double (of_int blob / SEALED_COPY_EXPANSION)\<rfloor>"
    "n \<le> of_int \<lfloor>to_double (of_int message / SEALED_COPY_EXPANSION)\<rfloor>"
    by (rule least; simp add: outgoing_candidates_def whole(1) whole(3) [symmetric] message_limit_def)+
  then have "n * SEALED_COPY_EXPANSION \<le> of_int \<lfloor>to_double (of_int blob / SEALED_COPY_EXPANSION)\<rfloor> * SEALED_COPY_EXPANSION"
    "n * SEALED_COPY_EXPANSION \<le> of_int \<lfloor>to_double (of_int message / SEALED_COPY_EXPANSION)\<rfloor> * SEALED_COPY_EXPANSION"
    by (simp_all add: SEALED_COPY_EXPANSION_def)
  with floor_double_quotient [OF pos(1) whole(2)] floor_double_quotient [OF pos(2) whole(4)]
  show "n * SEALED_COPY_EXPANSION \<le> of_int blob" "n * SEALED_COPY_EXPANSION \<le> of_int message"
    by (auto intro: order_trans)
qed


section \<open>Folder names\<close>

text \<open>C37: A folder is accepted exactly when its name is not blank and, sealed as it is sent, fits the limit of the server, has
  at most the allowed depth and there is room for one more; and for printable ASCII names without
  quotes and backslashes the length in the message is the exact limit.\<close>

theorem accepted_folder_name_fits:
  assumes laws: "crypto_laws c" "gcm_length c"
    and sealed: "seal_name c k (trim name) rng = (Inr s, rng')"
  shows "(validateMailboxCreate env name existing policy = None \<longleftrightarrow>
      trim name \<noteq> [] \<and> of_nat (length s) \<le> maxMailboxNameLength policy \<and>
      of_nat (resolveMailboxNameDepth name) \<le> maxMailboxDepth policy \<and> canCreateMailbox existing policy) \<and>
    (list_all plain_char (trim name) \<and> trim name \<noteq> [] \<and> maxMailboxNameLength policy = of_int limit \<longrightarrow>
      (of_nat (length s) \<le> maxMailboxNameLength policy \<longleftrightarrow>
       int (length (trim name)) \<le> maxPlainMailboxNameLength (maxMailboxNameLength policy)))"
proof (intro conjI impI)
  have len: "length s = sealedMailboxNameLength (trim name)"
    using name_limit_is_exact [OF laws] sealed by blast
  have depth: "resolveMailboxNameDepth (trim name) = resolveMailboxNameDepth name"
    by (simp add: resolveMailboxNameDepth_def trim_trim)
  show "validateMailboxCreate env name existing policy = None \<longleftrightarrow>
      trim name \<noteq> [] \<and> of_nat (length s) \<le> maxMailboxNameLength policy \<and>
      of_nat (resolveMailboxNameDepth name) \<le> maxMailboxDepth policy \<and> canCreateMailbox existing policy"
    by (auto simp: validateMailboxCreate_def validateMailboxName_def canCreateMailbox_def len depth not_less not_le
        split: option.splits)
  assume plain: "list_all plain_char (trim name) \<and> trim name \<noteq> [] \<and> maxMailboxNameLength policy = of_int limit"
  then have "of_nat (length s) \<le> maxMailboxNameLength policy \<longleftrightarrow> int (length s) \<le> limit"
    by (metis of_int_le_iff of_int_of_nat_eq)
  with name_limit_is_exact [OF laws] plain
  show "of_nat (length s) \<le> maxMailboxNameLength policy \<longleftrightarrow>
      int (length (trim name)) \<le> maxPlainMailboxNameLength (maxMailboxNameLength policy)"
    unfolding len by simp
qed

text \<open>A cipher of the exact length, and settings no limit can be read from.\<close>

definition length_crypto :: "(byte list, nat) web_crypto" where
  "length_crypto = demo_crypto
     \<lparr>wc_encrypt := (\<lambda>iv aad k m. Some (m @ replicate MAILBOX_TAG_BYTES 0)),
      wc_decrypt := (\<lambda>iv aad k x. Some (take (length x - MAILBOX_TAG_BYTES) x))\<rparr>"

lemma length_crypto_laws: "crypto_laws length_crypto" "gcm_length length_crypto"
  using demo_crypto_laws by (auto simp: crypto_laws_def gcm_length_def length_crypto_def)

definition odd_settings :: policy_source where
  "odd_settings = \<lparr>ls_session = JStr ''gone'',
     ls_emailSettings = JObj [(''maxMailboxDepth'', JStr ''0''), (''maxMessageSize'', JStr ''-3 MB''), (''defaultFolders'', JNum 4)],
     ls_jmapSettings = JObj [(''getMaxResults'', JNum (-1)), (''uploadTtl'', JStr ''0.5 h'')],
     ls_configLimits = None, ps_configPolicy = None\<rparr>"

lemma floor_double_ge: "0 < q \<Longrightarrow> of_int m \<le> q - q / 2 ^ 53 \<Longrightarrow> m \<le> \<lfloor>to_double q\<rfloor>"
proof -
  assume q: "0 < q" "of_int m \<le> q - q / 2 ^ 53"
  have "q - to_double q \<le> q / 2 ^ 53" using to_double_error [OF q(1)] by (rule order_trans [OF abs_ge_minus_self [of "to_double q - q", simplified minus_diff_eq]])
  with q(2) show ?thesis unfolding le_floor_iff by linarith
qed

definition no_settings :: limits_source where
  "no_settings = \<lparr>ls_session = JNull, ls_emailSettings = JNull, ls_jmapSettings = JNull, ls_configLimits = None\<rparr>"

lemma default_limits:
  "maxBlobUploadBytes (resolveMailServerLimits no_settings) = 50000000"
  "maxAttachmentSizeBytes (resolveMailServerLimits no_settings) = Some 50000000"
  "maxMessageSizeBytes (resolveMailServerLimits no_settings) = None"
  by (simp_all add: resolveMailServerLimits_def no_settings_def Let_def resolveMaxBlobUploadBytes_def blob_upload_candidates_def
      session_upload_limit_def parseStalwartSizeBytes_def positive_integer_def config_of_def resolveAttachmentSizeBytes_def
      hasBlobUploadLimitSource_def resolveMessageSizeBytes_def DEFAULT_MAX_BLOB_UPLOAD_BYTES_def DEFAULT_MAX_ATTACHMENT_BYTES_def)

lemma default_outgoing_limit: "26666666 \<le> maxOutgoingAttachmentBytes (resolveMailServerLimits no_settings)"
proof -
  have "26666666 \<le> \<lfloor>to_double (50000000 / SEALED_COPY_EXPANSION)\<rfloor>" "26666666 \<le> \<lfloor>to_double (75000000 / SEALED_COPY_EXPANSION)\<rfloor>"
    by (intro floor_double_ge; simp add: SEALED_COPY_EXPANSION_def)+
  then have candidates: "\<And>q. q \<in> set (outgoing_candidates 50000000 (Some 50000000) None) \<Longrightarrow> 26666666 \<le> q"
    by (auto simp: outgoing_candidates_def DEFAULT_MAX_MESSAGE_BYTES_def split: if_splits)
  have outgoing: "maxOutgoingAttachmentBytes (resolveMailServerLimits no_settings) =
      Min (set (outgoing_candidates 50000000 (Some 50000000) None))"
    using default_limits by (simp add: resolveMailServerLimits_def Let_def)
  show ?thesis
    unfolding outgoing using candidates by (intro Min.boundedI) (simp_all add: outgoing_candidates_def)
qed

lemma default_config_ok: "config_ok (ls_configLimits no_settings)"
  by (simp add: config_ok_def no_settings_def)

theorem server_policy_is_usable_witness:
  "defaultFolders (resolveMailServerPolicy odd_settings) \<noteq> [] \<and> 0 < getMaxResults (resolveMailServerPolicy odd_settings) \<and>
   0 < resolveMailboxSearchPageSize (resolveMailServerPolicy odd_settings) (-3)"
proof -
  have "config_ok (configured_limits odd_settings)" by (simp add: config_ok_def configured_limits_def odd_settings_def)
  from server_policy_is_usable [OF this, of "-3"] show ?thesis by simp
qed

lemma odd_limits:
  "maxMailboxNameLength (resolveMailServerPolicy odd_settings) = 255" "maxMailboxDepth (resolveMailServerPolicy odd_settings) = 10"
  "maxMailboxes (resolveMailServerPolicy odd_settings) = 250"
proof -
  have "trim ''0'' = ''0''" "nat_of_digits ''0'' = 0" by code_simp+
  then show "maxMailboxNameLength (resolveMailServerPolicy odd_settings) = 255" "maxMailboxDepth (resolveMailServerPolicy odd_settings) = 10"
    "maxMailboxes (resolveMailServerPolicy odd_settings) = 250"
    by (simp_all add: resolveMailServerPolicy_def Let_def odd_settings_def parsePositiveInt_def positive_integer_def to_double_def
        DEFAULT_MAX_MAILBOX_NAME_LENGTH_def DEFAULT_MAX_MAILBOX_DEPTH_def DEFAULT_MAX_MAILBOXES_def)
qed

theorem accepted_folder_name_fits_witness:
  "\<exists>s rng'. seal_name length_crypto [1] (trim '' Receipts 2025 '') 0 = (Inr s, rng') \<and> length s \<le> 255 \<and>
     validateMailboxCreate (json_texts length_crypto) '' Receipts 2025 '' 3 (resolveMailServerPolicy odd_settings) = None"
proof -
  have name: "trim '' Receipts 2025 '' \<noteq> []" "sealedMailboxNameLength (trim '' Receipts 2025 '') \<le> 255"
    "resolveMailboxNameDepth '' Receipts 2025 '' \<le> 10"
    by code_simp+
  obtain s rng' where s: "seal_name length_crypto [1] (trim '' Receipts 2025 '') 0 = (Inr s, rng')"
    by (cases "seal_name length_crypto [1] (trim '' Receipts 2025 '') 0")
      (auto simp: seal_name_def encryptJsonPayload_def length_crypto_def demo_crypto_def Let_def split: prod.splits)
  then have len: "length s \<le> 255" using name_limit_is_exact [OF length_crypto_laws] name(2) by fastforce
  moreover have "validateMailboxCreate (json_texts length_crypto) '' Receipts 2025 '' 3 (resolveMailServerPolicy odd_settings) = None"
    using conjunct1 [OF accepted_folder_name_fits [OF length_crypto_laws s], of "json_texts length_crypto" 3 "resolveMailServerPolicy odd_settings"]
      name len by (simp add: odd_limits canCreateMailbox_def)
  ultimately show ?thesis using s by blast
qed

end
