(* ===== verification/JmapSend.thy ===== *)
theory JmapSend
  imports MailPolicy MailAddresses BlobRegistry E2eePayloads
begin

text \<open>
  Sending mail, storing drafts, moving and deleting messages over JMAP:
  \<open>packages/calendar-core/src/mail-jmap-email-set.ts\<close>, the response checks of
  \<open>packages/calendar-core/src/mail-jmap-validation.ts\<close> and the \<open>call\<close> method of the mail clients. The mail
  server is a function from requests to responses on a state of its own.
\<close>

section \<open>Responses\<close>

text \<open>A property of a response that is declared a string; anything else counts as absent.\<close>

definition text_prop :: "jsval \<Rightarrow> string \<Rightarrow> string" where
  "text_prop v k = (case js_get v k of JStr s \<Rightarrow> s | _ \<Rightarrow> [])"

definition error_properties :: "jsval \<Rightarrow> string list" where
  "error_properties error = (case js_get error ''properties'' of JArr xs \<Rightarrow> List.map_filter str_of xs | _ \<Rightarrow> [])"

definition formatJmapMethodError :: "string \<Rightarrow> jsval \<Rightarrow> string" where
  "formatJmapMethodError methodName error =
     (let propsHint = (if error_properties error \<noteq> []
            then '' (properties: '' @ join_with '', '' (error_properties error) @ '')'' else []);
          typ = text_prop error ''type''; description = text_prop error ''description'';
          typeHint = (if typ \<noteq> [] then '' ['' @ typ @ '']'' else [])
      in (if description \<noteq> [] then description else if typ \<noteq> [] then typ else ''Failed during '' @ methodName) @
         typeHint @ propsHint)"

definition firstPatchError :: "jsval \<Rightarrow> jsval option" where
  "firstPatchError patch =
     (let values = (case patch of JObj ps \<Rightarrow> map snd ps | JArr xs \<Rightarrow> xs | _ \<Rightarrow> [])
      in case values of first # _ \<Rightarrow> if is_object first then Some first else None | [] \<Rightarrow> None)"

text \<open>\<open>a ?? b ?? c\<close> of the three patches of a result.\<close>

definition patch_error :: "jsval \<Rightarrow> jsval option" where
  "patch_error result =
     (case firstPatchError (js_get result ''notCreated'') of Some e \<Rightarrow> Some e
      | None \<Rightarrow> (case firstPatchError (js_get result ''notDestroyed'') of Some e \<Rightarrow> Some e
        | None \<Rightarrow> firstPatchError (js_get result ''notUpdated'')))"

text \<open>A result that is \<open>null\<close> or missing makes the reading of its properties throw (\<open>Inl\<close>).\<close>

definition TYPE_ERROR :: string where "TYPE_ERROR = ''TypeError''"

fun find_response_error :: "string \<Rightarrow> method_call list \<Rightarrow> string + string option" where
  "find_response_error ctx [] = Inr None"
| "find_response_error ctx ((methodName, result, _) # responses) =
     (if nullish result then Inl TYPE_ERROR
      else if methodName = ''error'' \<or> ends_with methodName ''/error''
      then Inr (Some (formatJmapMethodError (if methodName = ''error'' then ctx else methodName) result))
      else case patch_error result of
        Some e \<Rightarrow> Inr (Some (formatJmapMethodError methodName e))
      | None \<Rightarrow> find_response_error ctx responses)"

type_synonym envelope = "method_call list option"

definition findJmapResponseError :: "envelope \<Rightarrow> string \<Rightarrow> string + string option" where
  "findJmapResponseError envelope ctx =
     (let responses = (case envelope of Some rs \<Rightarrow> rs | None \<Rightarrow> [])
      in case find_response_error ctx responses of
           Inr None \<Rightarrow> if responses \<noteq> [] then Inr None
                   else Inr (Some (ctx @ '': JMAP response did not include method results.''))
         | r \<Rightarrow> r)"

definition assertSuccessfulJmapResponses :: "envelope \<Rightarrow> string \<Rightarrow> string + unit" where
  "assertSuccessfulJmapResponses envelope ctx =
     (case findJmapResponseError envelope ctx of Inl e \<Rightarrow> Inl e | Inr (Some e) \<Rightarrow> Inl e | Inr None \<Rightarrow> Inr ())"

section \<open>Messages as method calls\<close>

definition SENT_COPY_CREATION_ID :: string where "SENT_COPY_CREATION_ID = ''sent1''"
definition MAIL_CAPABILITIES :: "string list" where
  "MAIL_CAPABILITIES = [''urn:ietf:params:jmap:core'', ''urn:ietf:params:jmap:mail'']"

text \<open>An absent list of addresses or references is empty here: every reader tests \<open>length\<close>.\<close>

record outgoing_headers =
  oh_fromEmail :: string
  oh_fromName :: "string option"
  oh_to :: "string list"
  oh_cc :: "string list"
  oh_bcc :: "string list"
  oh_subject :: string

record outgoing_message = outgoing_headers +
  om_draftsMailboxId :: string
  om_sentMailboxId :: "string option"
  om_textBody :: string
  om_htmlBody :: "string option"
  om_identityId :: string
  om_attachments :: "jmap_attachment list"
  om_pgpMimeCiphertext :: "jmap_ciphertext option"
  om_sentCopyCiphertext :: "jmap_ciphertext option"
  om_inReplyTo :: "string list"
  om_references :: "string list"
  om_previousDraftId :: "string option"

record jmap_draft = outgoing_headers +
  jd_draftsMailboxId :: string
  jd_ciphertext :: jmap_ciphertext
  jd_previousDraftId :: "string option"

text \<open>\<open>...(condition ? fields : {})\<close>; a string that is absent or empty is falsy.\<close>

definition given :: "bool \<Rightarrow> js_object \<Rightarrow> js_object" where
  "given condition ps = (if condition then ps else [])"

definition truthy_text :: "string option \<Rightarrow> bool" where
  "truthy_text t \<longleftrightarrow> t \<notin> {None, Some []}"

definition toJmapAddressList :: "string list \<Rightarrow> parsed_mail_address list" where
  "toJmapAddressList addresses = map parseRecipientString addresses"

definition address_value :: "parsed_mail_address \<Rightarrow> jsval" where
  "address_value a = JObj ([(''email'', JStr (pa_email a))] @
     (case pa_name a of Some n \<Rightarrow> [(''name'', JStr n)] | None \<Rightarrow> []))"

definition address_list :: "string list \<Rightarrow> jsval" where
  "address_list addresses = JArr (map address_value (toJmapAddressList addresses))"

definition buildEmailHeaders :: "'a outgoing_headers_scheme \<Rightarrow> js_object" where
  "buildEmailHeaders input =
     (let fromName = trim (text_of (oh_fromName input))
      in [(''from'', JArr [JObj ([(''email'', JStr (oh_fromEmail input))] @ given (fromName \<noteq> []) [(''name'', JStr fromName)])]),
          (''to'', address_list (oh_to input))] @
         given (oh_cc input \<noteq> []) [(''cc'', address_list (oh_cc input))] @
         given (oh_bcc input \<noteq> []) [(''bcc'', address_list (oh_bcc input))] @
         [(''subject'', JStr (oh_subject input))])"

fun replace_crlf :: "string \<Rightarrow> string" where
  "replace_crlf (c # d # s) = (if c = CR \<and> d = LF then LF # replace_crlf s else c # replace_crlf (d # s))"
| "replace_crlf s = s"

definition normalizeJmapBodyValue :: "string \<Rightarrow> string" where
  "normalizeJmapBodyValue s = replace_char LF [CR, LF] (replace_char CR [LF] (replace_crlf s))"

definition buildPgpMimeContentFields :: "jmap_ciphertext \<Rightarrow> js_object" where
  "buildPgpMimeContentFields ciphertext =
     [(''bodyStructure'', JObj [(''type'', JStr ''multipart/encrypted''),
        (''subParts'', JArr [
           JObj [(''type'', JStr ''application/pgp-encrypted''), (''partId'', JStr ''pgp-version'')],
           JObj [(''type'', JStr ''application/octet-stream''), (''blobId'', JStr (pg_blobId ciphertext)),
                 (''size'', JNum (of_nat (pg_size ciphertext)))]])]),
      (''bodyValues'', JObj [(''pgp-version'', JObj [(''value'', JStr (''Version: 1'' @ [CR, LF]))])])]"

definition attachment_value :: "jmap_attachment \<Rightarrow> jsval" where
  "attachment_value a = JObj ([(''blobId'', JStr (ja_blobId a)), (''type'', JStr (ja_type a)), (''name'', JStr (ja_name a)),
     (''disposition'', JStr (case ja_disposition a of Some d \<Rightarrow> d | None \<Rightarrow> ''attachment''))] @
     given (truthy_text (ja_cid a)) [(''cid'', JStr (text_of (ja_cid a)))])"

definition buildEmailContentFields :: "string \<Rightarrow> string option \<Rightarrow> jmap_attachment list \<Rightarrow> jmap_ciphertext option \<Rightarrow> js_object" where
  "buildEmailContentFields textBody htmlBody attachments pgpMimeCiphertext =
     (case pgpMimeCiphertext of
        Some ciphertext \<Rightarrow> buildPgpMimeContentFields ciphertext
      | None \<Rightarrow>
          (let trimmedHtml = trim (text_of htmlBody)
           in [(''bodyValues'', JObj ([(''text'', JObj [(''value'', JStr (normalizeJmapBodyValue textBody))])] @
                 given (trimmedHtml \<noteq> []) [(''html'', JObj [(''value'', JStr (normalizeJmapBodyValue trimmedHtml))])])),
               (''textBody'', JArr [JObj [(''partId'', JStr ''text''), (''type'', JStr ''text/plain'')]])] @
              given (trimmedHtml \<noteq> []) [(''htmlBody'', JArr [JObj [(''partId'', JStr ''html''), (''type'', JStr ''text/html'')]])] @
              given (attachments \<noteq> []) [(''attachments'', JArr (map attachment_value attachments))]))"

text \<open>\<open>random\<close> is the answer of \<open>getRandomValues\<close>.\<close>

definition createMessageId :: "byte list \<Rightarrow> string \<Rightarrow> string" where
  "createMessageId random fromEmail =
     concat (map (\<lambda>b. [hex_digit (unat b div 16), hex_digit (unat b mod 16)]) random) @ [AT] @
     (case getEmailDomain fromEmail of Some domain \<Rightarrow> domain | None \<Rightarrow> ''localhost'')"

text \<open>The loop over the recipients: each address once, in order.\<close>

fun envelope_recipients :: "string list \<Rightarrow> parsed_mail_address list \<Rightarrow> string list" where
  "envelope_recipients seen [] = []"
| "envelope_recipients seen (a # addresses) =
     (if pa_email a \<in> set seen then envelope_recipients seen addresses
      else pa_email a # envelope_recipients (pa_email a # seen) addresses)"

definition threading_fields :: "byte list \<Rightarrow> outgoing_message \<Rightarrow> js_object" where
  "threading_fields random input =
     given (om_sentCopyCiphertext input \<noteq> None) [(''messageId'', JArr [JStr (createMessageId random (oh_fromEmail input))])] @
     given (om_inReplyTo input \<noteq> []) [(''inReplyTo'', JArr (map JStr (om_inReplyTo input)))] @
     given (om_references input \<noteq> []) [(''references'', JArr (map JStr (om_references input)))]"

definition in_mailbox :: "string \<Rightarrow> string \<times> jsval" where
  "in_mailbox mailboxId = (''mailboxIds'', JObj [(mailboxId, JBool True)])"

definition draft_object :: "byte list \<Rightarrow> outgoing_message \<Rightarrow> jsval" where
  "draft_object random input = JObj (
     [in_mailbox (om_draftsMailboxId input), (''keywords'', JObj [(''$seen'', JBool True), (''$draft'', JBool True)])] @
     threading_fields random input @ buildEmailHeaders input @
     buildEmailContentFields (om_textBody input) (om_htmlBody input) (om_attachments input) (om_pgpMimeCiphertext input))"

definition sent_copy_object :: "byte list \<Rightarrow> outgoing_message \<Rightarrow> string \<Rightarrow> jmap_ciphertext \<Rightarrow> jsval" where
  "sent_copy_object random input sentMailboxId copy = JObj (
     [in_mailbox sentMailboxId, (''keywords'', JObj [(''$seen'', JBool True)])] @
     threading_fields random input @ buildEmailHeaders input @ buildPgpMimeContentFields copy)"

definition submission_object :: "outgoing_message \<Rightarrow> jsval" where
  "submission_object input = JObj [(''s1'', JObj [
     (''emailId'', JStr ''#draft1''), (''identityId'', JStr (om_identityId input)),
     (''envelope'', JObj [
        (''mailFrom'', JObj [(''email'', JStr (trim (oh_fromEmail input)))]),
        (''rcptTo'', JArr (map (\<lambda>e. JObj [(''email'', JStr e)])
            (envelope_recipients [] (toJmapAddressList (oh_to input @ oh_cc input @ oh_bcc input)))))])])]"

definition buildSendMessageMethodCalls :: "byte list \<Rightarrow> outgoing_message \<Rightarrow> method_call list" where
  "buildSendMessageMethodCalls random input =
     (let sentMailboxId = (if truthy_text (om_sentMailboxId input) then om_sentMailboxId input else None);
          creates = [(''draft1'', draft_object random input)] @
            (case (om_sentCopyCiphertext input, sentMailboxId) of
               (Some copy, Some sent) \<Rightarrow> [(SENT_COPY_CREATION_ID, sent_copy_object random input sent copy)] | _ \<Rightarrow> []);
          cleanup = (case (om_sentCopyCiphertext input, sentMailboxId) of
               (Some _, _) \<Rightarrow> [(''onSuccessDestroyEmail'', JArr [JStr ''#s1''])]
             | (None, Some sent) \<Rightarrow> [(''onSuccessUpdateEmail'', JObj [(''#s1'', JObj (with_props []
                  [(''mailboxIds/'' @ sent, JBool True), (''mailboxIds/'' @ om_draftsMailboxId input, JNull),
                   (''keywords/$draft'', JNull)]))])]
             | (None, None) \<Rightarrow> [])
      in [(''Email/set'', JObj [(''create'', JObj creates)], ''c1''),
          (''EmailSubmission/set'', JObj ((''create'', submission_object input) # cleanup), ''c2'')])"

definition buildDraftMethodCalls :: "jmap_draft \<Rightarrow> method_call list" where
  "buildDraftMethodCalls input =
     [(''Email/set'', JObj ([(''create'', JObj [(''draft1'', JObj (
        [in_mailbox (jd_draftsMailboxId input), (''keywords'', JObj [(''$draft'', JBool True)])] @
        buildEmailHeaders input @ buildPgpMimeContentFields (jd_ciphertext input)))])] @
        given (truthy_text (jd_previousDraftId input)) [(''destroy'', JArr [JStr (text_of (jd_previousDraftId input))])]), ''c1'')]"


section \<open>What the responses say was created\<close>

text \<open>The zod schemas: an object with the named entries, or a rejection (\<open>None\<close>).\<close>

record created_email =
  ce_id :: string
  ce_threadId :: "string option"

definition created_email_of :: "jsval \<Rightarrow> created_email option" where
  "created_email_of v =
     (case v of
        JObj ps \<Rightarrow>
          (case (js_get v ''id'', js_get v ''threadId'') of
             (JStr i, JStr t) \<Rightarrow> if i \<noteq> [] then Some \<lparr>ce_id = i, ce_threadId = Some t\<rparr> else None
           | (JStr i, t) \<Rightarrow> if i \<noteq> [] \<and> nullish t then Some \<lparr>ce_id = i, ce_threadId = None\<rparr> else None
           | _ \<Rightarrow> None)
      | _ \<Rightarrow> None)"

definition optional_email :: "jsval \<Rightarrow> created_email option option" where
  "optional_email v = (if v = JUndefined then Some None else map_option Some (created_email_of v))"

text \<open>\<open>sendEmailSetResultSchema\<close> followed by \<open>success ? data.created : null\<close>: the two created messages.\<close>

definition created_emails :: "jsval \<Rightarrow> created_email option \<times> created_email option" where
  "created_emails result =
     (case (result, js_get result ''created'') of
        (JObj _, JObj ps) \<Rightarrow>
          (case (optional_email (js_get (JObj ps) ''draft1''), optional_email (js_get (JObj ps) SENT_COPY_CREATION_ID)) of
             (Some draft1, Some sent1) \<Rightarrow> (draft1, sent1)
           | _ \<Rightarrow> (None, None))
      | _ \<Rightarrow> (None, None))"

definition submission_id :: "jsval \<Rightarrow> string option" where
  "submission_id result =
     (case (result, js_get result ''created'', js_get (js_get result ''created'') ''s1'', js_get (js_get (js_get result ''created'') ''s1'') ''id'') of
        (JObj _, JObj _, JObj _, JStr i) \<Rightarrow> if i \<noteq> [] then Some i else None
      | _ \<Rightarrow> None)"

definition resultOf :: "envelope \<Rightarrow> string \<Rightarrow> jsval" where
  "resultOf envelope name =
     (case envelope of None \<Rightarrow> JUndefined
      | Some rs \<Rightarrow> (case find (\<lambda>r. fst r = name) rs of Some (_, v, _) \<Rightarrow> v | None \<Rightarrow> JUndefined))"

section \<open>Sending\<close>

text \<open>A server answers a request with a response or an error; the client notes what it asked for.\<close>

type_synonym 's jmap_request = "string list \<Rightarrow> method_call list \<Rightarrow> 's \<Rightarrow> (string + envelope) \<times> 's"

record 's mail_world =
  server :: 's
  requests :: "method_call list list"
  cleanup_errors :: "string list"

record 's send_context =
  sc_mailAccountId :: string
  sc_submissionAccountId :: string
  sc_policy :: "mail_server_policy option"
  sc_request :: "'s jmap_request"
  sc_format :: "rat \<Rightarrow> string"
  sc_random :: "byte list"

definition issue :: "'s jmap_request \<Rightarrow> string list \<Rightarrow> method_call list \<Rightarrow> 's mail_world \<Rightarrow> (string + envelope) \<times> 's mail_world" where
  "issue request capabilities calls w =
     (case request capabilities calls (server w) of
        (r, s') \<Rightarrow> (r, w\<lparr>server := s', requests := requests w @ [calls]\<rparr>))"

definition onCleanupError :: "string \<Rightarrow> 's mail_world \<Rightarrow> 's mail_world" where
  "onCleanupError e w = w\<lparr>cleanup_errors := cleanup_errors w @ [e]\<rparr>"

definition buildEmailDestroyMethodCall :: "string \<Rightarrow> string list \<Rightarrow> method_call" where
  "buildEmailDestroyMethodCall accountId messageIds =
     (''Email/set'', JObj [(''accountId'', JStr accountId), (''destroy'', JArr (map JStr messageIds))], ''c1'')"

definition destroyEmails :: "'s send_context \<Rightarrow> string list \<Rightarrow> 's mail_world \<Rightarrow> 's mail_world" where
  "destroyEmails ctx ids w =
     (case issue (sc_request ctx) MAIL_CAPABILITIES [buildEmailDestroyMethodCall (sc_mailAccountId ctx) ids] w of
        (Inl e, w') \<Rightarrow> onCleanupError e w'
      | (Inr envelope, w') \<Rightarrow>
          (case assertSuccessfulJmapResponses envelope ''Remove draft'' of Inl e \<Rightarrow> onCleanupError e w' | Inr _ \<Rightarrow> w'))"

definition message_size :: "outgoing_message \<Rightarrow> outgoing_size" where
  "message_size m =
     \<lparr>os_subject = Some (oh_subject m), os_textBody = om_textBody m, os_htmlBody = om_htmlBody m,
      os_attachments = map ja_size (om_attachments m), os_pgpMimeCiphertext = map_option pg_size (om_pgpMimeCiphertext m)\<rparr>"

definition ciphertext_size :: "string \<Rightarrow> jmap_ciphertext \<Rightarrow> outgoing_size" where
  "ciphertext_size subject c =
     \<lparr>os_subject = Some subject, os_textBody = [], os_htmlBody = None, os_attachments = [], os_pgpMimeCiphertext = Some (pg_size c)\<rparr>"

definition size_error :: "'s send_context \<Rightarrow> outgoing_message \<Rightarrow> string option" where
  "size_error ctx m =
     (case validateOutgoingJmapMessage (sc_format ctx) (message_size m) (sc_policy ctx) of
        Some e \<Rightarrow> Some e
      | None \<Rightarrow> (case om_sentCopyCiphertext m of None \<Rightarrow> None
          | Some c \<Rightarrow> validateOutgoingJmapMessage (sc_format ctx) (ciphertext_size (oh_subject m) c) (sc_policy ctx)))"

definition with_account :: "string \<Rightarrow> method_call \<Rightarrow> method_call" where
  "with_account accountId call =
     (case call of (method, params, i) \<Rightarrow>
        (method, JObj (with_props (case params of JObj ps \<Rightarrow> ps | _ \<Rightarrow> []) [(''accountId'', JStr accountId)]), i))"

definition send_calls :: "'s send_context \<Rightarrow> outgoing_message \<Rightarrow> method_call list" where
  "send_calls ctx m =
     map (\<lambda>call. with_account (if fst call = ''EmailSubmission/set'' then sc_submissionAccountId ctx else sc_mailAccountId ctx) call)
       (buildSendMessageMethodCalls (sc_random ctx) m)"

record sent_message =
  sm_emailId :: string
  sm_threadId :: "string option"
  sm_submissionId :: string

definition sendJmapMessage :: "'s send_context \<Rightarrow> outgoing_message \<Rightarrow> 's mail_world \<Rightarrow> (string + sent_message) \<times> 's mail_world" where
  "sendJmapMessage ctx message w =
     (case size_error ctx message of
        Some e \<Rightarrow> (Inl e, w)
      | None \<Rightarrow>
          (case issue (sc_request ctx) (MAIL_CAPABILITIES @ [''urn:ietf:params:jmap:submission'']) (send_calls ctx message) w of
             (Inl e, w1) \<Rightarrow> (Inl e, w1)
           | (Inr envelope, w1) \<Rightarrow>
               (let (draft1, sent1) = created_emails (resultOf envelope ''Email/set'')
                in case findJmapResponseError envelope ''Send message'' of
                     Inl e \<Rightarrow> (Inl e, w1)
                   | Inr failure \<Rightarrow>
                       (case submission_id (resultOf envelope ''EmailSubmission/set'') of
                          None \<Rightarrow>
                            (let createdIds = map ce_id (List.map_filter id [draft1, sent1]);
                                 w2 = (if createdIds \<noteq> [] then destroyEmails ctx createdIds w1 else w1)
                             in (Inl (case failure of Some e \<Rightarrow> e
                                      | None \<Rightarrow> ''Send message was saved but not submitted for delivery.''), w2))
                        | Some submissionId \<Rightarrow>
                            (let w2 = (case failure of Some e \<Rightarrow> onCleanupError e w1 | None \<Rightarrow> w1);
                                 w3 = (if truthy_text (om_previousDraftId message)
                                       then destroyEmails ctx [text_of (om_previousDraftId message)] w2 else w2);
                                 stored = (if sent1 \<noteq> None then sent1 else draft1)
                             in (Inr \<lparr>sm_emailId = (case stored of Some e \<Rightarrow> ce_id e | None \<Rightarrow> []),
                                       sm_threadId = Option.bind stored ce_threadId, sm_submissionId = submissionId\<rparr>, w3))))))"

definition saveJmapDraft :: "'s send_context \<Rightarrow> jmap_draft \<Rightarrow> 's mail_world \<Rightarrow> (string + string) \<times> 's mail_world" where
  "saveJmapDraft ctx draft w =
     (case validateOutgoingJmapMessage (sc_format ctx) (ciphertext_size (oh_subject draft) (jd_ciphertext draft)) (sc_policy ctx) of
        Some e \<Rightarrow> (Inl e, w)
      | None \<Rightarrow>
          (case issue (sc_request ctx) MAIL_CAPABILITIES (map (with_account (sc_mailAccountId ctx)) (buildDraftMethodCalls draft)) w of
             (Inl e, w') \<Rightarrow> (Inl e, w')
           | (Inr envelope, w') \<Rightarrow>
               (let result = resultOf envelope ''Email/set''
                in case (result, js_get result ''created'', created_email_of (js_get (js_get result ''created'') ''draft1'')) of
                     (JObj _, JObj _, Some saved) \<Rightarrow> (Inr (ce_id saved), w')
                   | _ \<Rightarrow> (Inl (case findJmapResponseError envelope ''Save draft'' of
                               Inl e \<Rightarrow> e | Inr (Some e) \<Rightarrow> e | Inr None \<Rightarrow> ''Failed to save draft.''), w'))))"

section \<open>Moving and deleting\<close>

record mailbox_restore =
  mr_id :: string
  mr_mailboxIds :: "(string \<times> bool) list"

definition EMPTY_MAILBOX_BATCH_SIZE :: nat where "EMPTY_MAILBOX_BATCH_SIZE = 100"

definition update_call :: "string \<Rightarrow> js_object \<Rightarrow> method_call" where
  "update_call accountId entries =
     (''Email/set'', JObj [(''accountId'', JStr accountId), (''update'', JObj (with_props [] entries))], ''c1'')"

definition buildEmailMoveMethodCall :: "string \<Rightarrow> string list \<Rightarrow> string \<Rightarrow> method_call" where
  "buildEmailMoveMethodCall accountId messageIds targetMailboxId =
     update_call accountId (map (\<lambda>i. (i, JObj [in_mailbox targetMailboxId])) messageIds)"

definition mailbox_ids_value :: "(string \<times> bool) list \<Rightarrow> jsval" where
  "mailbox_ids_value ms = JObj (map (\<lambda>(k, member). (k, JBool member)) ms)"

definition restore_entry :: "mailbox_restore \<Rightarrow> string \<times> jsval" where
  "restore_entry r = (mr_id r, JObj [(''mailboxIds'', mailbox_ids_value (mr_mailboxIds r))])"

definition buildEmailRestoreMailboxesMethodCall :: "string \<Rightarrow> mailbox_restore list \<Rightarrow> method_call" where
  "buildEmailRestoreMailboxesMethodCall accountId restores = update_call accountId (map restore_entry restores)"

text \<open>A message is its id and its membership; \<open>None\<close> when the list did not ask for it.\<close>

fun collect_restores :: "string list \<Rightarrow> (string \<times> (string \<times> bool) list option) list \<Rightarrow> mailbox_restore list" where
  "collect_restores seen [] = []"
| "collect_restores seen ((i, mailboxIds) # messages) =
     (let members = filter snd (case mailboxIds of Some ms \<Rightarrow> ms | None \<Rightarrow> [])
      in if i \<in> set seen \<or> members = [] then collect_restores seen messages
         else \<lparr>mr_id = i, mr_mailboxIds = members\<rparr> # collect_restores (i # seen) messages)"

definition collectMailboxRestores :: "(string \<times> (string \<times> bool) list option) list \<Rightarrow> mailbox_restore list" where
  "collectMailboxRestores messages = collect_restores [] messages"

text \<open>The loop may run forever on a server that keeps listing new pages; then it has no result.\<close>

partial_function (option) destroy_batches ::
  "(nat \<Rightarrow> 's \<Rightarrow> (string + string list) \<times> 's) \<Rightarrow> (string list \<Rightarrow> 's \<Rightarrow> (string + unit) \<times> 's) \<Rightarrow> nat \<Rightarrow> nat \<Rightarrow>
   string option \<Rightarrow> 's \<Rightarrow> ((string + nat) \<times> 's) option" where
  "destroy_batches listIds destroy batchSize destroyed previousBatchKey s =
     (case listIds batchSize s of
        (Inl e, s1) \<Rightarrow> Some (Inl e, s1)
      | (Inr ids, s1) \<Rightarrow>
          if ids = [] \<or> previousBatchKey = Some (join_with [LF] ids) then Some (Inr destroyed, s1)
          else (case destroy ids s1 of
                  (Inl e, s2) \<Rightarrow> Some (Inl e, s2)
                | (Inr _, s2) \<Rightarrow>
                    if length ids < batchSize then Some (Inr (destroyed + length ids), s2)
                    else destroy_batches listIds destroy batchSize (destroyed + length ids) (Some (join_with [LF] ids)) s2))"

definition destroyMailboxMessagesInBatches ::
  "(nat \<Rightarrow> 's \<Rightarrow> (string + string list) \<times> 's) \<Rightarrow> (string list \<Rightarrow> 's \<Rightarrow> (string + unit) \<times> 's) \<Rightarrow> nat option \<Rightarrow>
   's \<Rightarrow> ((string + nat) \<times> 's) option" where
  "destroyMailboxMessagesInBatches listIds destroy batchSize s =
     destroy_batches listIds destroy (case batchSize of Some n \<Rightarrow> n | None \<Rightarrow> EMPTY_MAILBOX_BATCH_SIZE) 0 None s"

section \<open>Splitting a request\<close>

text \<open>The chunks are sent in order; one failure rejects the call.\<close>

fun execute_all :: "('a \<Rightarrow> 's \<Rightarrow> (string + envelope) \<times> 's) \<Rightarrow> 'a list \<Rightarrow> 's \<Rightarrow> (string + method_call list) \<times> 's" where
  "execute_all execute [] s = (Inr [], s)"
| "execute_all execute (chunk # chunks) s =
     (case execute chunk s of (r, s1) \<Rightarrow>
        (case execute_all execute chunks s1 of (rs, s2) \<Rightarrow>
           (case (r, rs) of
              (Inr envelope, Inr responses) \<Rightarrow> (Inr ((case envelope of Some xs \<Rightarrow> xs | None \<Rightarrow> []) @ responses), s2)
            | (Inl e, _) \<Rightarrow> (Inl e, s2)
            | (_, Inl e) \<Rightarrow> (Inl e, s2))))"

definition jmap_call :: "json_env \<Rightarrow> rat \<Rightarrow> 's jmap_request \<Rightarrow> 's jmap_request" where
  "jmap_call env limit executeCall capabilities methodCalls s =
     (if of_nat (length methodCalls) \<le> limit \<or> jmapMethodCallsHaveDependencies env methodCalls
      then executeCall capabilities methodCalls s
      else case execute_all (executeCall capabilities) (chunkJmapMethodCalls methodCalls limit) s of
        (Inl e, s') \<Rightarrow> (Inl e, s') | (Inr responses, s') \<Rightarrow> (Inr (Some responses), s'))"


section \<open>A refused send keeps the previous draft\<close>

definition destroy_list :: "method_call \<Rightarrow> string list" where
  "destroy_list call = (case js_get (fst (snd call)) ''destroy'' of JArr xs \<Rightarrow> List.map_filter str_of xs | _ \<Rightarrow> [])"

definition destroyed_ids :: "method_call list list \<Rightarrow> string list" where
  "destroyed_ids reqs = concat (map (\<lambda>calls. concat (map destroy_list calls)) reqs)"

definition submits :: "method_call list \<Rightarrow> bool" where
  "submits calls \<longleftrightarrow> ''EmailSubmission/set'' \<in> fst ` set calls"

definition send_answer :: "'s send_context \<Rightarrow> outgoing_message \<Rightarrow> 's mail_world \<Rightarrow> string + envelope" where
  "send_answer ctx m w =
     fst (sc_request ctx (MAIL_CAPABILITIES @ [''urn:ietf:params:jmap:submission'']) (send_calls ctx m) (server w))"

lemma map_filter_JStr [simp]: "List.map_filter str_of (map JStr xs) = xs"
  by (induction xs) (simp_all add: List.map_filter_def)

lemma requests_destroyEmails:
  "requests (destroyEmails ctx ids w) = requests w @ [[buildEmailDestroyMethodCall (sc_mailAccountId ctx) ids]]"
  by (auto simp: destroyEmails_def issue_def onCleanupError_def split: prod.splits sum.splits)

lemma destroy_call [simp]:
  "destroy_list (buildEmailDestroyMethodCall accountId ids) = ids" "\<not> submits [buildEmailDestroyMethodCall accountId ids]"
  by (simp_all add: buildEmailDestroyMethodCall_def destroy_list_def submits_def)

lemma send_calls_destroy_nothing: "concat (map destroy_list (send_calls ctx m)) = []"
  by (auto simp: send_calls_def buildSendMessageMethodCalls_def with_account_def destroy_list_def with_props_def Let_def
      split: option.splits)

text \<open>C2: A send is at most one submission, and it destroys a message only when it should. If it succeeds,
  the server has confirmed the submission it returns and, of the messages named in a request, only the
  draft the message replaces is destroyed; if it fails, that draft is kept and exactly the messages the
  server says the attempt created are removed, whatever the server answers, with one exception: an
  answer with a result of \<open>null\<close> before any reported error makes the check of the answer throw,
  and nothing is destroyed.\<close>

theorem refused_send_keeps_the_draft:
  assumes run: "sendJmapMessage ctx m w = (r, w')"
  shows "\<exists>reqs. requests w' = requests w @ reqs \<and> length (filter submits reqs) \<le> 1 \<and>
    (case r of
       Inr sent \<Rightarrow>
         (\<exists>envelope. send_answer ctx m w = Inr envelope \<and>
            submission_id (resultOf envelope ''EmailSubmission/set'') = Some (sm_submissionId sent)) \<and>
         destroyed_ids reqs = (if truthy_text (om_previousDraftId m) then [text_of (om_previousDraftId m)] else [])
     | Inl e \<Rightarrow>
         destroyed_ids reqs = (case (size_error ctx m, send_answer ctx m w) of
            (None, Inr envelope) \<Rightarrow>
              (case (findJmapResponseError envelope ''Send message'', created_emails (resultOf envelope ''Email/set'')) of
                 (Inr _, draft1, sent1) \<Rightarrow> map ce_id (List.map_filter id [draft1, sent1]) | (Inl _, _) \<Rightarrow> [])
          | _ \<Rightarrow> []))"
proof (cases "size_error ctx m")
  case (Some e)
  with run show ?thesis by (auto simp: sendJmapMessage_def destroyed_ids_def)
next
  case None
  note ok = this
  let ?caps = "MAIL_CAPABILITIES @ [''urn:ietf:params:jmap:submission'']"
  obtain a s1 where a: "sc_request ctx ?caps (send_calls ctx m) (server w) = (a, s1)" by fastforce
  define w1 where "w1 = w\<lparr>server := s1, requests := requests w @ [send_calls ctx m]\<rparr>"
  have issued: "issue (sc_request ctx) ?caps (send_calls ctx m) w = (a, w1)" by (simp add: issue_def a w1_def)
  have w1: "requests w1 = requests w @ [send_calls ctx m]" by (simp add: w1_def)
  have answer: "send_answer ctx m w = a" by (simp add: send_answer_def a)
  have one: "length (filter submits (send_calls ctx m # map (\<lambda>ids. [buildEmailDestroyMethodCall (sc_mailAccountId ctx) ids]) idss)) \<le> 1"
    and ids: "destroyed_ids (send_calls ctx m # map (\<lambda>ids. [buildEmailDestroyMethodCall (sc_mailAccountId ctx) ids]) idss) = concat idss" for idss
    by (induction idss) (simp_all add: destroyed_ids_def send_calls_destroy_nothing)
  have conclude: ?thesis
    if "requests w' = requests w1 @ map (\<lambda>ids. [buildEmailDestroyMethodCall (sc_mailAccountId ctx) ids]) idss"
      "case r of Inr sent \<Rightarrow> (\<exists>envelope. a = Inr envelope \<and>
            submission_id (resultOf envelope ''EmailSubmission/set'') = Some (sm_submissionId sent)) \<and>
          concat idss = (if truthy_text (om_previousDraftId m) then [text_of (om_previousDraftId m)] else [])
        | Inl e \<Rightarrow> concat idss = (case a of Inr envelope \<Rightarrow>
              (case (findJmapResponseError envelope ''Send message'', created_emails (resultOf envelope ''Email/set'')) of
                 (Inr _, draft1, sent1) \<Rightarrow> map ce_id (List.map_filter id [draft1, sent1]) | (Inl _, _) \<Rightarrow> []) | Inl _ \<Rightarrow> [])" for idss
    using that by (intro exI [of _ "send_calls ctx m # map (\<lambda>ids. [buildEmailDestroyMethodCall (sc_mailAccountId ctx) ids]) idss"] conjI one)
      (auto simp: ids w1 answer ok split: sum.splits)
  note simps = sendJmapMessage_def ok issued requests_destroyEmails Let_def onCleanupError_def
  show ?thesis
  proof (cases a)
    case (Inl e)
    with run show ?thesis by (intro conclude [of "[]"]) (auto simp: simps)
  next
    case (Inr envelope)
    obtain draft1 sent1 where c: "created_emails (resultOf envelope ''Email/set'') = (draft1, sent1)" by fastforce
    show ?thesis
    proof (cases "findJmapResponseError envelope ''Send message''")
      case (Inl e)
      with run Inr c show ?thesis by (intro conclude [of "[]"]) (auto simp: simps)
    next
      case failure: (Inr failure)
      show ?thesis
      proof (cases "submission_id (resultOf envelope ''EmailSubmission/set'')")
        case None
        with run Inr c failure show ?thesis
          by (intro conclude [of "if List.map_filter id [draft1, sent1] = [] then [] else [map ce_id (List.map_filter id [draft1, sent1])]"])
            (auto simp: simps split: if_splits)
      next
        case (Some i)
        with run Inr c failure show ?thesis
          by (intro conclude [of "if truthy_text (om_previousDraftId m) then [[text_of (om_previousDraftId m)]] else []"])
            (auto simp: simps split: if_splits option.splits)
      qed
    qed
  qed
qed

section \<open>Who gets the message, and what it shows\<close>

lemma envelope_recipients_spec:
  "distinct (envelope_recipients seen addresses) \<and>
   set (envelope_recipients seen addresses) = pa_email ` set addresses - set seen"
  by (induction seen addresses rule: envelope_recipients.induct) auto

definition rcpt_to :: "method_call list \<Rightarrow> jsval" where
  "rcpt_to calls =
     (case find (\<lambda>c. fst c = ''EmailSubmission/set'') calls of
        Some (_, params, _) \<Rightarrow>
          js_get (js_get (js_get (js_get params ''create'') ''s1'') ''envelope'') ''rcptTo''
      | None \<Rightarrow> JUndefined)"

text \<open>C38: The message is submitted for every address in To, Cc and Bcc, each exactly once, also when an
  address is named twice or with different names, and for nobody else.\<close>

theorem everyone_gets_it_once:
  "\<exists>rs. rcpt_to (buildSendMessageMethodCalls random m) = JArr (map (\<lambda>e. JObj [(''email'', JStr e)]) rs) \<and> distinct rs \<and>
     set rs = (\<lambda>a. pa_email (parseRecipientString a)) ` (set (oh_to m) \<union> set (oh_cc m) \<union> set (oh_bcc m))"
proof -
  let ?rs = "envelope_recipients [] (toJmapAddressList (oh_to m @ oh_cc m @ oh_bcc m))"
  have "rcpt_to (buildSendMessageMethodCalls random m) = JArr (map (\<lambda>e. JObj [(''email'', JStr e)]) ?rs)"
    by (simp add: rcpt_to_def buildSendMessageMethodCalls_def submission_object_def Let_def)
  moreover have "set ?rs = (\<lambda>a. pa_email (parseRecipientString a)) ` (set (oh_to m) \<union> set (oh_cc m) \<union> set (oh_bcc m))"
    by (auto simp: envelope_recipients_spec toJmapAddressList_def image_image image_Un)
  ultimately show ?thesis using envelope_recipients_spec by blast
qed

lemma ciphertext_calls:
  assumes "om_pgpMimeCiphertext m = Some c"
  shows "buildSendMessageMethodCalls random (m\<lparr>om_textBody := t, om_htmlBody := h, om_attachments := a\<rparr>) = buildSendMessageMethodCalls random m"
proof -
  let ?m = "m\<lparr>om_textBody := t, om_htmlBody := h, om_attachments := a\<rparr>"
  have headers: "threading_fields random ?m = threading_fields random m" "buildEmailHeaders ?m = buildEmailHeaders m"
    by (simp_all add: threading_fields_def buildEmailHeaders_def)
  then have "draft_object random ?m = draft_object random m"
    using assms by (simp add: draft_object_def buildEmailContentFields_def)
  moreover have "sent_copy_object random ?m = sent_copy_object random m" using headers by (intro ext) (simp add: sent_copy_object_def)
  moreover have "submission_object ?m = submission_object m" by (simp add: submission_object_def)
  moreover have "om_sentMailboxId ?m = om_sentMailboxId m" "om_sentCopyCiphertext ?m = om_sentCopyCiphertext m"
    "om_draftsMailboxId ?m = om_draftsMailboxId m" by simp_all
  ultimately show ?thesis by (simp only: buildSendMessageMethodCalls_def)
qed

text \<open>C39: Nothing of the body of an encrypted message reaches the server: with a ciphertext, two messages
  that differ in their text, HTML or attachments make the same requests to the end, or none at all
  when a size limit stops them.\<close>

theorem ciphertext_hides_the_content:
  assumes c: "om_pgpMimeCiphertext m = Some c"
    and m': "m' = m\<lparr>om_textBody := t, om_htmlBody := h, om_attachments := a\<rparr>"
  shows "(size_error ctx m' \<noteq> None \<longrightarrow> snd (sendJmapMessage ctx m' w) = w) \<and>
    (size_error ctx m = None \<and> size_error ctx m' = None \<longrightarrow> sendJmapMessage ctx m' w = sendJmapMessage ctx m w)"
proof -
  have calls: "send_calls ctx m' = send_calls ctx m" by (simp add: send_calls_def m' ciphertext_calls [OF c])
  have previous: "om_previousDraftId m' = om_previousDraftId m" by (simp add: m')
  show ?thesis unfolding sendJmapMessage_def calls previous by (auto split: option.split)
qed


section \<open>Emptying a folder ends\<close>

text \<open>
  What the client relies on: the server lists the first messages of the folder, and a destroy, answered
  or not, removes some of the messages it names, or all of them from a server that refuses nothing.
\<close>

definition mailbox_laws ::
  "(nat \<Rightarrow> 's \<Rightarrow> (string + string list) \<times> 's) \<Rightarrow> (string list \<Rightarrow> 's \<Rightarrow> (string + unit) \<times> 's) \<Rightarrow> ('s \<Rightarrow> string list) \<Rightarrow> bool" where
  "mailbox_laws listIds destroy content \<longleftrightarrow>
     (\<forall>s. distinct (content s)) \<and> (\<forall>n s. listIds n s = (Inr (take n (content s)), s)) \<and>
     (\<forall>ids s r s'. destroy ids s = (r, s') \<longrightarrow>
        (\<exists>R. R \<subseteq> set ids \<and> content s' = filter (\<lambda>i. i \<notin> R) (content s)))"

definition refuses_nothing ::
  "(string list \<Rightarrow> 's \<Rightarrow> (string + unit) \<times> 's) \<Rightarrow> ('s \<Rightarrow> string list) \<Rightarrow> bool" where
  "refuses_nothing destroy content \<longleftrightarrow>
     (\<forall>ids s. \<exists>s'. destroy ids s = (Inr (), s') \<and> content s' = filter (\<lambda>i. i \<notin> set ids) (content s))"

lemma removed_at_most:
  assumes "distinct xs" "R \<subseteq> set ids"
  shows "length xs \<le> length ids + length (filter (\<lambda>i. i \<notin> R) xs)"
proof -
  have "length (filter (\<lambda>i. i \<in> R) xs) = card (set (filter (\<lambda>i. i \<in> R) xs))"
    using assms(1) by (intro distinct_card [symmetric] distinct_filter)
  also have "\<dots> \<le> card (set ids)" using assms(2) by (intro card_mono) auto
  also have "\<dots> \<le> length ids" by (rule card_length)
  finally show ?thesis using sum_length_filter_compl [of "\<lambda>i. i \<in> R" xs] by simp
qed

lemma batches_step:
  assumes "listIds n s = (Inr ids, s)"
  shows "destroy_batches listIds destroy n k previous s =
    (if ids = [] \<or> previous = Some (join_with [LF] ids) then Some (Inr k, s)
     else (case destroy ids s of
             (Inl e, s2) \<Rightarrow> Some (Inl e, s2)
           | (Inr _, s2) \<Rightarrow>
               if length ids < n then Some (Inr (k + length ids), s2)
               else destroy_batches listIds destroy n (k + length ids) (Some (join_with [LF] ids)) s2))"
  by (subst destroy_batches.simps) (simp add: assms)

lemma batches_end:
  assumes laws: "mailbox_laws listIds destroy content"
  shows "\<exists>r s'. destroy_batches listIds destroy n k previous s = Some (r, s') \<and>
    (\<forall>m. r = Inr m \<longrightarrow> length (content s) + k \<le> m + length (content s'))"
proof (induction "2 * length (content s) + (if previous = Some (join_with [LF] (take n (content s))) then 0 else 1)"
    arbitrary: k previous s rule: less_induct)
  case less
  define ids where "ids = take n (content s)"
  have list: "listIds n s = (Inr ids, s)" using laws by (simp add: mailbox_laws_def ids_def)
  show ?case
  proof (cases "ids = [] \<or> previous = Some (join_with [LF] ids)")
    case True
    then show ?thesis by (subst batches_step [of listIds n s ids, OF list]) auto
  next
    case False
    note go_on = this
    obtain d s2 where d: "destroy ids s = (d, s2)" by fastforce
    with laws obtain R where R: "R \<subseteq> set ids" "content s2 = filter (\<lambda>i. i \<notin> R) (content s)"
      unfolding mailbox_laws_def by blast
    have removed: "length (content s) \<le> length ids + length (content s2)"
      unfolding R(2) using laws R(1) by (intro removed_at_most) (auto simp: mailbox_laws_def)
    show ?thesis
    proof (cases d)
      case (Inl e)
      with go_on show ?thesis by (subst batches_step [of listIds n s ids, OF list]) (auto simp: d)
    next
      case (Inr u)
      show ?thesis
      proof (cases "length ids < n")
        case True
        with Inr go_on removed show ?thesis by (subst batches_step [of listIds n s ids, OF list]) (auto simp: d)
      next
        case False
        have "2 * length (content s2) + (if Some (join_with [LF] ids) = Some (join_with [LF] (take n (content s2))) then 0 else 1)
            < 2 * length (content s) + (if previous = Some (join_with [LF] (take n (content s))) then 0 else 1 :: nat)"
        proof (cases "R \<inter> set (content s) = {}")
          case True
          then have "content s2 = content s" unfolding R(2) by (intro filter_True) auto
          with go_on show ?thesis by (simp add: ids_def)
        next
          case False
          then have "length (content s2) < length (content s)" unfolding R(2) by (auto intro: length_filter_less)
          then show ?thesis by simp
        qed
        from less [OF this, of "k + length ids"] obtain r s' where
          "destroy_batches listIds destroy n (k + length ids) (Some (join_with [LF] ids)) s2 = Some (r, s')"
          "\<forall>m. r = Inr m \<longrightarrow> length (content s2) + (k + length ids) \<le> m + length (content s')" by blast
        note rec = this
        have "destroy_batches listIds destroy n k previous s = Some (r, s')"
          using Inr False go_on rec(1) by (subst batches_step [of listIds n s ids, OF list]) (simp add: d)
        moreover have "length (content s) + k \<le> m + length (content s')" if "r = Inr m" for m
          using rec(2) that removed by fastforce
        ultimately show ?thesis by blast
      qed
    qed
  qed
qed

lemma split_join: "ws \<noteq> [] \<Longrightarrow> \<forall>w \<in> set ws. d \<notin> set w \<Longrightarrow> split_on d (join_with [d] ws) = ws"
proof (induction "[d]" ws rule: join_with.induct)
  case (3 w v ws)
  then show ?case using split_on_append [of d w "join_with [d] (v # ws)"] by simp
qed (simp_all add: split_on_no_sep)

lemma batches_empty:
  assumes laws: "mailbox_laws listIds destroy content" "refuses_nothing destroy content" and n: "0 < n"
  shows "\<forall>i \<in> set (content s) \<union> set P. LF \<notin> set i \<Longrightarrow> set P \<inter> set (content s) = {} \<Longrightarrow> P \<noteq> [] \<Longrightarrow>
    previous = None \<or> previous = Some (join_with [LF] P) \<Longrightarrow>
    \<exists>s'. destroy_batches listIds destroy n k previous s = Some (Inr (k + length (content s)), s') \<and> content s' = []"
proof (induction "length (content s)" arbitrary: k previous P s rule: less_induct)
  case less
  define ids where "ids = take n (content s)"
  have list: "listIds n s = (Inr ids, s)" using laws by (simp add: mailbox_laws_def ids_def)
  show ?case
  proof (cases "content s = []")
    case True
    then have "ids = []" by (simp add: ids_def)
    with True show ?thesis by (subst batches_step [of listIds n s ids, OF list]) simp
  next
    case False
    then have ids: "ids \<noteq> []" using n by (simp add: ids_def)
    have sub: "set ids \<subseteq> set (content s)" by (simp add: ids_def set_take_subset)
    have fresh: "previous \<noteq> Some (join_with [LF] ids)"
    proof
      assume "previous = Some (join_with [LF] ids)"
      with less.prems(4) have same: "join_with [LF] P = join_with [LF] ids" by simp
      have "P = split_on LF (join_with [LF] P)"
        by (rule split_join [OF less.prems(3), symmetric]) (simp add: less.prems(1))
      also have "\<dots> = ids" unfolding same by (rule split_join [OF ids]) (use less.prems(1) sub in auto)
      finally have "P = ids" .
      moreover obtain i where "i \<in> set ids" using ids by (cases ids) auto
      ultimately show False using less.prems sub by blast
    qed
    obtain s2 where d: "destroy ids s = (Inr (), s2)" and rest: "content s2 = filter (\<lambda>i. i \<notin> set ids) (content s)"
      using laws(2) unfolding refuses_nothing_def by blast
    have distinct: "distinct (content s)" using laws by (simp add: mailbox_laws_def)
    have "content s2 = drop n (content s)"
    proof -
      have "set ids \<inter> set (drop n (content s)) = {}"
        unfolding ids_def by (rule set_take_disj_set_drop_if_distinct [OF distinct]) simp
      then have "filter (\<lambda>i. i \<notin> set ids) (ids @ drop n (content s)) = drop n (content s)"
        by (auto simp: filter_id_conv)
      then show ?thesis unfolding rest by (simp add: ids_def)
    qed
    note rest = this
    show ?thesis
    proof (cases "length ids < n")
      case True
      then have "length (content s) < n" by (simp add: ids_def min_def split: if_splits)
      then have "length ids = length (content s)" "content s2 = []" by (simp_all add: ids_def rest)
      with True ids fresh show ?thesis by (subst batches_step [of listIds n s ids, OF list]) (simp add: d)
    next
      case False
      have "\<exists>s'. destroy_batches listIds destroy n (k + length ids) (Some (join_with [LF] ids)) s2 =
          Some (Inr (k + length ids + length (content s2)), s') \<and> content s' = []"
      proof (rule less.hyps)
        show "length (content s2) < length (content s)" using n \<open>content s \<noteq> []\<close> by (simp add: rest)
        show "set ids \<inter> set (content s2) = {}" unfolding rest ids_def by (rule set_take_disj_set_drop_if_distinct [OF distinct]) simp
        show "\<forall>i \<in> set (content s2) \<union> set ids. LF \<notin> set i"
          using less.prems(1) sub by (auto simp: rest dest: in_set_dropD)
      qed (use ids in simp_all)
      moreover have "length ids + length (content s2) = length (content s)" by (simp add: rest ids_def)
      ultimately show ?thesis
        using False ids fresh by (subst batches_step [of listIds n s ids, OF list]) (simp add: d add.assoc)
    qed
  qed
qed


text \<open>C7: Emptying a folder always ends, also on a server that refuses to delete some or all of its
  messages, and never reports fewer messages than are gone; on a server that refuses nothing it leaves
  the folder empty and reports exactly its messages.\<close>

theorem emptying_a_folder_ends:
  assumes laws: "mailbox_laws listIds destroy content"
  shows "\<exists>r s'. destroyMailboxMessagesInBatches listIds destroy batchSize s = Some (r, s') \<and>
    (\<forall>n. r = Inr n \<longrightarrow> length (content s) \<le> n + length (content s')) \<and>
    (refuses_nothing destroy content \<and> batchSize \<noteq> Some 0 \<and> (\<forall>i \<in> set (content s). LF \<notin> set i) \<longrightarrow>
      r = Inr (length (content s)) \<and> content s' = [])"
proof -
  let ?n = "case batchSize of Some n \<Rightarrow> n | None \<Rightarrow> EMPTY_MAILBOX_BATCH_SIZE"
  obtain r s' where run: "destroy_batches listIds destroy ?n 0 None s = Some (r, s')"
    and bound: "\<forall>n. r = Inr n \<longrightarrow> length (content s) + 0 \<le> n + length (content s')"
    using batches_end [OF laws] by metis
  have "r = Inr (length (content s)) \<and> content s' = []"
    if "refuses_nothing destroy content" "batchSize \<noteq> Some 0" "\<forall>i \<in> set (content s). LF \<notin> set i"
  proof (cases "content s = []")
    case True
    have "listIds ?n s = (Inr [], s)" using laws True by (simp add: mailbox_laws_def)
    from batches_step [of listIds ?n s "[]", OF this, of destroy] run True show ?thesis by simp
  next
    case False
    have n: "0 < ?n" using that(2) by (auto simp: EMPTY_MAILBOX_BATCH_SIZE_def split: option.split)
    obtain l where l: "l \<notin> set (content s)" "LF \<notin> set l"
    proof -
      let ?longest = "replicate (Suc (sum_list (map length (content s)))) CR"
      have "?longest \<notin> set (content s)"
      proof
        assume "?longest \<in> set (content s)"
        then have "length ?longest \<in> set (map length (content s))" unfolding set_map by (rule imageI)
        then have "length ?longest \<le> sum_list (map length (content s))" by (rule member_le_sum_list) simp
        then show False by simp
      qed
      then show thesis using that [of ?longest] by (simp del: replicate_Suc add: LF_neq_CR)
    qed
    from batches_empty [OF laws that(1) n, of s "[l]" None 0] that(3) l obtain s'' where
      "destroy_batches listIds destroy ?n 0 None s = Some (Inr (0 + length (content s)), s'')" "content s'' = []" by auto
    with run show ?thesis by simp
  qed
  with run bound show ?thesis by (auto simp: destroyMailboxMessagesInBatches_def)
qed

section \<open>A move can be undone\<close>

text \<open>
  The memberships on the server, as the values of \<open>mailboxIds\<close>, and what an \<open>Email/set\<close> update does to
  them: the property of each message it names is replaced.
\<close>

definition mailbox_members :: "jsval \<Rightarrow> string set" where
  "mailbox_members v = {k. js_get v k = JBool True}"

definition apply_email_update :: "method_call \<Rightarrow> (string \<Rightarrow> jsval) \<Rightarrow> string \<Rightarrow> jsval" where
  "apply_email_update call mail i =
     (case js_get (js_get (fst (snd call)) ''update'') i of
        JObj ps \<Rightarrow> (case map_of ps ''mailboxIds'' of Some v \<Rightarrow> v | None \<Rightarrow> mail i)
      | _ \<Rightarrow> mail i)"

definition known_members :: "(string \<times> bool) list \<Rightarrow> string set" where
  "known_members ms = {k. (k, True) \<in> set ms}"

lemma collect_restores_spec:
  "distinct (map mr_id (collect_restores seen messages)) \<and>
   mr_id ` set (collect_restores seen messages) =
     {i. i \<notin> set seen \<and> (\<exists>ms. (i, Some ms) \<in> set messages \<and> filter snd ms \<noteq> [])} \<and>
   (\<forall>r \<in> set (collect_restores seen messages). \<exists>ms. (mr_id r, Some ms) \<in> set messages \<and> mr_mailboxIds r = filter snd ms)"
proof (induction seen messages rule: collect_restores.induct)
  case (2 seen i mailboxIds messages)
  let ?members = "filter snd (case mailboxIds of Some ms \<Rightarrow> ms | None \<Rightarrow> [])"
  show ?case
  proof (cases "i \<in> set seen \<or> ?members = []")
    case True
    then have "collect_restores seen ((i, mailboxIds) # messages) = collect_restores seen messages" by simp
    with True "2.IH"(1) [OF refl True] show ?thesis by (cases mailboxIds) auto
  next
    case False
    then have "collect_restores seen ((i, mailboxIds) # messages) =
        \<lparr>mr_id = i, mr_mailboxIds = ?members\<rparr> # collect_restores (i # seen) messages" by simp
    with False "2.IH"(2) [OF refl False] show ?thesis by (cases mailboxIds) auto
  qed
qed simp

lemma apply_update_call:
  "apply_email_update (update_call accountId entries) mail i =
    (case map_of (rev entries) i of
       Some (JObj ps) \<Rightarrow> (case map_of ps ''mailboxIds'' of Some v \<Rightarrow> v | None \<Rightarrow> mail i)
     | _ \<Rightarrow> mail i)"
  by (simp add: apply_email_update_def update_call_def map_of_with_props split: option.split)

lemma apply_move:
  "apply_email_update (buildEmailMoveMethodCall accountId ids target) mail i =
    (if i \<in> set ids then JObj [(target, JBool True)] else mail i)"
proof -
  have "map_of (rev (map (\<lambda>i. (i, JObj [in_mailbox target])) ids)) i =
      (if i \<in> set ids then Some (JObj [in_mailbox target]) else None)"
    by (simp add: rev_map map_of_map_restrict restrict_map_def)
  then show ?thesis by (simp add: buildEmailMoveMethodCall_def apply_update_call in_mailbox_def)
qed

lemma apply_restore:
  assumes "distinct (map mr_id rs)"
  shows "r \<in> set rs \<Longrightarrow> apply_email_update (buildEmailRestoreMailboxesMethodCall accountId rs) mail (mr_id r) =
      mailbox_ids_value (mr_mailboxIds r)"
    "i \<notin> mr_id ` set rs \<Longrightarrow> apply_email_update (buildEmailRestoreMailboxesMethodCall accountId rs) mail i = mail i"
proof -
  have "distinct (map fst (map restore_entry rs))" using assms by (simp add: restore_entry_def comp_def)
  note entries = this map_of_rev_distinct [OF this]
  {
    assume "r \<in> set rs"
    then have "map_of (map restore_entry rs) (mr_id r) = Some (snd (restore_entry r))"
      using entries(1) by (intro map_of_is_SomeI) (auto simp: restore_entry_def)
    then show "apply_email_update (buildEmailRestoreMailboxesMethodCall accountId rs) mail (mr_id r) = mailbox_ids_value (mr_mailboxIds r)"
      by (simp add: buildEmailRestoreMailboxesMethodCall_def apply_update_call entries(2)) (simp add: restore_entry_def)
  next
    assume "i \<notin> mr_id ` set rs"
    then have "map_of (map restore_entry rs) i = None" by (auto simp: map_of_eq_None_iff restore_entry_def)
    then show "apply_email_update (buildEmailRestoreMailboxesMethodCall accountId rs) mail i = mail i"
      by (simp add: buildEmailRestoreMailboxesMethodCall_def apply_update_call entries(2))
  }
qed

lemma members_value: "distinct (map fst ms) \<Longrightarrow> mailbox_members (mailbox_ids_value (filter snd ms)) = known_members ms"
proof -
  assume "distinct (map fst ms)"
  then have "map_of (filter snd ms) k = Some True \<longleftrightarrow> (k, True) \<in> set ms" for k
    by (auto simp: map_of_eq_Some_iff distinct_map_filter)
  moreover have "js_get (JObj (map (\<lambda>(k, member). (k, JBool member)) xs)) k = JBool True \<longleftrightarrow> map_of xs k = Some True" for xs k
    by (induction xs) auto
  ultimately show ?thesis by (simp add: mailbox_members_def known_members_def mailbox_ids_value_def)
qed

text \<open>C40: Undoing a move puts every message back into exactly the folders it was in, also when several
  lists showed it, and touches no other message. This is for messages whose folders were captured
  before the move, were the current ones, and are not none: a message without a known folder
  stays moved.\<close>

theorem undo_restores_the_folders:
  assumes known: "\<And>i ms. (i, Some ms) \<in> set messages \<Longrightarrow> mailbox_members (mail i) = known_members ms \<and> distinct (map fst ms)"
    and moved: "moved = apply_email_update (buildEmailMoveMethodCall accountId ids target) mail"
    and undone: "undone = apply_email_update (buildEmailRestoreMailboxesMethodCall accountId (collectMailboxRestores messages)) moved"
  shows "((i, Some ms) \<in> set messages \<and> known_members ms \<noteq> {} \<longrightarrow> mailbox_members (undone i) = mailbox_members (mail i)) \<and>
    (i \<in> set ids \<longrightarrow> mailbox_members (moved i) = {target}) \<and>
    (i \<notin> set ids \<and> i \<notin> fst ` set messages \<longrightarrow> undone i = mail i)"
proof (intro conjI impI)
  let ?rs = "collectMailboxRestores messages"
  have rs: "distinct (map mr_id ?rs)"
    "mr_id ` set ?rs = {i. \<exists>ms. (i, Some ms) \<in> set messages \<and> filter snd ms \<noteq> []}"
    "\<forall>r \<in> set ?rs. \<exists>ms. (mr_id r, Some ms) \<in> set messages \<and> mr_mailboxIds r = filter snd ms"
    using collect_restores_spec [of "[]" messages] by (simp_all add: collectMailboxRestores_def)
  {
    assume i: "(i, Some ms) \<in> set messages \<and> known_members ms \<noteq> {}"
    then have "filter snd ms \<noteq> []" by (force simp: known_members_def filter_empty_conv)
    then have "i \<in> mr_id ` set ?rs" using rs(2) i by blast
    then obtain r ms' where r: "r \<in> set ?rs" "i = mr_id r" "(i, Some ms') \<in> set messages" "mr_mailboxIds r = filter snd ms'"
      using rs(3) by blast
    then have "undone i = mailbox_ids_value (filter snd ms')" by (simp add: undone apply_restore(1) [OF rs(1)])
    then show "mailbox_members (undone i) = mailbox_members (mail i)" using known [OF r(3)] by (simp add: members_value)
  next
    assume "i \<in> set ids"
    then show "mailbox_members (moved i) = {target}" by (auto simp: moved apply_move mailbox_members_def)
  next
    assume i: "i \<notin> set ids \<and> i \<notin> fst ` set messages"
    then have "i \<notin> mr_id ` set ?rs" unfolding rs(2) by force
    with i show "undone i = mail i" by (simp add: undone moved apply_restore(2) [OF rs(1)] apply_move)
  }
qed


section \<open>Requests that are split too far\<close>

definition sample_message :: outgoing_message where
  "sample_message = \<lparr>oh_fromEmail = ''me@x.org'', oh_fromName = None, oh_to = [''you@x.org''], oh_cc = [], oh_bcc = [],
     oh_subject = ''Hi'', om_draftsMailboxId = ''d'', om_sentMailboxId = Some ''s'', om_textBody = ''Hello'', om_htmlBody = None,
     om_identityId = ''i'', om_attachments = [], om_pgpMimeCiphertext = Some \<lparr>pg_blobId = ''b'', pg_size = 100\<rparr>,
     om_sentCopyCiphertext = None, om_inReplyTo = [], om_references = [], om_previousDraftId = Some ''p''\<rparr>"

text \<open>The submission names the message by its creation id, which the test for dependent calls does not
  know: a server that allows one method call per request gets the two calls of a send in two requests.\<close>

lemma split_send_loses_its_reference:
  "\<not> jmapMethodCallsHaveDependencies \<lparr>number_text = (\<lambda>q. []), iso_text = (\<lambda>t. [])\<rparr> (buildSendMessageMethodCalls [] sample_message)"
  "chunkJmapMethodCalls [a, b] 1 = [[a], [b]]"
  by code_simp (simp add: chunkJmapMethodCalls_def Let_def chunk_loop.simps Prelude.slice_def)

section \<open>Concrete runs\<close>

text \<open>A server that stores the message and refuses to submit it.\<close>

definition refusal :: envelope where
  "refusal = Some
     [(''Email/set'', JObj [(''created'', JObj [(''draft1'', JObj [(''id'', JStr ''e1'')])])], ''c1''),
      (''EmailSubmission/set'', JObj [(''notCreated'', JObj [(''s1'', JObj [(''type'', JStr ''forbiddenFrom'')])])], ''c2'')]"

definition refusing_context :: "unit send_context" where
  "refusing_context = \<lparr>sc_mailAccountId = ''a'', sc_submissionAccountId = ''a'', sc_policy = None,
     sc_request = (\<lambda>capabilities calls s. (Inr refusal, s)), sc_format = (\<lambda>q. []), sc_random = []\<rparr>"

definition fresh_world :: "unit mail_world" where
  "fresh_world = \<lparr>server = (), requests = [], cleanup_errors = []\<rparr>"

lemma sample_fits: "size_error refusing_context (sample_message\<lparr>om_textBody := t\<rparr>) = None" "size_error refusing_context sample_message = None"
  by (simp_all add: size_error_def refusing_context_def validateOutgoingJmapMessage_def validateOutgoingMessageSize_def sample_message_def)

theorem refused_send_keeps_the_draft_witness:
  "fst (sendJmapMessage refusing_context sample_message fresh_world) = Inl ''forbiddenFrom [forbiddenFrom]'' \<and>
   destroyed_ids (requests (snd (sendJmapMessage refusing_context sample_message fresh_world))) = [''e1'']"
proof -
  have refused: "submission_id (resultOf refusal ''EmailSubmission/set'') = None"
    "findJmapResponseError refusal ''Send message'' = Inr (Some ''forbiddenFrom [forbiddenFrom]'')"
    "created_emails (resultOf refusal ''Email/set'') = (Some \<lparr>ce_id = ''e1'', ce_threadId = None\<rparr>, None)"
    by code_simp+
  have failed: "fst (sendJmapMessage refusing_context sample_message fresh_world) = Inl ''forbiddenFrom [forbiddenFrom]''"
    using sample_fits refused
    by (simp add: sendJmapMessage_def issue_def Let_def split: prod.split) (simp add: refusing_context_def refused)
  have "send_answer refusing_context sample_message fresh_world = Inr refusal" by (simp add: send_answer_def refusing_context_def)
  with refused_send_keeps_the_draft [OF prod.collapse [symmetric], of refusing_context sample_message fresh_world] failed refused sample_fits
  show ?thesis by (auto simp: fresh_world_def List.map_filter_def)
qed

theorem ciphertext_hides_the_content_witness:
  "sendJmapMessage refusing_context (sample_message\<lparr>om_textBody := ''Secret'', om_htmlBody := None, om_attachments := []\<rparr>) fresh_world =
   sendJmapMessage refusing_context sample_message fresh_world"
proof -
  have "size_error refusing_context (sample_message\<lparr>om_textBody := ''Secret'', om_htmlBody := None, om_attachments := []\<rparr>) = None"
    by (simp add: size_error_def refusing_context_def validateOutgoingJmapMessage_def validateOutgoingMessageSize_def sample_message_def)
  with ciphertext_hides_the_content [OF _ refl, where m = sample_message and t = "''Secret''" and h = None and a = "[]" and
      ctx = refusing_context and w = fresh_world] sample_fits(2)
  show ?thesis by (auto simp: sample_message_def)
qed

text \<open>A folder whose message \<open>kept\<close> the server refuses to delete.\<close>

definition list_page :: "nat \<Rightarrow> string list \<Rightarrow> (string + string list) \<times> string list" where
  "list_page n s = (Inr (take n (remdups s)), s)"

definition delete_unless_kept :: "string list \<Rightarrow> string list \<Rightarrow> (string + unit) \<times> string list" where
  "delete_unless_kept ids s = (Inr (), filter (\<lambda>i. i \<notin> set ids \<or> i = ''kept'') s)"

lemma kept_laws: "mailbox_laws list_page delete_unless_kept remdups"
proof -
  have "\<exists>R. R \<subseteq> set ids \<and> remdups (filter (\<lambda>i. i \<notin> set ids \<or> i = ''kept'') s) = filter (\<lambda>i. i \<notin> R) (remdups s)" for ids s
    by (intro exI [of _ "set ids - {''kept''}"]) (auto simp: remdups_filter intro: filter_cong)
  then show ?thesis by (simp add: mailbox_laws_def list_page_def delete_unless_kept_def)
qed

theorem emptying_a_folder_ends_witness:
  "\<exists>r s'. destroyMailboxMessagesInBatches list_page delete_unless_kept (Some 2) [''a'', ''kept'', ''b''] = Some (r, s')"
  using emptying_a_folder_ends [OF kept_laws, of "Some 2" "[''a'', ''kept'', ''b'']"] by blast

theorem undo_restores_the_folders_witness:
  "\<exists>moved undone. mailbox_members (moved ''m'') = {''trash''} \<and> mailbox_members (undone ''m'') = {''work''}"
proof -
  let ?mail = "\<lambda>i. JObj [(''work'', JBool True), (''old'', JBool False)]"
  let ?ms = "[(''work'', True), (''old'', False)]"
  let ?moved = "apply_email_update (buildEmailMoveMethodCall ''a'' [''m''] ''trash'') ?mail"
  let ?undone = "apply_email_update (buildEmailRestoreMailboxesMethodCall ''a'' (collectMailboxRestores [(''m'', Some ?ms), (''n'', None)])) ?moved"
  have known: "mailbox_members (?mail i) = known_members ms \<and> distinct (map fst ms)"
    if "(i, Some ms) \<in> set [(''m'', Some ?ms), (''n'', None)]" for i ms
    using that by (auto simp: mailbox_members_def known_members_def)
  have members: "known_members ?ms = {''work''}" by (auto simp: known_members_def)
  then have before: "mailbox_members (?mail ''m'') = {''work''}" using known [of "''m''" ?ms] by simp
  note undo = undo_restores_the_folders [where messages = "[(''m'', Some ?ms), (''n'', None)]" and mail = ?mail and i = "''m''" and ms = ?ms
      and accountId = "''a''" and ids = "[''m'']" and target = "''trash''", OF known refl refl]
  have "mailbox_members (?moved ''m'') = {''trash''}" by (rule mp [OF conjunct1 [OF conjunct2 [OF undo]]]) simp_all
  moreover have "mailbox_members (?undone ''m'') = mailbox_members (?mail ''m'')"
    by (rule mp [OF conjunct1 [OF undo]]) (simp_all add: members)
  ultimately show ?thesis unfolding before by blast
qed

end
