(* ===== verification/OutgoingMime.thy ===== *)
theory OutgoingMime
  imports JmapSend
begin

text \<open>
  The encrypted form of outgoing mail: the MIME message of
  \<open>packages/calendar-core/src/outgoing-mime.ts\<close>, its sealing in
  \<open>packages/calendar-core/src/mail-outgoing-crypto.ts\<close> and the limit on the total size of the
  attachments (\<open>packages/calendar-core/src/mail-outgoing-attachments.ts\<close>). The OpenPGP library, the
  upload and the lookup of public keys are arguments; so are the clock and the random text of a
  boundary.
\<close>

section \<open>The MIME message\<close>

record outgoing_mime_attachment =
  oma_filename :: string
  oma_contentType :: string
  oma_content :: "byte list"
  oma_cid :: "string option"
  oma_disposition :: "string option"

record outgoing_mail_content =
  omc_text :: string
  omc_html :: "string option"
  omc_attachments :: "outgoing_mime_attachment list"

definition QUOTE :: char where "QUOTE = CHR 0x22"
definition CRLF :: string where "CRLF = [CR, LF]"

definition encodeMimeFilename :: "string \<Rightarrow> string" where
  "encodeMimeFilename value = map (\<lambda>c. if c = QUOTE \<or> c = CHR 0x5C then CHR ''_'' else c) value"

definition BASE64_CHUNK_BYTES :: nat where "BASE64_CHUNK_BYTES = 57 * 128"

text \<open>\<open>replace(/.{76}(?=.)/g, "$&\r\n")\<close> on a text without line breaks.\<close>

function wrap_columns :: "string \<Rightarrow> string" where
  "wrap_columns s = (if 76 < length s then take 76 s @ CRLF @ wrap_columns (drop 76 s) else s)"
  by pat_completeness auto

termination by (relation "measure length") auto

declare wrap_columns.simps [simp del]

function encodeBase64Lines :: "byte list \<Rightarrow> string list" where
  "encodeBase64Lines bytes =
     (if bytes = [] then []
      else wrap_columns (btoa (map char_of_byte (take BASE64_CHUNK_BYTES bytes))) #
           encodeBase64Lines (drop BASE64_CHUNK_BYTES bytes))"
  by pat_completeness auto

termination by (relation "measure length") (auto simp: BASE64_CHUNK_BYTES_def)

declare encodeBase64Lines.simps [simp del]

definition normalizeMimeText :: "string \<Rightarrow> string" where
  "normalizeMimeText value = replace_char CR [LF] (replace_crlf value)"

definition toMimeLines :: "string \<Rightarrow> string" where
  "toMimeLines value = replace_char LF CRLF (normalizeMimeText value)"

text \<open>A stamp is the value of \<open>Date.now()\<close> and the digits taken of \<open>Math.random()\<close>.\<close>

type_synonym stamp = "int \<times> string"

definition createMimeBoundary :: "string \<Rightarrow> stamp \<Rightarrow> string" where
  "createMimeBoundary name stamp = name @ ''_'' @ int_str (fst stamp) @ ''_'' @ snd stamp"

text \<open>The starts of the lines after the first one, for a pattern with the flag \<open>m\<close>.\<close>

fun later_lines :: "string \<Rightarrow> string list" where
  "later_lines [] = []"
| "later_lines (c # s) = (if c = CR \<or> c = LF then s # later_lines s else later_lines s)"

definition content_type_at :: "string \<Rightarrow> bool" where
  "content_type_at s \<longleftrightarrow> to_lower (take 13 s) = ''content-type:'' \<and> list_ex (\<lambda>c. \<not> is_ws c) (drop 13 s)"

definition looksLikeMimeMessage :: "string \<Rightarrow> bool" where
  "looksLikeMimeMessage content =
     (let s = dropWhile is_ws content in list_ex content_type_at (s # later_lines s))"

definition trimmed_html :: "string option \<Rightarrow> string" where
  "trimmed_html html = (case html of None \<Rightarrow> [] | Some h \<Rightarrow> trim h)"

definition quoted_boundary :: "string \<Rightarrow> string" where
  "quoted_boundary boundary = QUOTE # boundary @ [QUOTE]"

definition buildAlternativeBodyParts :: "stamp \<Rightarrow> string \<Rightarrow> string option \<Rightarrow> string list" where
  "buildAlternativeBodyParts stamp plain html =
     (let normalizedText = toMimeLines plain; trimmedHtml = trimmed_html html in
      if trimmedHtml = [] then
        [''Content-Type: text/plain; charset=utf-8'', ''Content-Transfer-Encoding: 7bit'', [], normalizedText]
      else let boundary = createMimeBoundary ''solace_alt'' stamp; normalizedHtml = toMimeLines trimmedHtml in
        [''Content-Type: multipart/alternative; boundary='' @ quoted_boundary boundary,
         ''MIME-Version: 1.0'', [],
         ''--'' @ boundary,
         ''Content-Type: text/plain; charset=utf-8'', ''Content-Transfer-Encoding: 7bit'', [], normalizedText, [],
         ''--'' @ boundary,
         ''Content-Type: text/html; charset=utf-8'', ''Content-Transfer-Encoding: 7bit'', [], normalizedHtml, [],
         ''--'' @ boundary @ ''--''])"

definition attachment_lines :: "string \<Rightarrow> outgoing_mime_attachment \<Rightarrow> string list" where
  "attachment_lines boundary attachment =
     (let filename = encodeMimeFilename (oma_filename attachment);
          disposition = (case oma_disposition attachment of None \<Rightarrow> ''attachment'' | Some d \<Rightarrow> d);
          cid = (case oma_cid attachment of None \<Rightarrow> [] | Some c \<Rightarrow> trim c);
          isInline = (disposition = ''inline'' \<and> cid \<noteq> [])
      in [''--'' @ boundary,
          ''Content-Type: '' @ oma_contentType attachment @ ''; name='' @ quoted_boundary filename,
          (if isInline then ''Content-Disposition: inline; filename='' @ quoted_boundary filename
           else ''Content-Disposition: attachment; filename='' @ quoted_boundary filename)] @
         (if isInline then [''Content-ID: <'' @ cid @ ''>''] else []) @
         [''Content-Transfer-Encoding: base64'', []] @ encodeBase64Lines (oma_content attachment) @ [[]])"

text \<open>The stamp of the alternative boundary is drawn first.\<close>

definition buildOutgoingMimeMessage :: "stamp \<Rightarrow> stamp \<Rightarrow> outgoing_mail_content \<Rightarrow> string" where
  "buildOutgoingMimeMessage alt mixed content =
     (let bodyPart = buildAlternativeBodyParts alt (omc_text content) (omc_html content) in
      if omc_attachments content = [] then join_with CRLF bodyPart
      else let boundary = createMimeBoundary ''solace_mixed'' mixed in
        join_with CRLF
          ([''Content-Type: multipart/mixed; boundary='' @ quoted_boundary boundary,
            ''MIME-Version: 1.0'', [], ''--'' @ boundary] @ bodyPart @ [[]] @
           concat (map (attachment_lines boundary) (omc_attachments content)) @
           [''--'' @ boundary @ ''--'']))"

section \<open>Sealing\<close>

text \<open>What the calls of the platform settle with; an error is its message.\<close>

record mail_sealer =
  selfPublicKeyArmored :: string
  sealer_encrypt :: "string \<Rightarrow> string list \<Rightarrow> string + string"
  sealer_upload :: "string \<Rightarrow> string + jmap_ciphertext"

record outgoing_message_body =
  omb_textBody :: string
  omb_encrypted :: bool
  omb_pgpMimeCiphertext :: "jmap_ciphertext option"
  omb_sentCopyCiphertext :: "jmap_ciphertext option"

definition sealMailForSelf :: "stamp \<Rightarrow> stamp \<Rightarrow> outgoing_mail_content \<Rightarrow> mail_sealer \<Rightarrow> string + jmap_ciphertext" where
  "sealMailForSelf alt mixed content sealer =
     (case sealer_encrypt sealer (buildOutgoingMimeMessage alt mixed content) [selfPublicKeyArmored sealer] of
        Inl e \<Rightarrow> Inl e
      | Inr armoredMessage \<Rightarrow> sealer_upload sealer armoredMessage)"

text \<open>The set of keys, in insertion order; the first key that cannot be had fails the call.\<close>

fun collect_keys :: "(string \<Rightarrow> string + string) \<Rightarrow> string option \<Rightarrow> string \<Rightarrow> string list \<Rightarrow> string list \<Rightarrow>
    string + string list" where
  "collect_keys getRecipientPublicKey internalDomain senderEmail [] keys = Inr keys"
| "collect_keys getRecipientPublicKey internalDomain senderEmail (recipient # rest) keys =
     (if getEmailDomain recipient \<noteq> internalDomain \<or> recipient = senderEmail
      then collect_keys getRecipientPublicKey internalDomain senderEmail rest keys
      else case getRecipientPublicKey recipient of
        Inl e \<Rightarrow> Inl e
      | Inr key \<Rightarrow> collect_keys getRecipientPublicKey internalDomain senderEmail rest
          (if key \<in> set keys then keys else keys @ [key]))"

definition outgoing_plaintext :: "stamp \<Rightarrow> stamp \<Rightarrow> outgoing_mail_content \<Rightarrow> string" where
  "outgoing_plaintext alt mixed content =
     (if omc_attachments content \<noteq> [] \<or> trimmed_html (omc_html content) \<noteq> []
      then buildOutgoingMimeMessage alt mixed content else omc_text content)"

definition sealOutgoingMessageBody ::
  "stamp \<Rightarrow> stamp \<Rightarrow> string list \<Rightarrow> string \<Rightarrow> string option \<Rightarrow> outgoing_mail_content \<Rightarrow> mail_sealer \<Rightarrow>
   (string \<Rightarrow> string + string) \<Rightarrow> string + outgoing_message_body" where
  "sealOutgoingMessageBody alt mixed recipients sender inputDomain content sealer getRecipientPublicKey =
     (let internalDomain = resolveEncryptionInternalDomain inputDomain in
      if \<not> shouldEncryptOutgoingMail recipients internalDomain then
        (case sealMailForSelf alt mixed content sealer of
           Inl e \<Rightarrow> Inl e
         | Inr copy \<Rightarrow> Inr \<lparr>omb_textBody = omc_text content, omb_encrypted = False,
             omb_pgpMimeCiphertext = None, omb_sentCopyCiphertext = Some copy\<rparr>)
      else
        (case collect_keys getRecipientPublicKey internalDomain (normalizeEmailAddress sender) recipients
            [selfPublicKeyArmored sealer] of
           Inl e \<Rightarrow> Inl e
         | Inr keys \<Rightarrow>
             (case sealer_encrypt sealer (outgoing_plaintext alt mixed content) keys of
                Inl e \<Rightarrow> Inl e
              | Inr armoredMessage \<Rightarrow>
                  if omc_attachments content \<noteq> [] then
                    (case sealer_upload sealer armoredMessage of
                       Inl e \<Rightarrow> Inl e
                     | Inr c \<Rightarrow> Inr \<lparr>omb_textBody = [], omb_encrypted = True,
                         omb_pgpMimeCiphertext = Some c, omb_sentCopyCiphertext = None\<rparr>)
                  else Inr \<lparr>omb_textBody = armoredMessage, omb_encrypted = True,
                         omb_pgpMimeCiphertext = None, omb_sentCopyCiphertext = None\<rparr>)))"

section \<open>The limit of the attachments\<close>

definition getOutgoingAttachmentsTotalSizeError :: "(rat \<Rightarrow> string) \<Rightarrow> nat list \<Rightarrow> rat \<Rightarrow> string option" where
  "getOutgoingAttachmentsTotalSizeError formatAttachmentByteLimit sizes maxBytes =
     (let total = sum_list sizes in
      if of_nat total > maxBytes
      then Some (''Attachments add up to '' @ formatAttachmentByteLimit (of_nat total) @ '', over the '' @
             formatAttachmentByteLimit maxBytes @ '' limit for one message.'')
      else None)"

section \<open>Base64 of an attachment\<close>

text \<open>Decoding the lines of an attachment, with whatever breaks between them, gives its bytes: the
  chunks end on a group of three bytes.\<close>

definition no_ws :: "string \<Rightarrow> string" where
  "no_ws s = filter (\<lambda>c. \<not> ascii_ws c) s"

lemma no_ws_append [simp]: "no_ws (s @ t) = no_ws s @ no_ws t"
  by (simp add: no_ws_def)

lemma no_ws_btoa: "no_ws (btoa s) = btoa s"
  using alphabet_digits(2) [of s] by (simp add: no_ws_def btoa_sextets ascii_ws_def)

lemma no_ws_wrap: "no_ws (wrap_columns s) = no_ws s"
proof (induction s rule: wrap_columns.induct)
  case (1 s)
  have "no_ws CRLF = []" by (simp add: no_ws_def CRLF_def CR_def LF_def ascii_ws_def)
  moreover have "no_ws (take 76 s) @ no_ws (drop 76 s) = no_ws s"
    by (simp only: no_ws_append [symmetric] append_take_drop_id)
  ultimately show ?case using 1 wrap_columns.simps [of s] by simp
qed

lemma btoa_append: "length s mod 3 = 0 \<Longrightarrow> btoa (s @ t) = btoa s @ btoa t"
  by (induction s rule: btoa.induct) (auto simp: Let_def)

lemma no_ws_lines: "no_ws (concat (encodeBase64Lines bytes)) = btoa (map char_of_byte bytes)"
proof (induction bytes rule: encodeBase64Lines.induct)
  case (1 bytes)
  show ?case
  proof (cases "length bytes \<le> BASE64_CHUNK_BYTES")
    case True
    then have "encodeBase64Lines (drop BASE64_CHUNK_BYTES bytes) = []" by (simp add: encodeBase64Lines.simps)
    with True show ?thesis
      by (cases "bytes = []") (simp_all add: encodeBase64Lines.simps [of bytes] no_ws_wrap no_ws_btoa,
        simp add: encodeBase64Lines.simps no_ws_def)
  next
    case False
    let ?s = "map char_of_byte (take BASE64_CHUNK_BYTES bytes)"
    have "length ?s mod 3 = 0" using False by (simp add: BASE64_CHUNK_BYTES_def)
    then have "btoa (?s @ map char_of_byte (drop BASE64_CHUNK_BYTES bytes)) =
        btoa ?s @ btoa (map char_of_byte (drop BASE64_CHUNK_BYTES bytes))" by (rule btoa_append)
    moreover have "?s @ map char_of_byte (drop BASE64_CHUNK_BYTES bytes) = map char_of_byte bytes"
      by (simp only: map_append [symmetric] append_take_drop_id)
    ultimately show ?thesis
      using 1 False by (cases "bytes = []") (simp_all add: encodeBase64Lines.simps [of bytes] no_ws_wrap no_ws_btoa)
  qed
qed

lemma atob_no_ws: "no_ws s = btoa t \<Longrightarrow> atob s = Some t"
  using atob_btoa [of t] by (simp add: atob_def no_ws_def [symmetric] no_ws_btoa)

lemma attachment_decodes: "atob (concat (encodeBase64Lines bytes)) = Some (map char_of_byte bytes)"
  by (rule atob_no_ws [OF no_ws_lines])

section \<open>What the encrypted copy weighs\<close>

definition weight :: "string \<Rightarrow> nat" where
  "weight s = length (text_encode s)"

text \<open>Lines with the breaks between them weigh two bytes more for each line but one.\<close>

definition lines_weight :: "string list \<Rightarrow> nat" where
  "lines_weight ls = sum_list (map (\<lambda>l. weight l + 2) ls)"

lemma weight_append [simp]: "weight (s @ t) = weight s + weight t"
  by (simp add: weight_def text_encode_def)

lemma weight_CRLF [simp]: "weight CRLF = 2" "weight [] = 0"
  by (simp_all add: weight_def text_encode_def CRLF_def CR_def LF_def utf8_char_def)

lemma lines_weight_simps [simp]:
  "lines_weight [] = 0" "lines_weight (l # ls) = weight l + 2 + lines_weight ls"
  "lines_weight (ls @ ls') = lines_weight ls + lines_weight ls'"
  by (simp_all add: lines_weight_def)

lemma lines_weight_concat [simp]: "lines_weight (concat lss) = sum_list (map lines_weight lss)"
  by (induction lss) simp_all

lemma weight_join: "ls \<noteq> [] \<Longrightarrow> weight (join_with CRLF ls) + 2 = lines_weight ls"
  by (induction CRLF ls rule: join_with.induct) auto

lemma weight_ascii: "list_all (\<lambda>c. (of_char c :: nat) < 128) s \<Longrightarrow> weight s = length s"
  by (simp add: weight_def length_text_encode(3))

lemma b64_char_ascii: "(of_char (b64_char n) :: nat) < 128"
  by (auto simp: b64_char_def)

lemma length_btoa_exact: "length (btoa s) = 4 * ((length s + 2) div 3)"
proof (induction s rule: btoa.induct)
  case (4 a b c s)
  have "(length s + 2 + 3) div 3 = Suc ((length s + 2) div 3)" by (simp add: div_add_self2)
  with 4 show ?case by (simp add: Let_def add.commute)
qed (simp_all add: Let_def)

lemma btoa_ascii: "list_all (\<lambda>c. (of_char c :: nat) < 128) (btoa s)"
  by (induction s rule: btoa.induct) (auto simp: Let_def b64_char_ascii)

lemma weight_wrap:
  "s \<noteq> [] \<Longrightarrow> list_all (\<lambda>c. (of_char c :: nat) < 128) s \<Longrightarrow>
    weight (wrap_columns s) + 2 = length s + 2 * ((length s + 75) div 76)"
proof (induction s rule: wrap_columns.induct)
  case (1 s)
  show ?case
  proof (cases "76 < length s")
    case False
    with 1(2) have "(length s + 75) div 76 = 1" by (cases s) (simp_all add: div_nat_eqI)
    with False 1(3) show ?thesis by (simp add: wrap_columns.simps [of s] weight_ascii)
  next
    case True
    have "list_all (\<lambda>c. (of_char c :: nat) < 128) (take 76 s @ drop 76 s)" using 1(3) by simp
    then have parts: "list_all (\<lambda>c. (of_char c :: nat) < 128) (take 76 s)"
      "list_all (\<lambda>c. (of_char c :: nat) < 128) (drop 76 s)"
      by (simp_all only: list_all_append)
    have "weight (wrap_columns (drop 76 s)) + 2 = length s - 76 + 2 * ((length s - 76 + 75) div 76)"
      using 1(1) [OF True] True parts(2) by simp
    moreover have "(length s + 75) div 76 = Suc ((length s - 76 + 75) div 76)"
      using True div_add_self2 [of 76 "length s - 76 + 75"] by simp
    ultimately show ?thesis using True by (simp add: wrap_columns.simps [of s] weight_ascii [OF parts(1)])
  qed
qed

text \<open>An attachment of \<open>n\<close> bytes takes at most 78 bytes for every 57 begun.\<close>

lemma weight_base64_chunk:
  assumes "bs \<noteq> []"
  shows "weight (wrap_columns (btoa (map char_of_byte bs))) + 2 \<le> 78 * ((length bs + 56) div 57)"
proof -
  let ?q = "(length bs + 56) div 57" and ?b = "btoa (map char_of_byte bs)"
  have len: "length ?b = 4 * ((length bs + 2) div 3)" by (simp add: length_btoa_exact)
  have "0 < length bs" using assms by simp
  then have "1 \<le> (length bs + 2) div 3" by linarith
  with len have "?b \<noteq> []" by auto
  note w = weight_wrap [OF this btoa_ascii]
  have "length bs \<le> 57 * ?q" by linarith
  then have "(length bs + 2) div 3 \<le> 19 * ?q" by linarith
  then have "length ?b \<le> 76 * ?q" using len by linarith
  moreover from this have "(length ?b + 75) div 76 \<le> ?q" by linarith
  ultimately show ?thesis using w by linarith
qed

lemma weight_base64: "lines_weight (encodeBase64Lines bs) \<le> 78 * ((length bs + 56) div 57)"
proof (induction bs rule: encodeBase64Lines.induct)
  case (1 bs)
  show ?case
  proof (cases "bs = []")
    case True
    then show ?thesis by (simp add: encodeBase64Lines.simps)
  next
    case False
    let ?head = "take BASE64_CHUNK_BYTES bs" and ?tail = "drop BASE64_CHUNK_BYTES bs"
    have "?head \<noteq> []" using False by (simp add: BASE64_CHUNK_BYTES_def)
    note head = weight_base64_chunk [OF this]
    have "(length ?head + 56) div 57 + (length ?tail + 56) div 57 = (length bs + 56) div 57"
    proof (cases "length bs \<le> BASE64_CHUNK_BYTES")
      case False
      then have "length bs + 56 = (length bs - 57 * 128 + 56) + 128 * 57" by (simp add: BASE64_CHUNK_BYTES_def)
      then have "(length bs + 56) div 57 = (length bs - 57 * 128 + 56) div 57 + 128"
        by (metis div_mult_self1 add.commute zero_neq_numeral)
      with False show ?thesis by (simp add: BASE64_CHUNK_BYTES_def)
    qed simp
    with 1 [OF False] head False show ?thesis by (simp add: encodeBase64Lines.simps [of bs])
  qed
qed

text \<open>All of the message but the bytes of the attachments: the text and HTML with their headers, and
  for every attachment its headers and at most 77 bytes for a last line that is not full.\<close>

definition without_bytes :: "outgoing_mail_content \<Rightarrow> outgoing_mail_content" where
  "without_bytes content =
     content\<lparr>omc_attachments := map (\<lambda>a. a\<lparr>oma_content := []\<rparr>) (omc_attachments content)\<rparr>"

definition frame_weight :: "stamp \<Rightarrow> stamp \<Rightarrow> outgoing_mail_content \<Rightarrow> nat" where
  "frame_weight alt mixed content =
     weight (buildOutgoingMimeMessage alt mixed (without_bytes content)) + 77 * length (omc_attachments content)"

definition attachment_sizes :: "outgoing_mail_content \<Rightarrow> nat list" where
  "attachment_sizes content = map (\<lambda>a. length (oma_content a)) (omc_attachments content)"

lemma attachment_lines_weight:
  "lines_weight (attachment_lines b a) =
    lines_weight (attachment_lines b (a\<lparr>oma_content := []\<rparr>)) + lines_weight (encodeBase64Lines (oma_content a))"
  by (simp add: attachment_lines_def Let_def encodeBase64Lines.simps [of "[]"])

lemma attachments_weight:
  "sum_list (map (\<lambda>a. lines_weight (attachment_lines b a)) as) \<le>
    sum_list (map (\<lambda>a. lines_weight (attachment_lines b (a\<lparr>oma_content := []\<rparr>))) as) +
    sum_list (map (\<lambda>a. 78 * ((length (oma_content a) + 56) div 57)) as)"
proof (induction as)
  case (Cons a as)
  then show ?case
    using weight_base64 [of "oma_content a"] by (simp only: list.map sum_list.Cons attachment_lines_weight [of b a])
qed simp

lemma lines_of_57: "57 * (78 * ((n + 56) div 57)) \<le> 78 * n + 57 * (77 :: nat)"
  by linarith

lemma sum_lines_of_57:
  "57 * sum_list (map (\<lambda>a. 78 * ((f a + 56) div 57)) as) \<le> 78 * sum_list (map f as) + 57 * (77 * length as)"
proof (induction as)
  case (Cons a as)
  then show ?case using lines_of_57 [of "f a"] by simp
qed simp

lemma mime_weight:
  "57 * weight (buildOutgoingMimeMessage alt mixed content) \<le>
    78 * sum_list (attachment_sizes content) + 57 * frame_weight alt mixed content"
proof (cases "omc_attachments content = []")
  case True
  then show ?thesis
    by (simp add: buildOutgoingMimeMessage_def frame_weight_def without_bytes_def attachment_sizes_def)
next
  case False
  let ?b = "createMimeBoundary ''solace_mixed'' mixed" and ?as = "omc_attachments content"
  define pre where "pre = [''Content-Type: multipart/mixed; boundary='' @ quoted_boundary ?b, ''MIME-Version: 1.0'', [], ''--'' @ ?b] @
    buildAlternativeBodyParts alt (omc_text content) (omc_html content) @ [[]]"
  define post where "post = [''--'' @ ?b @ ''--'']"
  have message: "weight (buildOutgoingMimeMessage alt mixed c) + 2 =
      lines_weight pre + sum_list (map (\<lambda>a. lines_weight (attachment_lines ?b a)) (omc_attachments c)) + lines_weight post"
    if "omc_attachments c \<noteq> []" "omc_text c = omc_text content" "omc_html c = omc_html content" for c
  proof -
    have "buildOutgoingMimeMessage alt mixed c =
        join_with CRLF (pre @ concat (map (attachment_lines ?b) (omc_attachments c)) @ post)"
      using that by (simp only: buildOutgoingMimeMessage_def Let_def if_False pre_def post_def append_assoc append_Cons append_Nil)
    moreover have "pre @ concat (map (attachment_lines ?b) (omc_attachments c)) @ post \<noteq> []" by (simp add: post_def)
    ultimately show ?thesis by (simp add: weight_join [simplified] o_def)
  qed
  have "sum_list (map (\<lambda>a. lines_weight (attachment_lines ?b a)) (omc_attachments (without_bytes content))) =
      sum_list (map (\<lambda>a. lines_weight (attachment_lines ?b (a\<lparr>oma_content := []\<rparr>))) ?as)"
    by (simp add: without_bytes_def o_def)
  with message [of content] message [of "without_bytes content"] attachments_weight [of ?b ?as] False
  have "weight (buildOutgoingMimeMessage alt mixed content) \<le>
      weight (buildOutgoingMimeMessage alt mixed (without_bytes content)) +
      sum_list (map (\<lambda>a. 78 * ((length (oma_content a) + 56) div 57)) ?as)"
    by (simp add: without_bytes_def)
  with sum_lines_of_57 [of "\<lambda>a. length (oma_content a)" ?as] show ?thesis
    by (simp add: frame_weight_def attachment_sizes_def)
qed

text \<open>What the OpenPGP library makes of a text, at most: it adds some bytes of packets and armor, and
  writes the result in Base64, 45 bytes to a line of 60 characters and a line break.\<close>

definition armor_law :: "nat \<Rightarrow> mail_sealer \<Rightarrow> bool" where
  "armor_law overhead sealer \<longleftrightarrow> (\<forall>t keys a. sealer_encrypt sealer t keys = Inr a \<longrightarrow>
     weight a \<le> 61 * ((weight t + overhead + 44) div 45))"

lemma armor_weight:
  assumes "armor_law overhead sealer" "sealer_encrypt sealer t keys = Inr a"
  shows "45 * weight a \<le> 61 * (weight t + overhead + 44)"
proof -
  have scale: "w \<le> 61 * q \<Longrightarrow> 45 * q \<le> x \<Longrightarrow> 45 * w \<le> 61 * x" for w q x :: nat by linarith
  have "weight a \<le> 61 * ((weight t + overhead + 44) div 45)" using assms by (simp add: armor_law_def)
  moreover have "45 * ((weight t + overhead + 44) div 45) \<le> weight t + overhead + 44" by simp
  ultimately show ?thesis by (rule scale)
qed

lemma copy_in_limit:
  fixes w x n f overhead m :: int
  assumes "45 * w \<le> 61 * (x + overhead + 44)" "57 * x \<le> 78 * n + 57 * f" "15 * n \<le> 8 * m"
    "128 * (f + overhead + 44) \<le> m" "0 \<le> f" "0 \<le> overhead"
  shows "w \<le> m"
proof -
  define r where "r = f + overhead + 44"
  have m: "128 * r \<le> m" "0 \<le> m" using assms(4-6) by (simp_all add: r_def)
  have "2565 * w \<le> 3477 * (x + overhead + 44)" using assms(1) by linarith
  also have "\<dots> \<le> 4758 * n + 3477 * r" using assms(2) by (simp add: r_def)
  finally have "384750 * w \<le> 713700 * n + 521550 * r" by linarith
  moreover have "713700 * n \<le> 380640 * m" using assms(3) by linarith
  moreover have "521550 * r \<le> 4075 * m" using m by linarith
  ultimately show ?thesis using m(2) by linarith
qed

text \<open>C36: Attachments that the limit lets through still fit when they travel a second time inside the
  encrypted copy of the message. The copy that \<open>sealMailForSelf\<close> uploads (attachments in Base64
  lines of a MIME message, encrypted, and in Base64 lines again) is not larger than one upload and
  not larger than one message, as long as everything else in it (text, HTML, headers and the
  packets of OpenPGP) weighs less than a 128th of the limit, 390 kB by default. Of the OpenPGP
  library it is assumed that it writes a line of 60 characters and a break for every 45 bytes. The
  limits are whole numbers of bytes below a pebibyte.\<close>

theorem sealed_copy_fits:
  assumes limits: "l = resolveMailServerLimits source" "config_ok (ls_configLimits source)"
    and whole: "maxBlobUploadBytes l = of_int blob" "blob < 2 ^ 50" "message_limit l = of_int message" "message < 2 ^ 50"
    and size: "getOutgoingAttachmentsTotalSizeError fmt (attachment_sizes content) (maxOutgoingAttachmentBytes l) = None"
    and frame: "128 * (int (frame_weight alt mixed content) + int overhead + 44) \<le> min blob message"
    and sealed: "armor_law overhead sealer"
      "sealer_encrypt sealer (buildOutgoingMimeMessage alt mixed content) [selfPublicKeyArmored sealer] = Inr armored"
  shows "sealMailForSelf alt mixed content sealer = sealer_upload sealer armored \<and>
    of_nat (length (text_encode armored)) \<le> maxBlobUploadBytes l \<and>
    of_nat (length (text_encode armored)) \<le> message_limit l"
proof -
  let ?n = "sum_list (attachment_sizes content)"
  have n: "of_nat ?n \<le> maxOutgoingAttachmentBytes l"
    using size by (auto simp: getOutgoingAttachmentsTotalSizeError_def Let_def split: if_splits)
  have scaled: "15 * int ?n \<le> 8 * m" if "of_nat ?n * SEALED_COPY_EXPANSION \<le> of_int m" for m
  proof -
    from that have "of_int (15 * int ?n) \<le> (of_int (8 * m) :: rat)" by (simp add: SEALED_COPY_EXPANSION_def)
    then show ?thesis by (simp only: of_int_le_iff)
  qed
  have fits: "int (weight armored) \<le> m"
    if "15 * int ?n \<le> 8 * m" "128 * (int (frame_weight alt mixed content) + int overhead + 44) \<le> m" for m
  proof (rule copy_in_limit [OF _ _ that])
    let ?x = "weight (buildOutgoingMimeMessage alt mixed content)"
    show "45 * int (weight armored) \<le> 61 * (int ?x + int overhead + 44)"
      using zle_int [THEN iffD2, OF armor_weight [OF sealed]] by simp
    show "57 * int ?x \<le> 78 * int ?n + 57 * int (frame_weight alt mixed content)"
      using zle_int [THEN iffD2, OF mime_weight [of alt mixed content]] by simp
  qed simp_all
  have "int (weight armored) \<le> blob" "int (weight armored) \<le> message"
    using fits scaled [OF outgoing_limit_scaled(1) [OF limits whole n]]
      scaled [OF outgoing_limit_scaled(2) [OF limits whole n]] frame by auto
  then have "(of_int (int (weight armored)) :: rat) \<le> of_int blob" "(of_int (int (weight armored)) :: rat) \<le> of_int message"
    by (simp_all only: of_int_le_iff)
  with sealed(2) show ?thesis by (simp add: whole weight_def sealMailForSelf_def)
qed

text \<open>A message with one small attachment, and a sealer that writes Base64.\<close>

definition sample_content :: outgoing_mail_content where
  "sample_content = \<lparr>omc_text = ''Hi'' @ [LF] @ ''there'', omc_html = Some ''<p>Hi</p>'',
     omc_attachments = [\<lparr>oma_filename = ''a.txt'', oma_contentType = ''text/plain'', oma_content = text_encode ''abc'',
       oma_cid = None, oma_disposition = None\<rparr>]\<rparr>"

definition sample_sealer :: mail_sealer where
  "sample_sealer = \<lparr>selfPublicKeyArmored = ''own key'',
     sealer_encrypt = (\<lambda>t keys. Inr (btoa (map char_of_byte (text_encode t)))),
     sealer_upload = (\<lambda>a. Inr \<lparr>pg_blobId = ''b1'', pg_size = length a\<rparr>)\<rparr>"

lemma sample_armor: "armor_law 0 sample_sealer"
proof -
  have "4 * ((w + 2) div 3) \<le> 61 * ((w + 44) div 45)" for w :: nat
  proof -
    let ?q = "(w + 44) div 45"
    have "w \<le> 45 * ?q" by linarith
    then have "(w + 2) div 3 \<le> 15 * ?q" by linarith
    then show ?thesis by linarith
  qed
  then show ?thesis
    by (simp add: armor_law_def sample_sealer_def weight_ascii [OF btoa_ascii] length_btoa_exact) (simp add: weight_def)
qed

lemma sample_frame: "frame_weight (1, ''x'') (2, ''y'') sample_content < 1000"
  by code_simp

theorem sealed_copy_fits_witness:
  "case sealMailForSelf (1, ''x'') (2, ''y'') sample_content sample_sealer of
     Inr c \<Rightarrow> of_nat (pg_size c) \<le> maxBlobUploadBytes (resolveMailServerLimits no_settings) | Inl _ \<Rightarrow> False"
proof -
  let ?l = "resolveMailServerLimits no_settings"
  let ?t = "buildOutgoingMimeMessage (1, ''x'') (2, ''y'') sample_content"
  let ?a = "btoa (map char_of_byte (text_encode ?t))"
  have size: "getOutgoingAttachmentsTotalSizeError (\<lambda>_. []) (attachment_sizes sample_content)
      (maxOutgoingAttachmentBytes ?l) = None"
  proof -
    have "sum_list (attachment_sizes sample_content) = 3" by code_simp
    with default_outgoing_limit show ?thesis by (simp add: getOutgoingAttachmentsTotalSizeError_def)
  qed
  have limits: "maxBlobUploadBytes ?l = of_int 50000000" "message_limit ?l = of_int 75000000"
    by (simp_all add: default_limits message_limit_def DEFAULT_MAX_MESSAGE_BYTES_def)
  have sealed: "sealer_encrypt sample_sealer ?t [selfPublicKeyArmored sample_sealer] = Inr ?a"
    by (simp add: sample_sealer_def)
  have "sealMailForSelf (1, ''x'') (2, ''y'') sample_content sample_sealer = sealer_upload sample_sealer ?a \<and>
      of_nat (length (text_encode ?a)) \<le> maxBlobUploadBytes ?l \<and> of_nat (length (text_encode ?a)) \<le> message_limit ?l"
    by (rule sealed_copy_fits [OF refl default_config_ok limits(1) _ limits(2) _ size _ sample_armor sealed])
      (use sample_frame in simp_all)
  moreover have "length (text_encode ?a) = length ?a" using weight_ascii [OF btoa_ascii] by (simp add: weight_def)
  ultimately show ?thesis by (simp add: sample_sealer_def)
qed

section \<open>What the MIME message and the keys are for\<close>

text \<open>What is built is recognised as MIME when it is decrypted.\<close>

lemma built_message_looks_like_mime: "looksLikeMimeMessage (buildOutgoingMimeMessage alt mixed content)"
proof -
  have name: "to_lower ''Content-Type:'' = ''content-type:''" "\<not> is_ws (CHR ''C'')" by code_simp+
  have starts: "looksLikeMimeMessage (''Content-Type:'' @ CHR '' '' # c # s)" if "\<not> is_ws c" for c s
  proof -
    have "content_type_at (''Content-Type:'' @ CHR '' '' # c # s)"
      using that name(1) unfolding content_type_at_def
      by (simp only: take_append drop_append) (simp del: to_lower_def)
    moreover have "dropWhile is_ws (''Content-Type:'' @ CHR '' '' # c # s) = ''Content-Type:'' @ CHR '' '' # c # s"
      using name(2) by simp
    ultimately show ?thesis by (simp only: looksLikeMimeMessage_def Let_def list_ex_iff list.set insert_iff) blast
  qed
  have letters: "\<not> is_ws (CHR ''m'')" "\<not> is_ws (CHR ''t'')" by code_simp+
  have "\<exists>c s. c \<in> {CHR ''m'', CHR ''t''} \<and> buildOutgoingMimeMessage alt mixed content = ''Content-Type: '' @ c # s"
    by (auto simp: buildOutgoingMimeMessage_def buildAlternativeBodyParts_def Let_def)
  then obtain c s where "c \<in> {CHR ''m'', CHR ''t''}"
    "buildOutgoingMimeMessage alt mixed content = ''Content-Type:'' @ CHR '' '' # c # s" by auto
  with starts [of c s] letters show ?thesis by (auto simp only: insert_iff empty_iff)
qed

text \<open>Mail to internal recipients is encrypted to the own key and to the key of every recipient of the
  domain but the sender.\<close>

lemma collect_keys_all:
  assumes "collect_keys get domain sender rs keys = Inr keys'"
  shows "set keys' = set keys \<union> {key. \<exists>r \<in> set rs. getEmailDomain r = domain \<and> r \<noteq> sender \<and> get r = Inr key}"
    "distinct keys \<Longrightarrow> distinct keys'"
  using assms by (induction get domain sender rs keys rule: collect_keys.induct) (auto split: if_splits sum.splits)

lemma encrypted_to_every_recipient:
  assumes "sealOutgoingMessageBody alt mixed recipients sender domain content sealer get = Inr body" "omb_encrypted body"
  obtains keys armored where
    "sealer_encrypt sealer (outgoing_plaintext alt mixed content) keys = Inr armored"
    "selfPublicKeyArmored sealer \<in> set keys"
    "\<And>r. r \<in> set recipients \<Longrightarrow> r \<noteq> normalizeEmailAddress sender \<Longrightarrow> \<exists>key \<in> set keys. get r = Inr key"
    "omc_attachments content = [] \<Longrightarrow> omb_textBody body = armored"
proof -
  let ?d = "resolveEncryptionInternalDomain domain"
  have enc: "shouldEncryptOutgoingMail recipients ?d"
    using assms by (auto simp: sealOutgoingMessageBody_def Let_def split: if_splits sum.splits)
  obtain keys armored where keys: "collect_keys get ?d (normalizeEmailAddress sender) recipients [selfPublicKeyArmored sealer] = Inr keys"
    and sealed: "sealer_encrypt sealer (outgoing_plaintext alt mixed content) keys = Inr armored"
    and body: "omc_attachments content = [] \<Longrightarrow> omb_textBody body = armored"
    using assms enc by (auto simp: sealOutgoingMessageBody_def Let_def split: if_splits sum.splits)
  have got: "\<exists>key. get r = Inr key \<and> key \<in> set keys'"
    if "collect_keys get dom snd rs ks = Inr keys'" "r \<in> set rs" "r \<noteq> snd" "getEmailDomain r = dom" for dom snd rs ks keys' r
  proof -
    have "\<exists>key. get r = Inr key" using that
      by (induction get dom snd rs ks rule: collect_keys.induct) (auto split: if_splits sum.splits)
    with collect_keys_all(1) [OF that(1)] that(2-4) show ?thesis by auto
  qed
  have dom: "getEmailDomain r = ?d" if "r \<in> set recipients" for r
  proof -
    obtain e where e: "?d = Some e" using enc
      by (cases ?d) (simp_all add: shouldEncryptOutgoingMail_def text_of_def trim_def to_lower_def)
    then have "to_lower (trim e) = e"
      by (auto simp: resolveEncryptionInternalDomain_def Let_def trim_to_lower split: if_splits)
    with enc e that show ?thesis
      by (auto simp: shouldEncryptOutgoingMail_def text_of_def Let_def list_all_iff split: if_splits)
  qed
  show thesis
  proof (rule that [OF sealed _ _ body])
    show "selfPublicKeyArmored sealer \<in> set keys" using collect_keys_all(1) [OF keys] by simp
    fix r assume "r \<in> set recipients" "r \<noteq> normalizeEmailAddress sender"
    with got [OF keys this dom] show "\<exists>key \<in> set keys. get r = Inr key" by blast
  qed
qed

end
