(* ===== verification/Spec2Isabelle.thy ===== *)
theory Spec2Isabelle
  imports SecureStore Recurrence AllDayLayout TimelineLayout IcsParse OptimisticEvents RecentContacts TaskPool BlobRegistry KeyBootstrap NotificationTitle MailboxNames OutgoingMime
begin

text \<open>
  Solace is a calendar and mail program: a web client, two native apps, a Rust backend and a mail
  server. This development models the logic that the TypeScript clients share, most of it in
  \<open>packages/\<close>, and proves what makes it correct. Paths below are relative to \<open>src/\<close>.

  \<^bold>\<open>Parts and how they interact.\<close>

  Calendar data. An event comes from the API, from an imported file or from the editor. Its days
  depend on the zone of the viewer (\<open>Timezone\<close>, \<open>EventDate\<close>), a repeated event is
  expanded into its instances (\<open>Recurrence\<close>), and a view places the events of a day in lanes and
  columns (\<open>Packing\<close>, \<open>AllDayLayout\<close>, \<open>OverlapClusters\<close>, \<open>TimelineLayout\<close>). Changes are
  shown before the server has them (\<open>OptimisticEvents\<close>). Files are written by \<open>IcsBuild\<close> and read
  by \<open>IcsParse\<close>.

  Keys and encryption. A browser or phone holds the account key and the blind-index key, wrapped for
  a device key pair; a password envelope carries them to a new browser. \<open>E2eeModule\<close> is the
  cryptography over Web Crypto, \<open>KeyBootstrap\<close> how a browser comes by the keys, \<open>SecureStore\<close>
  where a phone keeps secrets. Before a request leaves the device the provider of
  \<open>ContentProvider\<close> seals its private fields with \<open>E2eePayloads\<close>, and opens them when a record
  comes back. Reminder titles and mail folder names have schemes of their own
  (\<open>NotificationTitle\<close>, \<open>MailboxNames\<close>).

  Mail. Addresses and replies (\<open>MailAddresses\<close>), suggestions (\<open>RecentContacts\<close>), the limits of the
  server (\<open>MailPolicy\<close>), uploads (\<open>TaskPool\<close>, \<open>BlobRegistry\<close>), sending, drafts, moves and
  deletions (\<open>JmapSend\<close>), and the MIME message that is encrypted (\<open>OutgoingMime\<close>).

  \<^bold>\<open>Theories and sources.\<close>

  \<^item> \<open>Prelude\<close>, \<open>JsValue\<close>, \<open>JsDate\<close>, \<open>JsMap\<close>, \<open>JsBytes\<close>, \<open>JsJson\<close>: the operations of the language and of
    its standard library that the sources use (strings, sorting, numbers, \<open>unknown\<close> values,
    \<open>Date\<close> in UTC, \<open>Map\<close>, byte arrays with UTF-8 and Base64, \<open>JSON\<close>), with the lemmas the
    components share.
  \<^item> \<open>SecureStore\<close>: \<open>packages/native-core/src/lib/secure-store-chunked.ts\<close>. A key store is a partial
    map; a write is the list of calls it makes, so a crash is a prefix of that list.
  \<^item> \<open>Recurrence\<close>: \<open>packages/calendar-ics/src/recurrence.ts\<close>.
  \<^item> \<open>IcsBuild\<close>, \<open>IcsParse\<close>: \<open>packages/calendar-ics/src/index.ts\<close> and \<open>parse-ics.ts\<close>.
  \<^item> \<open>Timezone\<close>, \<open>EventDate\<close>: \<open>packages/calendar-core/src/timezone.ts\<close> and \<open>event-date.ts\<close>, with the day
    and range tests of \<open>packages/ui/src/components/calendar/utils.ts\<close>.
  \<^item> \<open>AllDayLayout\<close>, \<open>OverlapClusters\<close>, \<open>TimelineLayout\<close>: \<open>all-day-layout.ts\<close> and
    \<open>timeline-layout.ts\<close> in \<open>packages/ui/src/components/calendar\<close>; \<open>Packing\<close> is the first-fit scheme of both.
  \<^item> \<open>OptimisticEvents\<close>: \<open>apps/native-calendar/src/lib/optimistic-events.ts\<close>.
  \<^item> \<open>MailAddresses\<close>, \<open>RecentContacts\<close>, \<open>MailboxNames\<close>: \<open>mail-addresses.ts\<close>, \<open>recent-contacts.ts\<close> and
    \<open>mail-mailbox-names.ts\<close> in \<open>packages/calendar-core/src\<close>.
  \<^item> \<open>MailPolicy\<close>, \<open>TaskPool\<close>, \<open>BlobRegistry\<close>: \<open>mail-server-limits.ts\<close> and \<open>mail-server-policy.ts\<close> there, and the refresh of
    uploads in \<open>apps/web/lib/mail/jmap-client.ts\<close>.
  \<^item> \<open>JmapSend\<close>: \<open>mail-jmap-email-set.ts\<close> and \<open>mail-jmap-validation.ts\<close> there, and how the web client splits a request.
  \<^item> \<open>OutgoingMime\<close>: \<open>outgoing-mime.ts\<close>, \<open>mail-outgoing-crypto.ts\<close> and the limit on the total size of
    \<open>mail-outgoing-attachments.ts\<close> there.
  \<^item> \<open>E2eeModule\<close>: \<open>packages/e2ee/src/e2ee-module.ts\<close> over the interface of \<open>crypto-provider.ts\<close>.
  \<^item> \<open>E2eePayloads\<close>: \<open>packages/calendar-core/src/content-encryption.ts\<close> and \<open>payloads.ts\<close>,
    \<open>hydration.ts\<close>, \<open>device-key.ts\<close> in \<open>packages/e2ee/src\<close>.
  \<^item> \<open>ContentProvider\<close>: \<open>packages/e2ee/src/provider.ts\<close>, \<open>apps/web/lib/web-e2ee-provider.ts\<close>,
    \<open>apps/web/lib/e2ee-payloads.ts\<close> and the provider half of
    \<open>packages/native-core/src/lib/native-e2ee-provider.ts\<close>.
  \<^item> \<open>KeyBootstrap\<close>: \<open>e2ee-bootstrap.ts\<close>, \<open>e2ee-session.ts\<close>, \<open>e2ee-storage.ts\<close>, \<open>e2ee-api-service.ts\<close> and
    \<open>e2ee-password-cache.ts\<close> in \<open>apps/web/lib\<close>, with the password change of
    \<open>packages/calendar-client/src/password-change.ts\<close> and, among what may happen meanwhile, the wipe
    of \<open>auth-local-state.ts\<close>. \<open>Async\<close> is its state monad with errors and the rules for invariants.
  \<^item> \<open>NotificationTitle\<close>: \<open>packages/e2ee/src/notification-title.ts\<close> with its web and native wrappers.

  Definitions keep the names of the source; a helper that stands for a loop body or an inner function
  has a descriptive name in lower case.

  \<^bold>\<open>Modelling decisions.\<close>

  A string is a list of \<open>char\<close>, one for each UTF-16 code unit, so texts range over code units up to 255; nothing proved
  depends on a character above that, and case mapping, \<open>normalize\<close> and \<open>localeCompare\<close> are arguments
  where the code applies them to such texts. Numbers are \<open>int\<close>, \<open>nat\<close> or
  \<open>rat\<close>; where a double may round, the rounding is written out (\<open>to_double\<close> in \<open>MailPolicy\<close>) or
  the header of the theory says that a layout length is taken exactly. Bytes are \<open>8 word\<close>. A \<open>Date\<close> is its
  time value in milliseconds, an invalid one \<open>None\<close> where the code can meet it. Errors are \<open>Inl\<close> or
  \<open>None\<close>. Sorting is the stable sort of the language by the comparator of the code; the locale
  \<open>js_comparator\<close> has what follows from a consistent comparator, and each comparator is an
  interpretation of it.

  What is not in the repository is an argument: \<open>Intl\<close> and \<open>date-fns\<close> (\<open>date_env\<close>,
  \<open>timeline_env\<close>), \<open>node-ical\<close> and its surroundings (\<open>ics_env\<close>), the query client (\<open>query_client\<close>, with
  the contract \<open>query_cache\<close>), the key store of the phone, the mail server as a function on
  its own state, number formatting and texts (\<open>json_env\<close>), and Web Crypto (\<open>web_crypto\<close>). The laws
  of Web Crypto are hypotheses of the theorems that need them: \<open>crypto_laws\<close> (decryption inverts
  encryption), \<open>crypto_authentic\<close> (only what was encrypted decrypts), \<open>wrap_laws\<close>, \<open>exported_as\<close> and
  \<open>crypto_total\<close> for key wrapping, import and export, \<open>gcm_tag\<close> and \<open>gcm_length\<close> for the form of a
  ciphertext. Each such theorem has a witness on a concrete instance; authenticity and exact length
  are never assumed together, since no finite cipher has both. The zod schemas are the checks they document.
  A zone is its clock: \<open>zone_laws\<close> says that \<open>Intl\<close> shows it and that \<open>fromZonedTime\<close> finds a time it
  shows. That a midnight exists is not a law (where summer time starts at midnight, one does not) but a
  hypothesis on the days a theorem is about. An upload may be answered with an id given out before for
  the same bytes. What OpenPGP adds to a text is bounded by \<open>armor_law\<close>.

  Asynchrony. Where the order of things matters it is in the model: the pool is a step relation with
  any order of completion; a start of the account (\<open>KeyBootstrap\<close>) runs against a list of
  interferences, one for each \<open>await\<close>, those of Web Crypto included: a sign-out with the wipe of the
  device records it starts, another user's sign-in and start, a record stored by another tab, and
  the failure of the awaited call. The answer of the server to the bootstrap request is fixed during
  a run, and otherwise any. A theorem says which interferences it allows. A stored write may stop after
  any of its calls. Elsewhere an \<open>async\<close> function is the function of
  its answers. Parallel chunks of a JMAP request are answered in their order.

  \<^bold>\<open>What the lemmas show.\<close>

  \<^item> Invariants and safety: keys an account has are never replaced by others, and those of a new account
    are held by an envelope before a device is registered, or kept in the browser; no private text in the write of
    an event; torn writes never mix two values; lanes and columns never overlap; a refused send keeps the
    draft; one contact per address; outgoing attachments name blobs the server keeps, and fit in the
    encrypted copy.
  \<^item> Round trips: stored values, envelopes, events, folder names and reminder titles, exported
    files, all-day days, wall-clock times, rollback and undo.
  \<^item> Refinement and equivalence: instances of a series against the iterated step, the importer against
    the last event of each identifier, the upload registry against classes of ids, cached ranges against
    coverage of every instant, the day tests against day ranges, encryption against the recipients.
  \<^item> Termination and liveness: the next occurrence is later, clusters are always built, the pool
    settles, a sign-in opens the account, emptying a folder ends.
  \<^item> Bounds, types and errors: the limits resolved from any settings, the size of a sealed copy, the length of the
    salt, a password with blanks, which is refused.
  \<^item> Lemmas that exhibit a defect of the code on a concrete input, such as
    \<open>daily_series_goes_silent\<close>, \<open>missing_end_rejected\<close>, \<open>comma_name_blocks_sending\<close> and
    \<open>split_send_loses_its_reference\<close>.

  \<^bold>\<open>Bounds and fuel.\<close>

  The expansion of a series has the bound of the code, \<open>maxIterations\<close> 1000. The JSON reader
  takes fuel; \<open>fuel_le_text\<close> shows that twice the length of a text is enough for what the writer makes
  of it. Following parents in the union-find (\<open>find_root\<close>) and emptying a folder (\<open>destroy_batches\<close>)
  are partial functions; that they return is proved, the first always, the second for a server that
  lists what it holds. All other recursion is structural or has a measure.

  \<^bold>\<open>Not modelled.\<close>

  React components, hooks and screens, whose state is the framework's; HTTP and JMAP transport and the
  API client, which call servers; generated types; HTML sanitising and rendering, which rest on a DOM;
  OpenPGP, which is a library; the registration and storage of a phone's device keys (the first half of
  \<open>native-e2ee-provider.ts\<close>); the Rust services and deployment. Within modelled files:
  caches of formatters and derived keys, time stamps of records, log and analytics calls, the text of a byte
  limit (\<open>formatAttachmentByteLimit\<close>, an argument), \<open>createRecurrenceRule\<close> (a call of
  \<open>JSON.stringify\<close>), the branches of the day tests for views without a zone, and the sharing of a
  running bootstrap by two callers.
\<close>

end
